(* ===== verification/Prelude.thy ===== *)
theory Prelude
  imports Main "HOL-Library.Char_ord" "HOL-Library.List_Lexorder" "HOL-Library.Product_Lexorder" "HOL-Library.Code_Target_Nat"
begin

text \<open>
  Shared vocabulary of the development: results (Rust's \<open>Result\<close>), the state-and-error
  monad in which the transactional protocols are written together with its weakest
  precondition rules, ordered maps (Rust's \<open>BTreeMap\<close>) with the interface they satisfy,
  byte strings (Rust's \<open>String\<close> is UTF-8, so a string here is its list of bytes) and
  saturating arithmetic on 64-bit counters.
\<close>

named_theorems wp \<open>weakest precondition rules of the state-and-error monad\<close>
named_theorems result_simps \<open>unfolding rules for results\<close>

section \<open>Results\<close>

text \<open>\<open>Result<T, E>\<close> is \<open>E + T\<close>; \<open>bindR\<close> is the \<open>?\<close> operator.\<close>

fun bindR :: "'e + 'a \<Rightarrow> ('a \<Rightarrow> 'e + 'b) \<Rightarrow> 'e + 'b" where
  "bindR (Inl e) f = Inl e"
| "bindR (Inr a) f = f a"

definition guardR :: "bool \<Rightarrow> 'e \<Rightarrow> 'e + unit" where
  "guardR c e = (if c then Inr () else Inl e)"

fun forR :: "('a \<Rightarrow> 'e + unit) \<Rightarrow> 'a list \<Rightarrow> 'e + unit" where
  "forR f [] = Inr ()"
| "forR f (x # xs) = bindR (f x) (\<lambda>_. forR f xs)"

definition is_ok :: "'e + 'a \<Rightarrow> bool" where
  "is_ok r = (case r of Inl _ \<Rightarrow> False | Inr _ \<Rightarrow> True)"

lemma is_ok_simps [simp]: "is_ok (Inr a)" "\<not> is_ok (Inl e)"
  by (simp_all add: is_ok_def)

lemma is_ok_unit: "is_ok (r :: 'e + unit) \<longleftrightarrow> r = Inr ()"
  by (cases r) (auto simp: is_ok_def)

lemma bindR_Inr [result_simps]: "bindR r f = Inr b \<longleftrightarrow> (\<exists>a. r = Inr a \<and> f a = Inr b)"
  by (cases r) auto

lemma bindR_Inl [result_simps]:
  "bindR r f = Inl e \<longleftrightarrow> r = Inl e \<or> (\<exists>a. r = Inr a \<and> f a = Inl e)"
  by (cases r) auto

lemma guardR_Inr [simp]: "guardR c e = Inr u \<longleftrightarrow> c"
  by (simp add: guardR_def)

lemma guardR_Inl [simp]: "guardR c e = Inl e' \<longleftrightarrow> \<not> c \<and> e' = e"
  by (auto simp: guardR_def)

lemma guardR_True [simp]: "guardR True e = Inr ()"
  by (simp add: guardR_def)

lemma forR_Inr: "forR f xs = Inr () \<longleftrightarrow> (\<forall>x \<in> set xs. f x = Inr ())"
  by (induction xs) (auto simp: result_simps)

lemma is_ok_bindR: "is_ok (bindR r f) \<longleftrightarrow> (\<exists>a. r = Inr a \<and> is_ok (f a))"
  by (cases r) auto

section \<open>The state-and-error monad\<close>

text \<open>
  A protocol step reads and writes a state and may fail; a failure carries no state,
  because a failed transaction is dropped as a whole.
\<close>

type_synonym ('s, 'e, 'a) stm = "'s \<Rightarrow> 'e + ('a \<times> 's)"

definition retM :: "'a \<Rightarrow> ('s, 'e, 'a) stm" where
  "retM a = (\<lambda>s. Inr (a, s))"

definition failM :: "'e \<Rightarrow> ('s, 'e, 'a) stm" where
  "failM e = (\<lambda>s. Inl e)"

definition bindM :: "('s, 'e, 'a) stm \<Rightarrow> ('a \<Rightarrow> ('s, 'e, 'b) stm) \<Rightarrow> ('s, 'e, 'b) stm" where
  "bindM m f = (\<lambda>s. case m s of Inl e \<Rightarrow> Inl e | Inr (a, s') \<Rightarrow> f a s')"

definition getsM :: "('s \<Rightarrow> 'a) \<Rightarrow> ('s, 'e, 'a) stm" where
  "getsM f = (\<lambda>s. Inr (f s, s))"

definition modM :: "('s \<Rightarrow> 's) \<Rightarrow> ('s, 'e, unit) stm" where
  "modM f = (\<lambda>s. Inr ((), f s))"

definition liftM :: "'e + 'a \<Rightarrow> ('s, 'e, 'a) stm" where
  "liftM r = (\<lambda>s. case r of Inl e \<Rightarrow> Inl e | Inr a \<Rightarrow> Inr (a, s))"

definition guardM :: "bool \<Rightarrow> 'e \<Rightarrow> ('s, 'e, unit) stm" where
  "guardM c e = (if c then retM () else failM e)"

definition whenM :: "bool \<Rightarrow> ('s, 'e, unit) stm \<Rightarrow> ('s, 'e, unit) stm" where
  "whenM c m = (if c then m else retM ())"

fun mapM :: "('a \<Rightarrow> ('s, 'e, 'b) stm) \<Rightarrow> 'a list \<Rightarrow> ('s, 'e, 'b list) stm" where
  "mapM f [] = retM []"
| "mapM f (x # xs) = bindM (f x) (\<lambda>y. bindM (mapM f xs) (\<lambda>ys. retM (y # ys)))"

lemmas stm_defs = retM_def failM_def bindM_def getsM_def modM_def liftM_def guardM_def whenM_def

lemma bindM_cong [fundef_cong]:
  "m = m' \<Longrightarrow> s = s' \<Longrightarrow> (\<And>a t. m' s' = Inr (a, t) \<Longrightarrow> f a t = f' a t) \<Longrightarrow> bindM m f s = bindM m' f' s'"
  by (auto simp: bindM_def split: sum.splits)

lemma bindM_Inr:
  "bindM m f s = Inr (b, t) \<longleftrightarrow> (\<exists>a s1. m s = Inr (a, s1) \<and> f a s1 = Inr (b, t))"
  by (auto simp: bindM_def split: sum.splits prod.splits)

text \<open>
  \<open>triple P m Q\<close>: started in a state satisfying \<open>P\<close>, if \<open>m\<close> succeeds then its result
  and final state satisfy \<open>Q\<close>.
\<close>

definition triple :: "('s \<Rightarrow> bool) \<Rightarrow> ('s, 'e, 'a) stm \<Rightarrow> ('a \<Rightarrow> 's \<Rightarrow> bool) \<Rightarrow> bool" where
  "triple P m Q \<longleftrightarrow> (\<forall>s a t. P s \<longrightarrow> m s = Inr (a, t) \<longrightarrow> Q a t)"

lemma tripleI: "(\<And>s a t. P s \<Longrightarrow> m s = Inr (a, t) \<Longrightarrow> Q a t) \<Longrightarrow> triple P m Q"
  by (auto simp: triple_def)

lemma tripleD: "triple P m Q \<Longrightarrow> P s \<Longrightarrow> m s = Inr (a, t) \<Longrightarrow> Q a t"
  by (auto simp: triple_def)

lemma triple_weaken:
  "triple P' m Q' \<Longrightarrow> (\<And>s. P s \<Longrightarrow> P' s) \<Longrightarrow> (\<And>a t. Q' a t \<Longrightarrow> Q a t) \<Longrightarrow> triple P m Q"
  unfolding triple_def by blast

lemma triple_pre: "triple P' m Q \<Longrightarrow> (\<And>s. P s \<Longrightarrow> P' s) \<Longrightarrow> triple P m Q"
  by (rule triple_weaken)

lemma triple_conj: "triple P m Q \<Longrightarrow> triple P m R \<Longrightarrow> triple P m (\<lambda>a s. Q a s \<and> R a s)"
  by (auto simp: triple_def)

lemma wp_ret [wp]: "triple (Q a) (retM a) Q"
  by (auto simp: triple_def stm_defs)

lemma wp_fail [wp]: "triple P (failM e) Q"
  by (auto simp: triple_def stm_defs)

lemma wp_gets [wp]: "triple (\<lambda>s. Q (f s) s) (getsM f) Q"
  by (auto simp: triple_def stm_defs)

lemma wp_mod [wp]: "triple (\<lambda>s. Q () (f s)) (modM f) Q"
  by (auto simp: triple_def stm_defs)

lemma wp_lift [wp]: "triple (\<lambda>s. \<forall>a. r = Inr a \<longrightarrow> Q a s) (liftM r) Q"
  by (auto simp: triple_def stm_defs split: sum.splits)

lemma wp_guard [wp]: "triple (\<lambda>s. c \<longrightarrow> Q () s) (guardM c e) Q"
  by (auto simp: triple_def stm_defs split: if_splits)

lemma wp_when: "triple P m Q \<Longrightarrow> triple (\<lambda>s. (c \<longrightarrow> P s) \<and> (\<not> c \<longrightarrow> Q () s)) (whenM c m) Q"
  by (auto simp: triple_def stm_defs split: if_splits)

lemma wp_bind: "triple P m R \<Longrightarrow> (\<And>a. triple (R a) (f a) Q) \<Longrightarrow> triple P (bindM m f) Q"
  by (fastforce simp: triple_def bindM_Inr)

lemma triple_mapM:
  assumes "\<And>x. x \<in> set xs \<Longrightarrow> triple I (f x) (\<lambda>_. I)"
  shows "triple I (mapM f xs) (\<lambda>_. I)"
  using assms
proof (induction xs)
  case Nil
  show ?case by (simp add: triple_def stm_defs)
next
  case (Cons x xs)
  have head: "triple I (f x) (\<lambda>_. I)" by (rule Cons.prems) simp
  have tail: "triple I (mapM f xs) (\<lambda>_. I)" by (rule Cons.IH, rule Cons.prems) simp
  show ?case
    unfolding mapM.simps
    by (rule wp_bind [OF head], rule wp_bind [OF tail], rule wp_ret)
qed

section \<open>Lists\<close>

lemma fold_max_ge: "x \<in> set xs \<Longrightarrow> x \<le> fold max xs (a::nat)"
proof (induction xs arbitrary: a)
  case (Cons y xs)
  have "b \<le> fold max xs b" for b by (induction xs arbitrary: b) (auto intro: order_trans[OF max.cobounded2])
  then show ?case using Cons by (auto intro: order_trans[OF max.cobounded1])
qed simp

section \<open>Ordered maps\<close>

text \<open>
  A \<open>BTreeMap\<close> is the list of its entries in ascending key order. \<open>bt_insert\<close> is
  \<open>insert\<close>, \<open>bt_remove\<close> is \<open>remove\<close>, \<open>map_of\<close> is \<open>get\<close> and iteration is the list.
\<close>

fun bt_insert :: "'k::linorder \<Rightarrow> 'v \<Rightarrow> ('k \<times> 'v) list \<Rightarrow> ('k \<times> 'v) list" where
  "bt_insert k v [] = [(k, v)]"
| "bt_insert k v ((k', v') # m) =
     (if k < k' then (k, v) # (k', v') # m
      else if k = k' then (k, v) # m
      else (k', v') # bt_insert k v m)"

definition bt_remove :: "'k \<Rightarrow> ('k \<times> 'v) list \<Rightarrow> ('k \<times> 'v) list" where
  "bt_remove k m = filter (\<lambda>e. fst e \<noteq> k) m"

definition bt_wf :: "('k::linorder \<times> 'v) list \<Rightarrow> bool" where
  "bt_wf m \<longleftrightarrow> sorted_wrt (<) (map fst m)"

lemma bt_wf_Nil [simp]: "bt_wf []"
  by (simp add: bt_wf_def)

lemma bt_wf_Cons: "bt_wf ((k, v) # m) \<longleftrightarrow> (\<forall>k' \<in> fst ` set m. k < k') \<and> bt_wf m"
  by (auto simp: bt_wf_def)

lemma map_of_bt_insert: "map_of (bt_insert k v m) = (map_of m)(k \<mapsto> v)"
  by (induction k v m rule: bt_insert.induct) (auto simp: fun_eq_iff)

lemma keys_bt_insert: "fst ` set (bt_insert k v m) = insert k (fst ` set m)"
  by (induction k v m rule: bt_insert.induct) auto

lemma bt_wf_insert: "bt_wf m \<Longrightarrow> bt_wf (bt_insert k v m)"
proof (induction k v m rule: bt_insert.induct)
  case (1 k v)
  show ?case by (simp add: bt_wf_def)
next
  case (2 k v k' v' m)
  show ?case
  proof (cases k k' rule: linorder_cases)
    case less
    with 2 show ?thesis by (auto simp: bt_wf_Cons dest: order_less_trans)
  next
    case equal
    with 2 show ?thesis by (auto simp: bt_wf_Cons)
  next
    case greater
    then have "bt_insert k v ((k', v') # m) = (k', v') # bt_insert k v m"
      by (simp add: order_less_imp_not_less order_less_imp_not_eq2)
    moreover have "bt_wf (bt_insert k v m)" using 2 greater by (simp add: bt_wf_Cons)
    moreover have "\<forall>x \<in> fst ` set (bt_insert k v m). k' < x"
      using 2 greater by (auto simp: keys_bt_insert bt_wf_Cons)
    ultimately show ?thesis by (simp add: bt_wf_Cons)
  qed
qed

lemma bt_insert_twice [simp]: "bt_insert k v (bt_insert k w m) = bt_insert k v m"
  by (induction k w m rule: bt_insert.induct) auto

lemma bt_distinct: "bt_wf m \<Longrightarrow> distinct (map fst m)"
  by (simp add: bt_wf_def strict_sorted_iff)

lemma bt_mem_iff: "bt_wf m \<Longrightarrow> (k, v) \<in> set m \<longleftrightarrow> map_of m k = Some v"
  by (auto dest: bt_distinct intro: map_of_is_SomeI map_of_SomeD)

lemma map_of_bt_remove: "map_of (bt_remove k m) = (map_of m)(k := None)"
  by (induction m) (auto simp: bt_remove_def fun_eq_iff)

lemma bt_wf_remove: "bt_wf m \<Longrightarrow> bt_wf (bt_remove k m)"
proof (induction m)
  case Nil
  then show ?case by (simp add: bt_remove_def)
next
  case (Cons e m)
  then show ?case by (cases e) (auto simp: bt_remove_def bt_wf_Cons)
qed

text \<open>
  The interface the stores rely on: a map with \<open>get\<close>, \<open>put\<close> and its rows, and the laws
  the client lemmas need.
\<close>

locale ordered_map =
  fixes get :: "'m \<Rightarrow> 'k \<Rightarrow> 'v option"
    and put :: "'k \<Rightarrow> 'v \<Rightarrow> 'm \<Rightarrow> 'm"
    and rows :: "'m \<Rightarrow> ('k \<times> 'v) list"
    and wfm :: "'m \<Rightarrow> bool"
  assumes get_put: "get (put k v m) = (get m)(k \<mapsto> v)"
    and wf_put: "wfm m \<Longrightarrow> wfm (put k v m)"
    and rows_get: "wfm m \<Longrightarrow> (k, v) \<in> set (rows m) \<longleftrightarrow> get m k = Some v"
    and rows_distinct: "wfm m \<Longrightarrow> distinct (map fst (rows m))"
begin

lemma get_put_same: "get (put k v m) k = Some v"
  by (simp add: get_put)

lemma get_put_other: "k' \<noteq> k \<Longrightarrow> get (put k v m) k' = get m k'"
  by (simp add: get_put)

lemma all_rows: "wfm m \<Longrightarrow> (\<forall>e \<in> set (rows m). P e) \<longleftrightarrow> (\<forall>k v. get m k = Some v \<longrightarrow> P (k, v))"
  by (simp add: rows_get [symmetric] split_paired_Ball_Sigma Ball_def split_paired_All)

lemma all_rows_put:
  assumes "wfm m"
  shows "(\<forall>e \<in> set (rows (put k v m)). P e) \<longleftrightarrow>
    P (k, v) \<and> (\<forall>k' v'. k' \<noteq> k \<longrightarrow> get m k' = Some v' \<longrightarrow> P (k', v'))"
proof -
  have "(\<forall>e \<in> set (rows (put k v m)). P e) \<longleftrightarrow>
      (\<forall>k' v'. get (put k v m) k' = Some v' \<longrightarrow> P (k', v'))"
    by (rule all_rows) (rule wf_put [OF assms])
  also have "\<dots> \<longleftrightarrow> P (k, v) \<and> (\<forall>k' v'. k' \<noteq> k \<longrightarrow> get m k' = Some v' \<longrightarrow> P (k', v'))"
    by (metis get_put_other get_put_same option.inject)
  finally show ?thesis .
qed

lemma put_put_get: "get (put k v (put k w m)) = get (put k v m)"
  by (simp add: get_put)

end

interpretation bt: ordered_map map_of bt_insert "\<lambda>m. m" bt_wf
  by unfold_locales (rule map_of_bt_insert, erule bt_wf_insert, erule bt_mem_iff, erule bt_distinct)

lemma bt_wf_map_vals:
  "(\<And>e. fst (f e) = fst e) \<Longrightarrow> bt_wf (map f m) = bt_wf m"
  by (simp add: bt_wf_def o_def)

lemma map_of_map_vals:
  "map_of (map (\<lambda>(k, v). (k, f k v)) m) k = map_option (f k) (map_of m k)"
  by (induction m) auto

section \<open>Strings\<close>

text \<open>
  A Rust string is its list of UTF-8 bytes, so \<open>len()\<close> is \<open>length\<close>. \<open>str_chars\<close> splits it
  into characters, each the bytes of one code point.
\<close>

type_synonym rstr = string

definition char_width :: "char \<Rightarrow> nat" where
  "char_width a = (let b = (of_char a :: nat)
     in if b < 128 then 1 else if b < 224 then 2 else if b < 240 then 3 else 4)"

fun str_chars :: "rstr \<Rightarrow> rstr list" where
  "str_chars [] = []"
| "str_chars (a # s) =
     (a # take (char_width a - 1) s) # str_chars (drop (char_width a - 1) s)"

definition char_count :: "rstr \<Rightarrow> nat" where
  "char_count s = length (str_chars s)"

fun code_point :: "rstr \<Rightarrow> nat" where
  "code_point [] = 0"
| "code_point [a] = of_char a"
| "code_point [a, b] = (of_char a - 192) * 64 + (of_char b - 128)"
| "code_point [a, b, c] = (of_char a - 224) * 4096 + (of_char b - 128) * 64 + (of_char c - 128)"
| "code_point (a # b # c # d # _) = (of_char a - 240) * 262144 + (of_char b - 128) * 4096
     + (of_char c - 128) * 64 + (of_char d - 128)"

definition chars :: "rstr \<Rightarrow> nat list" where
  "chars s = map code_point (str_chars s)"

lemma concat_str_chars [simp]: "concat (str_chars s) = s"
  by (induction s rule: str_chars.induct) auto

lemma str_chars_prefix: "str_chars (concat (take n (str_chars s))) = take n (str_chars s)"
proof (induction s arbitrary: n rule: str_chars.induct)
  case 1
  show ?case by simp
next
  case (2 a s)
  let ?w = "char_width a - 1"
  show ?case
  proof (cases n)
    case 0
    then show ?thesis by simp
  next
    case (Suc k)
    let ?r = "concat (take k (str_chars (drop ?w s)))"
    have r: "length s < ?w \<Longrightarrow> ?r = []" by simp
    have "take ?w (take ?w s @ ?r) = take ?w s"
      using r by (cases "length s < ?w") auto
    moreover have "drop ?w (take ?w s @ ?r) = ?r"
      using r by (cases "length s < ?w") auto
    ultimately show ?thesis using Suc "2.IH"[of k] by simp
  qed
qed

definition starts_with :: "rstr \<Rightarrow> rstr \<Rightarrow> bool" where
  "starts_with p s \<longleftrightarrow> take (length p) s = p"

fun contains :: "rstr \<Rightarrow> rstr \<Rightarrow> bool" where
  "contains p [] = (p = [])"
| "contains p (c # s) = (starts_with p (c # s) \<or> contains p s)"

definition strip_prefix :: "rstr \<Rightarrow> rstr \<Rightarrow> rstr option" where
  "strip_prefix p s = (if starts_with p s then Some (drop (length p) s) else None)"

lemma starts_with_append [simp]: "starts_with p (p @ s)"
  by (simp add: starts_with_def)

lemma starts_with_iff: "starts_with p s \<longleftrightarrow> (\<exists>r. s = p @ r)"
  by (auto simp: starts_with_def) (metis append_take_drop_id)

lemma strip_prefix_Some: "strip_prefix p s = Some r \<longleftrightarrow> s = p @ r"
  by (auto simp: strip_prefix_def starts_with_def) (metis append_take_drop_id)

text \<open>\<open>str::split\<close> on one character: always at least one segment.\<close>

fun split_on :: "char \<Rightarrow> rstr \<Rightarrow> rstr list" where
  "split_on c [] = [[]]"
| "split_on c (x # s) =
     (if x = c then [] # split_on c s
      else (case split_on c s of [] \<Rightarrow> [[x]] | w # ws \<Rightarrow> (x # w) # ws))"

lemma split_on_not_Nil [simp]: "split_on c s \<noteq> []"
  by (cases s) (auto split: list.splits)

lemma split_on_free: "c \<notin> set w \<Longrightarrow> split_on c w = [w]"
  by (induction w) auto

lemma split_on_append: "c \<notin> set w \<Longrightarrow> split_on c (w @ c # s) = w # split_on c s"
  by (induction w) auto

lemma split_on_append2: "split_on c (s @ c # t) = split_on c s @ split_on c t"
proof (induction s)
  case (Cons x s)
  then show ?case by (cases "split_on c s") auto
qed simp

fun join_with :: "char \<Rightarrow> rstr list \<Rightarrow> rstr" where
  "join_with c [] = []"
| "join_with c [w] = w"
| "join_with c (w # ws) = w @ c # join_with c ws"

lemma split_on_join:
  "ws \<noteq> [] \<Longrightarrow> (\<forall>w \<in> set ws. c \<notin> set w) \<Longrightarrow> split_on c (join_with c ws) = ws"
  by (induction ws rule: join_with.induct[of _ c]) (simp_all add: split_on_free split_on_append)

lemma join_split_on: "join_with c (split_on c s) = s"
proof (induction s)
  case (Cons x s)
  then show ?case by (cases "split_on c s"; cases "tl (split_on c s)") auto
qed simp

lemma split_on_parts_free: "w \<in> set (split_on c s) \<Longrightarrow> c \<notin> set w"
  by (induction s arbitrary: w) (auto split: list.splits if_splits)

text \<open>\<open>rsplit_once\<close>: the text before and after the last occurrence.\<close>

definition rsplit_once :: "char \<Rightarrow> rstr \<Rightarrow> (rstr \<times> rstr) option" where
  "rsplit_once c s =
     (if c \<in> set s
      then Some (rev (tl (dropWhile (\<lambda>x. x \<noteq> c) (rev s))), rev (takeWhile (\<lambda>x. x \<noteq> c) (rev s)))
      else None)"

lemma rsplit_once_append: "c \<notin> set w \<Longrightarrow> rsplit_once c (s @ c # w) = Some (s, w)"
proof -
  assume "c \<notin> set w"
  then have "\<forall>x \<in> set (rev w). x \<noteq> c" by auto
  then have "takeWhile (\<lambda>x. x \<noteq> c) (rev w @ c # rev s) = rev w"
    and "dropWhile (\<lambda>x. x \<noteq> c) (rev w @ c # rev s) = c # rev s"
    using takeWhile_append2[of "rev w" "\<lambda>x. x \<noteq> c" "c # rev s"]
      dropWhile_append2[of "rev w" "\<lambda>x. x \<noteq> c" "c # rev s"] by auto
  then show ?thesis by (simp add: rsplit_once_def)
qed

lemma rsplit_once_None: "c \<notin> set s \<Longrightarrow> rsplit_once c s = None"
  by (simp add: rsplit_once_def)

definition is_ascii_digit :: "char \<Rightarrow> bool" where
  "is_ascii_digit c \<longleftrightarrow> CHR ''0'' \<le> c \<and> c \<le> CHR ''9''"

definition is_ascii_lower :: "char \<Rightarrow> bool" where
  "is_ascii_lower c \<longleftrightarrow> CHR ''a'' \<le> c \<and> c \<le> CHR ''z''"

definition is_ascii_upper :: "char \<Rightarrow> bool" where
  "is_ascii_upper c \<longleftrightarrow> CHR ''A'' \<le> c \<and> c \<le> CHR ''Z''"

definition is_ascii_alnum :: "char \<Rightarrow> bool" where
  "is_ascii_alnum c \<longleftrightarrow> is_ascii_digit c \<or> is_ascii_lower c \<or> is_ascii_upper c"

definition to_ascii_lower :: "char \<Rightarrow> char" where
  "to_ascii_lower c = (if is_ascii_upper c then char_of (of_char c + 32 :: nat) else c)"

text \<open>\<open>char::is_whitespace\<close> (Unicode \<open>White_Space\<close>) and \<open>char::is_control\<close> (\<open>Cc\<close>), on code points.\<close>

definition is_whitespace :: "nat \<Rightarrow> bool" where
  "is_whitespace p \<longleftrightarrow> 9 \<le> p \<and> p \<le> 13 \<or> p = 32 \<or> p = 133 \<or> p = 160 \<or> p = 5760
     \<or> 8192 \<le> p \<and> p \<le> 8202 \<or> p = 8232 \<or> p = 8233 \<or> p = 8239 \<or> p = 8287 \<or> p = 12288"

definition is_control :: "nat \<Rightarrow> bool" where
  "is_control p \<longleftrightarrow> p < 32 \<or> 127 \<le> p \<and> p < 160"

text \<open>\<open>str::trim\<close>, \<open>to_ascii_lowercase\<close> and \<open>split_once\<close> on one ASCII character.\<close>

definition ws_char :: "rstr \<Rightarrow> bool" where
  "ws_char c = is_whitespace (code_point c)"

definition str_trim :: "rstr \<Rightarrow> rstr" where
  "str_trim s = concat (rev (dropWhile ws_char (rev (dropWhile ws_char (str_chars s)))))"

definition ascii_lowercase :: "rstr \<Rightarrow> rstr" where
  "ascii_lowercase s = map to_ascii_lower s"

definition split_once :: "char \<Rightarrow> rstr \<Rightarrow> (rstr \<times> rstr) option" where
  "split_once c s =
     (if c \<in> set s
      then Some (takeWhile (\<lambda>x. x \<noteq> c) s, tl (dropWhile (\<lambda>x. x \<noteq> c) s)) else None)"

lemma split_once_append: "c \<notin> set w \<Longrightarrow> split_once c (w @ c # s) = Some (w, s)"
  unfolding split_once_def by (induction w) auto

text \<open>Decimal text of a number.\<close>

definition digit_char :: "nat \<Rightarrow> char" where
  "digit_char d = char_of (48 + d)"

fun show_nat :: "nat \<Rightarrow> rstr" where
  "show_nat n = (if n < 10 then [digit_char n] else show_nat (n div 10) @ [digit_char (n mod 10)])"

declare show_nat.simps [simp del]

definition show_int :: "int \<Rightarrow> rstr" where
  "show_int i = (if i < 0 then CHR ''-'' # show_nat (nat (- i)) else show_nat (nat i))"

text \<open>The value of a run of decimal digits (\<open>str::parse\<close> on digits, before its range check).\<close>

definition digit_val :: "char \<Rightarrow> nat" where
  "digit_val c = of_char c - 48"

definition digits_val :: "rstr \<Rightarrow> nat" where
  "digits_val s = foldl (\<lambda>n c. 10 * n + digit_val c) 0 s"

lemma of_char_digit: "d < 10 \<Longrightarrow> (of_char (digit_char d) :: nat) = 48 + d"
  by (simp add: digit_char_def)

lemma digit_char_0: "digit_char 0 = CHR ''0''"
proof -
  have "(of_char (digit_char 0) :: nat) = of_char CHR ''0''" by (simp add: of_char_digit)
  then show ?thesis by (simp only: of_char_eq_iff)
qed

lemma digit_val_char [simp]: "d < 10 \<Longrightarrow> digit_val (digit_char d) = d"
  by (simp add: digit_val_def of_char_digit)

lemma ascii_digit_iff: "is_ascii_digit c \<longleftrightarrow> 48 \<le> (of_char c :: nat) \<and> (of_char c :: nat) \<le> 57"
  by (simp add: is_ascii_digit_def less_eq_char_def)

lemma is_ascii_digit_char [simp]: "d < 10 \<Longrightarrow> is_ascii_digit (digit_char d)"
  by (simp add: ascii_digit_iff of_char_digit)

lemma digit_char_val: "is_ascii_digit c \<Longrightarrow> digit_char (digit_val c) = c"
  by (simp add: digit_char_def digit_val_def ascii_digit_iff)

lemma digit_val_less: "is_ascii_digit c \<Longrightarrow> digit_val c < 10"
  unfolding digit_val_def ascii_digit_iff by linarith

lemma digits_val_snoc: "digits_val (s @ [c]) = 10 * digits_val s + digit_val c"
  by (simp add: digits_val_def)

lemma digits_val_show_nat [simp]: "digits_val (show_nat n) = n"
proof (induction n rule: show_nat.induct)
  case (1 n)
  show ?case
  proof (cases "n < 10")
    case True
    then show ?thesis by (simp add: show_nat.simps[of n] digits_val_def)
  next
    case False
    then show ?thesis using 1 by (simp add: show_nat.simps[of n] digits_val_snoc)
  qed
qed

lemma show_nat_digits: "c \<in> set (show_nat n) \<Longrightarrow> is_ascii_digit c"
proof (induction n rule: show_nat.induct)
  case (1 n)
  then show ?case
    by (cases "n < 10") (auto simp: show_nat.simps[of n])
qed

lemma show_nat_not_Nil [simp]: "show_nat n \<noteq> []"
  by (simp add: show_nat.simps[of n])

lemma show_nat_inj: "show_nat m = show_nat n \<Longrightarrow> m = n"
  by (metis digits_val_show_nat)

lemma show_nat_hd: "0 < n \<Longrightarrow> hd (show_nat n) \<noteq> CHR ''0''"
proof (induction n rule: show_nat.induct)
  case (1 n)
  show ?case
  proof (cases "n < 10")
    case True
    have "digit_char n = CHR ''0'' \<Longrightarrow> n = digit_val CHR ''0''"
      using digit_val_char[OF True] by simp
    then show ?thesis using True 1(2) by (auto simp: show_nat.simps[of n] digit_val_def)
  next
    case False
    then show ?thesis using 1 by (simp add: show_nat.simps[of n] hd_append)
  qed
qed

lemma digits_val_pos:
  "s \<noteq> [] \<Longrightarrow> hd s \<noteq> CHR ''0'' \<Longrightarrow> \<forall>c \<in> set s. is_ascii_digit c \<Longrightarrow> 0 < digits_val s"
proof (induction s rule: rev_induct)
  case (snoc c s)
  show ?case
  proof (cases "s = []")
    case True
    have "digit_val c = 0 \<Longrightarrow> c = digit_char 0"
      using snoc.prems(3) digit_char_val[of c] by simp
    then show ?thesis using snoc.prems True by (auto simp: digits_val_def digit_char_0)
  next
    case False
    then show ?thesis using snoc by (simp add: digits_val_snoc)
  qed
qed simp

lemma show_digits_val:
  "s \<noteq> [] \<Longrightarrow> hd s \<noteq> CHR ''0'' \<Longrightarrow> \<forall>c \<in> set s. is_ascii_digit c \<Longrightarrow> show_nat (digits_val s) = s"
proof (induction s rule: rev_induct)
  case (snoc c s)
  have c: "digit_val c < 10" "digit_char (digit_val c) = c"
    using snoc.prems by (simp_all add: digit_val_less digit_char_val)
  show ?case
  proof (cases "s = []")
    case True
    then show ?thesis using c by (simp add: digits_val_def show_nat.simps)
  next
    case False
    then have "0 < digits_val s" using snoc.prems by (intro digits_val_pos) auto
    moreover have "show_nat (digits_val s) = s" using snoc False by simp
    ultimately show ?thesis
      using c by (simp add: digits_val_snoc show_nat.simps[of "10 * digits_val s + digit_val c"])
  qed
qed simp

lemma length_show_nat: "0 < k \<Longrightarrow> n < 10 ^ k \<Longrightarrow> length (show_nat n) \<le> k"
proof (induction n arbitrary: k rule: show_nat.induct)
  case (1 n)
  show ?case
  proof (cases "n < 10")
    case True
    then show ?thesis using 1(2) by (simp add: show_nat.simps[of n])
  next
    case False
    then obtain j where k: "k = Suc j" "0 < j" using 1(2,3) by (cases k; cases "k - 1") auto
    have "n div 10 < 10 ^ j" using 1(3) k by (simp add: less_mult_imp_div_less mult.commute)
    then show ?thesis using 1(1)[OF False k(2)] False k by (simp add: show_nat.simps[of n])
  qed
qed

text \<open>\<open>str::parse\<close> into an unsigned integer of a given maximum: an optional plus sign, digits, in range.\<close>

definition parse_uint :: "nat \<Rightarrow> rstr \<Rightarrow> nat option" where
  "parse_uint hi s =
     (let ds = (if starts_with ''+'' s then drop 1 s else s)
      in if ds \<noteq> [] \<and> list_all is_ascii_digit ds \<and> digits_val ds \<le> hi then Some (digits_val ds) else None)"

lemma parse_uint_le: "parse_uint hi s = Some n \<Longrightarrow> n \<le> hi"
  by (auto simp: parse_uint_def Let_def split: if_splits)

lemma parse_uint_show: "n \<le> hi \<Longrightarrow> parse_uint hi (show_nat n) = Some n"
proof -
  assume n: "n \<le> hi"
  obtain d ds where s: "show_nat n = d # ds" using show_nat_not_Nil by (metis neq_Nil_conv)
  have "is_ascii_digit d" by (rule show_nat_digits[of d n]) (simp add: s)
  then have "d \<noteq> CHR ''+''" by (auto simp: is_ascii_digit_def)
  then have "\<not> starts_with ''+'' (show_nat n)" by (simp add: s starts_with_def)
  then show ?thesis
    using n show_nat_digits[of _ n] by (simp add: parse_uint_def Let_def list_all_iff)
qed

section \<open>Machine integers\<close>

text \<open>Unsigned counters are naturals; saturation is written out where the code saturates.\<close>

definition u64_max :: nat where
  "u64_max = 2 ^ 64 - 1"

definition sat_add64 :: "nat \<Rightarrow> nat \<Rightarrow> nat" where
  "sat_add64 a b = min u64_max (a + b)"

definition i64_max :: int where
  "i64_max = 2 ^ 63 - 1"

definition sat_mul64 :: "nat \<Rightarrow> nat \<Rightarrow> nat" where
  "sat_mul64 a b = min u64_max (a * b)"

lemma sat_add64_le: "sat_add64 a b \<le> u64_max"
  by (simp add: sat_add64_def)

lemma sat_add64_ge: "a \<le> u64_max \<Longrightarrow> a \<le> sat_add64 a b"
  by (simp add: sat_add64_def)

end
