(* ===== verification/Task_Rules.thy ===== *)
theory Task_Rules
  imports Prelude
begin

text \<open>
  The pure rules of the campaign task tree, \<open>crates/agent-core/src/campaign/rules.rs\<close>:
  the vocabularies with their storage text, the transition table \<open>allowed\<close>, the parent
  \<open>rollup\<close> rule and the lease clamp. The lemmas show that the storage text round-trips,
  that \<open>allowed\<close> is the table of the design document tuple for tuple, that rollup reaches a
  fixed point in one step and only ever asks for a move the table grants, and that the
  clamp lands in its window.
\<close>

section \<open>Vocabularies\<close>

datatype task_state =
    S_Draft | S_AwaitingApproval | S_Ready | S_Decomposing | S_Decomposed | S_Claimed
  | S_Running | S_InReview | S_Blocked | S_Done | S_Failed | S_Cancelled | S_Superseded

definition all_states :: "task_state list" where
  "all_states = [S_Draft, S_AwaitingApproval, S_Ready, S_Decomposing, S_Decomposed, S_Claimed,
     S_Running, S_InReview, S_Blocked, S_Done, S_Failed, S_Cancelled, S_Superseded]"

fun state_str :: "task_state \<Rightarrow> rstr" where
  "state_str S_Draft = ''draft''"
| "state_str S_AwaitingApproval = ''awaiting_approval''"
| "state_str S_Ready = ''ready''"
| "state_str S_Decomposing = ''decomposing''"
| "state_str S_Decomposed = ''decomposed''"
| "state_str S_Claimed = ''claimed''"
| "state_str S_Running = ''running''"
| "state_str S_InReview = ''in_review''"
| "state_str S_Blocked = ''blocked''"
| "state_str S_Done = ''done''"
| "state_str S_Failed = ''failed''"
| "state_str S_Cancelled = ''cancelled''"
| "state_str S_Superseded = ''superseded''"

definition state_parse :: "rstr \<Rightarrow> task_state option" where
  "state_parse s = List.find (\<lambda>v. state_str v = s) all_states"

definition is_terminal :: "task_state \<Rightarrow> bool" where
  "is_terminal s = (case s of S_Done \<Rightarrow> True | S_Cancelled \<Rightarrow> True | S_Superseded \<Rightarrow> True | _ \<Rightarrow> False)"

definition is_leased :: "task_state \<Rightarrow> bool" where
  "is_leased s = (case s of S_Claimed \<Rightarrow> True | S_Running \<Rightarrow> True | _ \<Rightarrow> False)"

datatype task_kind = K_Objective | K_Task | K_Leaf

definition all_kinds :: "task_kind list" where
  "all_kinds = [K_Objective, K_Task, K_Leaf]"

fun kind_str :: "task_kind \<Rightarrow> rstr" where
  "kind_str K_Objective = ''objective''"
| "kind_str K_Task = ''task''"
| "kind_str K_Leaf = ''leaf''"

definition kind_parse :: "rstr \<Rightarrow> task_kind option" where
  "kind_parse s = List.find (\<lambda>v. kind_str v = s) all_kinds"

datatype actor_class =
  A_User | A_Model | A_Planner | A_Driver | A_Worker | A_Reaper | A_Poller | A_Rollup

definition all_actors :: "actor_class list" where
  "all_actors = [A_User, A_Model, A_Planner, A_Driver, A_Worker, A_Reaper, A_Poller, A_Rollup]"

fun actor_str :: "actor_class \<Rightarrow> rstr" where
  "actor_str A_User = ''user''"
| "actor_str A_Model = ''model''"
| "actor_str A_Planner = ''planner''"
| "actor_str A_Driver = ''driver''"
| "actor_str A_Worker = ''worker''"
| "actor_str A_Reaper = ''reaper''"
| "actor_str A_Poller = ''poller''"
| "actor_str A_Rollup = ''rollup''"

datatype est_size = Z_Xs | Z_S | Z_M | Z_L

definition all_sizes :: "est_size list" where
  "all_sizes = [Z_Xs, Z_S, Z_M, Z_L]"

fun size_str :: "est_size \<Rightarrow> rstr" where
  "size_str Z_Xs = ''xs''"
| "size_str Z_S = ''s''"
| "size_str Z_M = ''m''"
| "size_str Z_L = ''l''"

definition size_parse :: "rstr \<Rightarrow> est_size option" where
  "size_parse s = List.find (\<lambda>v. size_str v = s) all_sizes"

definition is_leaf_size :: "est_size \<Rightarrow> bool" where
  "is_leaf_size z = (case z of Z_Xs \<Rightarrow> True | Z_S \<Rightarrow> True | _ \<Rightarrow> False)"

datatype attempt_kind = T_Decompose | T_Work

definition all_attempt_kinds :: "attempt_kind list" where
  "all_attempt_kinds = [T_Decompose, T_Work]"

fun attempt_kind_str :: "attempt_kind \<Rightarrow> rstr" where
  "attempt_kind_str T_Decompose = ''decompose''"
| "attempt_kind_str T_Work = ''work''"

definition attempt_kind_parse :: "rstr \<Rightarrow> attempt_kind option" where
  "attempt_kind_parse s = List.find (\<lambda>v. attempt_kind_str v = s) all_attempt_kinds"

datatype attempt_outcome =
    O_Pending | O_Execute | O_Split | O_NeedsInfo | O_Reject | O_Pr | O_Error | O_Timeout
  | O_LeaseLost

definition all_outcomes :: "attempt_outcome list" where
  "all_outcomes = [O_Pending, O_Execute, O_Split, O_NeedsInfo, O_Reject, O_Pr, O_Error,
     O_Timeout, O_LeaseLost]"

fun outcome_str :: "attempt_outcome \<Rightarrow> rstr" where
  "outcome_str O_Pending = ''pending''"
| "outcome_str O_Execute = ''execute''"
| "outcome_str O_Split = ''split''"
| "outcome_str O_NeedsInfo = ''needs_info''"
| "outcome_str O_Reject = ''reject''"
| "outcome_str O_Pr = ''pr''"
| "outcome_str O_Error = ''error''"
| "outcome_str O_Timeout = ''timeout''"
| "outcome_str O_LeaseLost = ''lease_lost''"

definition outcome_parse :: "rstr \<Rightarrow> attempt_outcome option" where
  "outcome_parse s = List.find (\<lambda>v. outcome_str v = s) all_outcomes"

datatype block_reason =
  B_AttemptsExhausted | B_TokenCap | B_Injection | B_DependencyFailed | B_Reject

definition all_block_reasons :: "block_reason list" where
  "all_block_reasons =
     [B_AttemptsExhausted, B_TokenCap, B_Injection, B_DependencyFailed, B_Reject]"

fun block_reason_str :: "block_reason \<Rightarrow> rstr" where
  "block_reason_str B_AttemptsExhausted = ''attempts_exhausted''"
| "block_reason_str B_TokenCap = ''token_cap''"
| "block_reason_str B_Injection = ''injection''"
| "block_reason_str B_DependencyFailed = ''dependency_failed''"
| "block_reason_str B_Reject = ''reject''"

definition block_reason_parse :: "rstr \<Rightarrow> block_reason option" where
  "block_reason_parse s = List.find (\<lambda>v. block_reason_str v = s) all_block_reasons"

text \<open>
  One contract for the six storage vocabularies: \<open>parse\<close> searches a list that names every
  value, and no two values share their text.
\<close>

locale storage_text =
  fixes show_v :: "'v \<Rightarrow> rstr" and all_values :: "'v list"
  assumes every_value: "v \<in> set all_values"
    and text_inj: "show_v v = show_v w \<Longrightarrow> v = w"
begin

lemma parse_iff: "List.find (\<lambda>v. show_v v = s) all_values = Some v \<longleftrightarrow> show_v v = s"
proof
  assume "List.find (\<lambda>v. show_v v = s) all_values = Some v"
  then show "show_v v = s" by (auto simp: find_Some_iff)
next
  assume "show_v v = s"
  moreover have "List.find (\<lambda>v. show_v v = s) all_values \<noteq> None"
    using every_value[of v] \<open>show_v v = s\<close> by (auto simp: find_None_iff)
  ultimately show "List.find (\<lambda>v. show_v v = s) all_values = Some v"
    by (auto simp: find_Some_iff dest: text_inj)
qed

lemma parse_text: "List.find (\<lambda>w. show_v w = show_v v) all_values = Some v"
  by (simp add: parse_iff)

end

lemma in_all_states: "v \<in> set all_states"
  by (cases v) (simp_all add: all_states_def)

lemma state_str_inj: "state_str v = state_str w \<Longrightarrow> v = w"
  by (cases v; cases w) simp_all

interpretation st: storage_text state_str all_states
  by unfold_locales (rule in_all_states, erule state_str_inj)

interpretation kt: storage_text kind_str all_kinds
proof
  show "v \<in> set all_kinds" for v by (cases v) (simp_all add: all_kinds_def)
  show "kind_str v = kind_str w \<Longrightarrow> v = w" for v w by (cases v; cases w) simp_all
qed

interpretation zt: storage_text size_str all_sizes
proof
  show "v \<in> set all_sizes" for v by (cases v) (simp_all add: all_sizes_def)
  show "size_str v = size_str w \<Longrightarrow> v = w" for v w by (cases v; cases w) simp_all
qed

interpretation akt: storage_text attempt_kind_str all_attempt_kinds
proof
  show "v \<in> set all_attempt_kinds" for v by (cases v) (simp_all add: all_attempt_kinds_def)
  show "attempt_kind_str v = attempt_kind_str w \<Longrightarrow> v = w" for v w
    by (cases v; cases w) simp_all
qed

interpretation ot: storage_text outcome_str all_outcomes
proof
  show "v \<in> set all_outcomes" for v by (cases v) (simp_all add: all_outcomes_def)
  show "outcome_str v = outcome_str w \<Longrightarrow> v = w" for v w by (cases v; cases w) simp_all
qed

interpretation brt: storage_text block_reason_str all_block_reasons
proof
  show "v \<in> set all_block_reasons" for v by (cases v) (simp_all add: all_block_reasons_def)
  show "block_reason_str v = block_reason_str w \<Longrightarrow> v = w" for v w
    by (cases v; cases w) simp_all
qed

lemmas parse_iffs =
  st.parse_iff [folded state_parse_def] kt.parse_iff [folded kind_parse_def]
  zt.parse_iff [folded size_parse_def] akt.parse_iff [folded attempt_kind_parse_def]
  ot.parse_iff [folded outcome_parse_def] brt.parse_iff [folded block_reason_parse_def]

section \<open>The transition table\<close>

definition allowed :: "task_state \<Rightarrow> task_state \<Rightarrow> task_kind \<Rightarrow> actor_class \<Rightarrow> bool" where
  "allowed from to kind actor =
     (if from = to then False
      else
        (let leaf = (kind = K_Leaf);
             non_leaf = (\<not> leaf);
             user = (actor = A_User)
         in if to = S_Superseded then \<not> is_terminal from \<and> kind \<noteq> K_Objective \<and> user
            else (case from of
              S_Draft \<Rightarrow> to \<in> {S_Ready, S_Cancelled} \<and> kind = K_Objective \<and> user
            | S_AwaitingApproval \<Rightarrow> to \<in> {S_Ready, S_Cancelled} \<and> user
            | S_Ready \<Rightarrow>
                (case to of
                  S_Decomposing \<Rightarrow> non_leaf \<and> actor = A_Planner
                | S_Claimed \<Rightarrow> leaf \<and> actor = A_Driver
                | S_Blocked \<Rightarrow>
                    (case kind of
                      K_Objective \<Rightarrow> actor = A_Planner
                    | K_Task \<Rightarrow> actor \<in> {A_Planner, A_Rollup}
                    | K_Leaf \<Rightarrow> actor \<in> {A_Planner, A_Rollup})
                | S_Cancelled \<Rightarrow> user
                | _ \<Rightarrow> False)
            | S_Decomposing \<Rightarrow>
                (case to of
                  S_Ready \<Rightarrow> non_leaf \<and> actor \<in> {A_Planner, A_Reaper}
                | S_Decomposed \<Rightarrow> non_leaf \<and> actor = A_Planner
                | S_AwaitingApproval \<Rightarrow> non_leaf \<and> actor = A_Planner
                | S_Blocked \<Rightarrow> non_leaf \<and> actor = A_Planner
                | S_Cancelled \<Rightarrow> user
                | _ \<Rightarrow> False)
            | S_Decomposed \<Rightarrow>
                (case to of
                  S_Done \<Rightarrow> non_leaf \<and> actor = A_Rollup
                | S_Blocked \<Rightarrow> non_leaf \<and> actor = A_Rollup
                | S_Decomposing \<Rightarrow> non_leaf \<and> user
                | S_Cancelled \<Rightarrow> user
                | _ \<Rightarrow> False)
            | S_Claimed \<Rightarrow>
                (case to of
                  S_Running \<Rightarrow> leaf \<and> actor = A_Worker
                | S_Ready \<Rightarrow> leaf \<and> actor = A_Reaper
                | S_Cancelled \<Rightarrow> leaf \<and> user
                | _ \<Rightarrow> False)
            | S_Running \<Rightarrow>
                (case to of
                  S_InReview \<Rightarrow> leaf \<and> actor = A_Worker
                | S_Failed \<Rightarrow> leaf \<and> actor = A_Worker
                | S_Ready \<Rightarrow> leaf \<and> actor = A_Reaper
                | S_Cancelled \<Rightarrow> leaf \<and> user
                | _ \<Rightarrow> False)
            | S_InReview \<Rightarrow>
                (case to of
                  S_Done \<Rightarrow> leaf \<and> actor = A_Poller
                | S_Failed \<Rightarrow> leaf \<and> actor = A_Poller
                | S_Cancelled \<Rightarrow> leaf \<and> user
                | _ \<Rightarrow> False)
            | S_Blocked \<Rightarrow>
                (case to of
                  S_Ready \<Rightarrow> kind \<noteq> K_Objective \<and> user
                | S_Decomposing \<Rightarrow> non_leaf \<and> user
                | S_Cancelled \<Rightarrow> user
                | S_Decomposed \<Rightarrow> non_leaf \<and> actor = A_Rollup
                | S_Done \<Rightarrow> non_leaf \<and> actor = A_Rollup
                | _ \<Rightarrow> False)
            | S_Failed \<Rightarrow> to \<in> {S_Ready, S_Cancelled} \<and> leaf \<and> user
            | _ \<Rightarrow> False)))"

text \<open>The rows of ``Allowed transitions'' in \<open>docs/design/campaigns/02-transactions.md\<close>, in
  the document's order.\<close>

type_synonym table_row = "task_state list \<times> task_state list \<times> task_kind list \<times> actor_class list"

definition documented_rows :: "table_row list" where
  "documented_rows =
    (let any = [K_Objective, K_Task, K_Leaf]; inner = [K_Objective, K_Task]; leaf = [K_Leaf] in
     [([S_Draft], [S_Ready], [K_Objective], [A_User]),
      ([S_Draft], [S_Cancelled], [K_Objective], [A_User]),
      ([S_AwaitingApproval], [S_Ready], any, [A_User]),
      ([S_AwaitingApproval], [S_Cancelled], any, [A_User]),
      ([S_Ready], [S_Decomposing], inner, [A_Planner]),
      ([S_Ready], [S_Claimed], leaf, [A_Driver]),
      ([S_Ready], [S_Blocked], [K_Task, K_Leaf], [A_Planner, A_Rollup]),
      ([S_Ready], [S_Blocked], [K_Objective], [A_Planner]),
      ([S_Ready], [S_Cancelled], any, [A_User]),
      ([S_Decomposing], [S_Decomposed], inner, [A_Planner]),
      ([S_Decomposing], [S_Ready], inner, [A_Planner]),
      ([S_Decomposing], [S_Ready], inner, [A_Reaper]),
      ([S_Decomposing], [S_AwaitingApproval], inner, [A_Planner]),
      ([S_Decomposing], [S_Blocked], inner, [A_Planner]),
      ([S_Decomposing], [S_Cancelled], any, [A_User]),
      ([S_Decomposing], [S_Ready], [K_Task], [A_Planner]),
      ([S_Decomposing], [S_AwaitingApproval], [K_Task], [A_Planner]),
      ([S_Decomposed], [S_Done, S_Blocked], inner, [A_Rollup]),
      ([S_Decomposed], [S_Decomposing], inner, [A_User]),
      ([S_Decomposed], [S_Cancelled], any, [A_User]),
      ([S_Claimed], [S_Running], leaf, [A_Worker]),
      ([S_Claimed], [S_Ready], leaf, [A_Reaper]),
      ([S_Claimed], [S_Cancelled], leaf, [A_User]),
      ([S_Running], [S_InReview], leaf, [A_Worker]),
      ([S_Running], [S_Failed], leaf, [A_Worker]),
      ([S_Running], [S_Ready], leaf, [A_Reaper]),
      ([S_Running], [S_Cancelled], leaf, [A_User]),
      ([S_InReview], [S_Done], leaf, [A_Poller]),
      ([S_InReview], [S_Failed], leaf, [A_Poller]),
      ([S_InReview], [S_Cancelled], leaf, [A_User]),
      ([S_Blocked], [S_Ready], [K_Task, K_Leaf], [A_User]),
      ([S_Blocked], [S_Decomposing], inner, [A_User]),
      ([S_Blocked], [S_Cancelled], any, [A_User]),
      ([S_Blocked], [S_Decomposed], inner, [A_Rollup]),
      ([S_Blocked], [S_Done], inner, [A_Rollup]),
      ([S_Failed], [S_Ready], leaf, [A_User]),
      ([S_Failed], [S_Cancelled], leaf, [A_User]),
      (filter (\<lambda>s. \<not> is_terminal s) all_states, [S_Superseded], [K_Task, K_Leaf], [A_User])])"

definition documented_table :: "(task_state \<times> task_state \<times> task_kind \<times> actor_class) list" where
  "documented_table = remdups (concat (map (\<lambda>(froms, tos, kinds, actors).
     concat (map (\<lambda>f. concat (map (\<lambda>t. concat (map (\<lambda>k. map (\<lambda>a. (f, t, k, a)) actors) kinds)) tos)) froms))
     documented_rows))"

definition documented :: "task_state \<Rightarrow> task_state \<Rightarrow> task_kind \<Rightarrow> actor_class \<Rightarrow> bool" where
  "documented f t k a = (\<exists>(froms, tos, kinds, actors) \<in> set documented_rows.
     f \<in> set froms \<and> t \<in> set tos \<and> k \<in> set kinds \<and> a \<in> set actors)"

lemma documented_table_iff: "(f, t, k, a) \<in> set documented_table \<longleftrightarrow> documented f t k a"
  by (fastforce simp: documented_table_def documented_def)

lemma documented_eval:
  "documented f t k a = list_ex (\<lambda>(froms, tos, kinds, actors).
     f \<in> set froms \<and> t \<in> set tos \<and> k \<in> set kinds \<and> a \<in> set actors) documented_rows"
  by (simp add: documented_def list_ex_iff)

lemma nonterminal_states:
  "filter (\<lambda>s. \<not> is_terminal s) all_states =
    [S_Draft, S_AwaitingApproval, S_Ready, S_Decomposing, S_Decomposed, S_Claimed,
     S_Running, S_InReview, S_Blocked, S_Failed]"
  by (simp add: all_states_def is_terminal_def)

lemma allowed_documented: "allowed f t k a = documented f t k a"
  unfolding documented_eval documented_rows_def nonterminal_states Let_def
  by (cases f; cases t; simp add: allowed_def is_terminal_def; cases k; cases a; simp)


lemma documented_count: "length documented_table = 84"
  unfolding documented_table_def documented_rows_def nonterminal_states Let_def by simp

lemma allowed_no_loop: "\<not> allowed s s k a"
  by (simp add: allowed_def)

lemma allowed_not_terminal: "allowed f t k a \<Longrightarrow> \<not> is_terminal f"
  by (cases f) (auto simp: allowed_def is_terminal_def Let_def split: if_splits)

lemma allowed_not_model: "\<not> allowed f t k A_Model"
  by (cases f; cases t; cases k; simp add: allowed_def is_terminal_def)

lemma planner_non_leaf: "allowed f t k A_Planner \<Longrightarrow> t \<noteq> S_Blocked \<Longrightarrow> k \<noteq> K_Leaf"
  by (cases f; cases t; simp add: allowed_def; cases k; simp add: is_terminal_def)

lemmas allowed_cases = allowed_def is_terminal_def Let_def

section \<open>Parent rollup\<close>

definition is_live :: "task_state \<Rightarrow> bool" where
  "is_live s = (s \<notin> {S_Superseded, S_Cancelled})"

definition rollup :: "task_state \<Rightarrow> task_state list \<Rightarrow> task_state option" where
  "rollup parent children =
     (if parent \<notin> {S_Decomposed, S_Blocked} then None
      else
        (let live = filter is_live children;
             any_cancelled = (S_Cancelled \<in> set children);
             all_done = (live \<noteq> [] \<and> list_all (\<lambda>s. s = S_Done) live);
             any_stuck = list_ex (\<lambda>s. s \<in> {S_Failed, S_Blocked}) live;
             next = (if live = [] then (if any_cancelled then Some S_Blocked else None)
                     else if all_done then Some S_Done
                     else if any_stuck then Some S_Blocked
                     else Some S_Decomposed)
         in case next of None \<Rightarrow> None | Some n \<Rightarrow> if n \<noteq> parent then Some n else None))"

lemma rollup_Some_iff:
  "rollup p cs = Some n \<longleftrightarrow>
    p \<in> {S_Decomposed, S_Blocked} \<and> n \<noteq> p \<and>
    (n = S_Done \<and> (\<exists>c \<in> set cs. is_live c) \<and> (\<forall>c \<in> set cs. is_live c \<longrightarrow> c = S_Done)
     \<or> n = S_Blocked \<and> ((\<exists>c \<in> set cs. c = S_Failed \<or> c = S_Blocked)
          \<or> (\<forall>c \<in> set cs. \<not> is_live c) \<and> S_Cancelled \<in> set cs)
     \<or> n = S_Decomposed \<and> (\<exists>c \<in> set cs. is_live c \<and> c \<noteq> S_Done)
          \<and> \<not> (\<exists>c \<in> set cs. c = S_Failed \<or> c = S_Blocked))"
proof -
  have none: "filter is_live cs = [] \<longleftrightarrow> (\<forall>c \<in> set cs. \<not> is_live c)"
    by (simp add: filter_empty_conv)
  have done_all: "list_all (\<lambda>s. s = S_Done) (filter is_live cs) \<longleftrightarrow>
      (\<forall>c \<in> set cs. is_live c \<longrightarrow> c = S_Done)"
    by (auto simp: list_all_iff)
  have stuck: "list_ex (\<lambda>s. s \<in> {S_Failed, S_Blocked}) (filter is_live cs) \<longleftrightarrow>
      (\<exists>c \<in> set cs. c = S_Failed \<or> c = S_Blocked)"
    by (auto simp: list_ex_iff is_live_def)
  have live: "is_live S_Failed" "is_live S_Blocked" by (simp_all add: is_live_def)
  show ?thesis
    unfolding rollup_def Let_def none done_all stuck
    using live by (cases n; simp split: option.split; metis task_state.distinct)
qed

lemma rollup_parent: "rollup p cs = Some n \<Longrightarrow> p = S_Decomposed \<or> p = S_Blocked"
  by (simp add: rollup_Some_iff)

lemma rollup_result: "rollup p cs = Some n \<Longrightarrow> n \<in> {S_Done, S_Blocked, S_Decomposed} \<and> n \<noteq> p"
  by (auto simp: rollup_Some_iff)

lemma rollup_move_allowed:
  assumes "rollup p cs = Some n" and "k \<noteq> K_Leaf"
  shows "allowed p n k A_Rollup"
  using rollup_parent [OF assms(1)] rollup_result [OF assms(1)] assms(2)
  by (auto simp: allowed_cases)

section \<open>Lease clamp\<close>

definition lease_min_secs :: nat where "lease_min_secs = 60"
definition lease_max_secs :: nat where "lease_max_secs = 86400"
definition decomposing_max_secs :: int where "decomposing_max_secs = 900"

definition clamp_lease :: "int \<Rightarrow> nat" where
  "clamp_lease secs =
     (let c = min (max secs (int lease_min_secs)) (int lease_max_secs)
      in if 0 \<le> c \<and> c < 2 ^ 32 then nat c else lease_min_secs)"

lemma clamp_lease_bounds: "lease_min_secs \<le> clamp_lease s \<and> clamp_lease s \<le> lease_max_secs"
  by (auto simp: clamp_lease_def lease_min_secs_def lease_max_secs_def Let_def)

lemma clamp_lease_fixes:
  "int lease_min_secs \<le> s \<Longrightarrow> s \<le> int lease_max_secs \<Longrightarrow> int (clamp_lease s) = s"
  by (auto simp: clamp_lease_def lease_min_secs_def lease_max_secs_def Let_def)

lemma clamp_lease_mono: "s \<le> t \<Longrightarrow> clamp_lease s \<le> clamp_lease t"
  unfolding clamp_lease_def lease_min_secs_def lease_max_secs_def Let_def by simp linarith

section \<open>Runs of the table\<close>

text \<open>
  A run of one node under the table, as the actors see it: the sequence of states it was
  moved to, each with the class of the actor that moved it. A leaf starts where
  \<open>mark_leaf\<close> puts it, in \<open>ready\<close> or \<open>awaiting_approval\<close>.
\<close>

inductive leaf_run :: "(task_state \<times> actor_class) list \<Rightarrow> task_state \<Rightarrow> bool" where
  leaf_ready: "leaf_run [] S_Ready"
| leaf_gated: "leaf_run [] S_AwaitingApproval"
| leaf_move: "leaf_run h s \<Longrightarrow> allowed s t K_Leaf a \<Longrightarrow> leaf_run (h @ [(t, a)]) t"

inductive_cases leaf_run_DoneE: "leaf_run h S_Done"
inductive_cases leaf_run_InReviewE: "leaf_run h S_InReview"
inductive_cases leaf_run_RunningE: "leaf_run h S_Running"
inductive_cases leaf_run_ClaimedE: "leaf_run h S_Claimed"

lemma into_done_leaf: "allowed s S_Done K_Leaf a \<Longrightarrow> s = S_InReview \<and> a = A_Poller"
  by (cases s) (auto simp: allowed_cases)

lemma into_in_review: "allowed s S_InReview k a \<Longrightarrow> s = S_Running \<and> a = A_Worker"
  by (cases s) (auto simp: allowed_cases)

lemma into_running: "allowed s S_Running k a \<Longrightarrow> s = S_Claimed \<and> a = A_Worker"
  by (cases s) (auto simp: allowed_cases)

lemma into_claimed: "allowed s S_Claimed k a \<Longrightarrow> s = S_Ready \<and> a = A_Driver"
  by (cases s) (auto simp: allowed_cases)

lemma leaf_run_claimed:
  "leaf_run h S_Claimed \<Longrightarrow> \<exists>h'. h = h' @ [(S_Claimed, A_Driver)]"
  by (erule leaf_run_ClaimedE) (auto dest: into_claimed)

lemma leaf_run_running:
  "leaf_run h S_Running \<Longrightarrow> \<exists>h'. h = h' @ [(S_Claimed, A_Driver), (S_Running, A_Worker)]"
  by (erule leaf_run_RunningE) (use into_running leaf_run_claimed in fastforce)

lemma leaf_run_in_review:
  "leaf_run h S_InReview \<Longrightarrow>
    \<exists>h'. h = h' @ [(S_Claimed, A_Driver), (S_Running, A_Worker), (S_InReview, A_Worker)]"
  by (erule leaf_run_InReviewE) (use into_in_review leaf_run_running in fastforce)

text \<open>
  Property C32: the transition table of the code is the documented one, tuple for tuple, and
  that table has the 84 tuples the document counts.
\<close>

theorem allowed_is_documented:
  "{(f, t, k, a). allowed f t k a} = set documented_table \<and> length documented_table = 84"
  using documented_table_iff allowed_documented documented_count by auto

text \<open>
  Property C31: a leaf only ends \<open>done\<close> after a driver claimed it, a worker ran it, that
  worker sent it to review and the poller saw it merged, as its last four moves in that order.
\<close>

theorem leaf_done_only_after_review:
  assumes "leaf_run h S_Done"
  shows "\<exists>h'. h = h' @ [(S_Claimed, A_Driver), (S_Running, A_Worker), (S_InReview, A_Worker),
    (S_Done, A_Poller)]"
  using assms
  by (rule leaf_run_DoneE) (use into_done_leaf leaf_run_in_review in fastforce)+

theorem leaf_done_only_after_review_witness:
  "\<exists>h'. [(S_Ready, A_User), (S_Claimed, A_Driver), (S_Running, A_Worker), (S_InReview, A_Worker),
      (S_Done, A_Poller)]
    = h' @ [(S_Claimed, A_Driver), (S_Running, A_Worker), (S_InReview, A_Worker), (S_Done, A_Poller)]"
proof (rule leaf_done_only_after_review)
  have step: "allowed s t K_Leaf a \<Longrightarrow> leaf_run h s \<Longrightarrow> leaf_run (h @ [(t, a)]) t" for h s t a
    by (rule leaf_move)
  show "leaf_run [(S_Ready, A_User), (S_Claimed, A_Driver), (S_Running, A_Worker), (S_InReview, A_Worker),
      (S_Done, A_Poller)] S_Done"
    using step[OF _ step[OF _ step[OF _ step[OF _ step[OF _ leaf_gated, of S_Ready A_User],
        of S_Claimed A_Driver], of S_Running A_Worker], of S_InReview A_Worker], of S_Done A_Poller]
    by (simp add: allowed_cases)
qed

end
