(* ===== verification/Task_Path.thy ===== *)
theory Task_Path
  imports Prelude
begin

text \<open>
  The materialized path grammar, \<open>crates/agent-core/src/campaign/path.rs\<close>: a path is the
  campaign's id followed by at most six ordinals. The abstract view of a path is the pair of
  its root id and its list of ordinals; \<open>path_text\<close> renders it. The lemmas show that the
  parser accepts exactly the rendered pairs and reads them back, and that every operation on
  the text is the obvious operation on the pair (parent = butlast, child = append, ancestor =
  strict prefix).
\<close>

datatype path_error = PE_Empty | PE_TooLong | PE_Syntax | PE_Root | PE_Ordinal | PE_Depth

fun path_error_str :: "path_error \<Rightarrow> rstr" where
  "path_error_str PE_Empty = ''path is empty''"
| "path_error_str PE_TooLong = ''path is longer than the grammar allows''"
| "path_error_str PE_Syntax = ''path is not `root(.ordinal)*` in ASCII digits''"
| "path_error_str PE_Root = ''path root is not a positive 64-bit id in canonical form''"
| "path_error_str PE_Ordinal = ''path ordinal is not in 1..=8''"
| "path_error_str PE_Depth = ''path is deeper than 6''"

record task_path =
  raw :: rstr

definition max_depth :: nat where "max_depth = 6"
definition max_ordinal :: nat where "max_ordinal = 8"
definition max_path_len :: nat where "max_path_len = 19 + 2 * max_depth"

definition check_root :: "rstr \<Rightarrow> path_error + int" where
  "check_root root =
     (if root = [] \<or> \<not> list_all is_ascii_digit root then Inl PE_Syntax
      else if starts_with ''0'' root then Inl PE_Root
      else if int (digits_val root) \<le> i64_max then Inr (int (digits_val root)) else Inl PE_Root)"

definition check_ordinal :: "rstr \<Rightarrow> path_error + nat" where
  "check_ordinal seg =
     (if seg = [] \<or> \<not> list_all is_ascii_digit seg then Inl PE_Syntax
      else (case seg of
          [b] \<Rightarrow> if CHR ''1'' \<le> b \<and> b \<le> CHR ''8'' then Inr (of_char b - of_char CHR ''0'')
                 else Inl PE_Ordinal
        | _ \<Rightarrow> Inl PE_Ordinal))"

definition parse_path :: "rstr \<Rightarrow> path_error + task_path" where
  "parse_path s =
     (if s = [] then Inl PE_Empty
      else if length s > max_path_len then Inl PE_TooLong
      else (case split_on CHR ''.'' s of
          [] \<Rightarrow> Inl PE_Syntax
        | root # rest \<Rightarrow>
            bindR (check_root root) (\<lambda>_.
            if length rest > max_depth then Inl PE_Depth
            else bindR (forR (\<lambda>seg. bindR (check_ordinal seg) (\<lambda>_. Inr ())) rest) (\<lambda>_.
            Inr \<lparr>raw = s\<rparr>))))"

definition root_path :: "int \<Rightarrow> path_error + task_path" where
  "root_path i = (if i \<le> 0 then Inl PE_Root else Inr \<lparr>raw = show_int i\<rparr>)"

text \<open>\<open>str::parse::<i64>().unwrap_or_default()\<close> on the root segment.\<close>

definition root_id :: "task_path \<Rightarrow> int" where
  "root_id p = (let root = hd (split_on CHR ''.'' (raw p))
     in if root \<noteq> [] \<and> list_all is_ascii_digit root \<and> int (digits_val root) \<le> i64_max
        then int (digits_val root) else 0)"

definition path_depth :: "task_path \<Rightarrow> nat" where
  "path_depth p = (let n = length (filter (\<lambda>b. b = CHR ''.'') (raw p)) in if n < 256 then n else 255)"

definition ordinals :: "task_path \<Rightarrow> nat list" where
  "ordinals p = List.map_filter (\<lambda>s. case check_ordinal s of Inl _ \<Rightarrow> None | Inr n \<Rightarrow> Some n)
     (drop 1 (split_on CHR ''.'' (raw p)))"

definition last_ordinal :: "task_path \<Rightarrow> nat option" where
  "last_ordinal p = (case rsplit_once CHR ''.'' (raw p) of None \<Rightarrow> None
     | Some (_, seg) \<Rightarrow> (case check_ordinal seg of Inl _ \<Rightarrow> None | Inr n \<Rightarrow> Some n))"

definition parent_path :: "task_path \<Rightarrow> task_path option" where
  "parent_path p = (case rsplit_once CHR ''.'' (raw p) of None \<Rightarrow> None
     | Some (head, _) \<Rightarrow> Some \<lparr>raw = head\<rparr>)"

definition child_of :: "task_path \<Rightarrow> nat \<Rightarrow> path_error + task_path" where
  "child_of p ordinal =
     (if \<not> (1 \<le> ordinal \<and> ordinal \<le> max_ordinal) then Inl PE_Ordinal
      else if path_depth p \<ge> max_depth then Inl PE_Depth
      else Inr \<lparr>raw = raw p @ ''.'' @ show_nat ordinal\<rparr>)"

definition is_ancestor_of :: "task_path \<Rightarrow> task_path \<Rightarrow> bool" where
  "is_ancestor_of p q = (case strip_prefix (raw p) (raw q) of None \<Rightarrow> False
     | Some rest \<Rightarrow> starts_with ''.'' rest)"

definition subtree_like :: "task_path \<Rightarrow> rstr" where
  "subtree_like p = raw p @ ''.%''"

section \<open>The abstract view\<close>

definition path_segments :: "int \<Rightarrow> nat list \<Rightarrow> rstr list" where
  "path_segments i os = show_nat (nat i) # map show_nat os"

definition path_text :: "int \<Rightarrow> nat list \<Rightarrow> rstr" where
  "path_text i os = join_with CHR ''.'' (path_segments i os)"

definition path_shape :: "int \<Rightarrow> nat list \<Rightarrow> bool" where
  "path_shape i os \<longleftrightarrow> 0 < i \<and> length os \<le> max_depth
     \<and> (\<forall>o' \<in> set os. 1 \<le> o' \<and> o' \<le> max_ordinal)"

definition path_view :: "int \<Rightarrow> nat list \<Rightarrow> bool" where
  "path_view i os \<longleftrightarrow> path_shape i os \<and> i \<le> i64_max"

lemma path_view_shape: "path_view i os \<Longrightarrow> path_shape i os"
  by (simp add: path_view_def)

lemma dot_not_digit: "\<not> is_ascii_digit CHR ''.''"
  by (simp add: ascii_digit_iff)

lemma show_nat_no_dot: "CHR ''.'' \<notin> set (show_nat n)"
  using show_nat_digits dot_not_digit by blast

lemma split_path_text: "split_on CHR ''.'' (path_text i os) = path_segments i os"
  unfolding path_text_def
  by (rule split_on_join) (auto simp: path_segments_def show_nat_no_dot)

lemma check_root_Inr:
  "check_root w = Inr i \<longleftrightarrow> 0 < i \<and> i \<le> i64_max \<and> w = show_nat (nat i)"
proof
  assume "check_root w = Inr i"
  then have "w \<noteq> []" "list_all is_ascii_digit w" "\<not> starts_with ''0'' w"
    and i: "i = int (digits_val w)" "i \<le> i64_max"
    by (auto simp: check_root_def split: if_splits)
  then have "hd w \<noteq> CHR ''0''" "\<forall>c \<in> set w. is_ascii_digit c" "w \<noteq> []"
    by (cases w; simp add: starts_with_def list_all_iff)+
  then show "0 < i \<and> i \<le> i64_max \<and> w = show_nat (nat i)"
    using i by (simp add: show_digits_val digits_val_pos)
next
  assume i: "0 < i \<and> i \<le> i64_max \<and> w = show_nat (nat i)"
  then have "hd w \<noteq> CHR ''0''" "w \<noteq> []" by (simp_all add: show_nat_hd)
  then have "\<not> starts_with ''0'' w" by (cases w) (simp_all add: starts_with_def)
  then show "check_root w = Inr i"
    using i by (auto simp: check_root_def list_all_iff dest: show_nat_digits)
qed

lemma show_nat_digit: "n < 10 \<Longrightarrow> show_nat n = [digit_char n]"
  by (simp add: show_nat.simps)

lemma check_ordinal_Inr:
  "check_ordinal w = Inr n \<longleftrightarrow> 1 \<le> n \<and> n \<le> max_ordinal \<and> w = show_nat n"
proof
  assume "check_ordinal w = Inr n"
  then obtain b where b: "w = [b]" "CHR ''1'' \<le> b" "b \<le> CHR ''8''" "n = of_char b - 48"
    by (auto simp: check_ordinal_def split: if_splits list.splits)
  then have "is_ascii_digit b" "n = digit_val b" "1 \<le> n" "n \<le> 8"
    by (auto simp: ascii_digit_iff less_eq_char_def digit_val_def)
  then show "1 \<le> n \<and> n \<le> max_ordinal \<and> w = show_nat n"
    using b(1) by (simp add: max_ordinal_def show_nat_digit digit_char_val)
next
  assume "1 \<le> n \<and> n \<le> max_ordinal \<and> w = show_nat n"
  then show "check_ordinal w = Inr n"
    by (simp add: max_ordinal_def check_ordinal_def show_nat_digit less_eq_char_def of_char_digit)
qed

lemma ordinals_ok:
  "(\<forall>w \<in> set ws. \<exists>n. check_ordinal w = Inr n) \<longleftrightarrow>
    (\<exists>os. ws = map show_nat os \<and> (\<forall>n \<in> set os. 1 \<le> n \<and> n \<le> max_ordinal))"
proof -
  have "(\<forall>w \<in> set ws. \<exists>n. check_ordinal w = Inr n) \<longleftrightarrow> ws \<in> lists (show_nat ` {n. 1 \<le> n \<and> n \<le> max_ordinal})"
    by (auto simp: in_lists_conv_set check_ordinal_Inr)
  then show ?thesis by (auto simp: lists_image image_iff in_lists_conv_set)
qed

lemma length_join: "length (join_with c (w # ws)) = length w + sum_list (map (\<lambda>v. Suc (length v)) ws)"
  by (induction ws arbitrary: w) auto

lemma path_text_length:
  assumes "path_view i os"
  shows "length (path_text i os) \<le> 19 + 2 * length os"
proof -
  have "i < 10 ^ 19" using assms unfolding path_view_def path_shape_def i64_max_def by simp
  then have "nat i < 10 ^ 19" by (simp add: nat_less_iff)
  then have "length (show_nat (nat i)) \<le> 19" by (rule length_show_nat [rotated]) simp
  moreover have "\<And>n. n \<in> set os \<Longrightarrow> length (show_nat n) = 1"
    using assms by (auto simp: path_view_def path_shape_def max_ordinal_def show_nat_digit)
  then have "sum_list (map (\<lambda>v. Suc (length v)) (map show_nat os)) = 2 * length os"
    by (induction os) auto
  ultimately show ?thesis by (simp add: path_text_def path_segments_def length_join del: join_with.simps)
qed

lemma path_text_not_Nil: "path_text i os \<noteq> []"
  by (cases os) (simp_all add: path_text_def path_segments_def)

lemma parse_path_view:
  "parse_path s = Inr p \<longleftrightarrow> (\<exists>i os. path_view i os \<and> s = path_text i os \<and> p = \<lparr>raw = s\<rparr>)"
proof
  assume p: "parse_path s = Inr p"
  then obtain w ws i where w: "split_on CHR ''.'' s = w # ws" "check_root w = Inr i"
      "length ws \<le> max_depth" "p = \<lparr>raw = s\<rparr>"
    and ok: "\<forall>v \<in> set ws. \<exists>n. check_ordinal v = Inr n"
    by (auto simp: parse_path_def result_simps forR_Inr split: if_splits list.splits)
  from ok obtain os where os: "ws = map show_nat os" "\<forall>n \<in> set os. 1 \<le> n \<and> n \<le> max_ordinal"
    by (auto simp: ordinals_ok)
  have "path_text i os = s"
    using join_split_on[of "CHR ''.''" s] w os by (simp add: path_text_def path_segments_def check_root_Inr)
  moreover have "path_view i os" using w os by (simp add: path_view_def path_shape_def check_root_Inr)
  ultimately show "\<exists>i os. path_view i os \<and> s = path_text i os \<and> p = \<lparr>raw = s\<rparr>"
    using w by blast
next
  assume "\<exists>i os. path_view i os \<and> s = path_text i os \<and> p = \<lparr>raw = s\<rparr>"
  then obtain i os where v: "path_view i os" "s = path_text i os" "p = \<lparr>raw = s\<rparr>" by blast
  have "length s \<le> max_path_len"
    using path_text_length[OF v(1)] v by (simp add: max_path_len_def path_view_def path_shape_def)
  moreover have "\<forall>w \<in> set (map show_nat os). \<exists>n. check_ordinal w = Inr n"
    using v(1) ordinals_ok path_view_def path_shape_def by blast
  ultimately show "parse_path s = Inr p"
    using v path_text_not_Nil
    by (auto simp: parse_path_def split_path_text path_segments_def result_simps forR_Inr
        check_root_Inr path_view_def path_shape_def)
qed

section \<open>The operations on the abstract view\<close>

definition path_of :: "int \<Rightarrow> nat list \<Rightarrow> task_path" where
  "path_of i os = \<lparr>raw = path_text i os\<rparr>"

lemma raw_path_of [simp]: "raw (path_of i os) = path_text i os"
  by (simp add: path_of_def)

lemma join_with_snoc: "ws \<noteq> [] \<Longrightarrow> join_with c (ws @ [w]) = join_with c ws @ c # w"
  by (induction ws rule: join_with.induct[of _ c]) auto

lemma path_text_snoc: "path_text i (os @ [n]) = path_text i os @ CHR ''.'' # show_nat n"
  using join_with_snoc[of "path_segments i os" "CHR ''.''" "show_nat n"]
  by (simp add: path_text_def path_segments_def)

lemma path_text_root: "path_text i [] = show_nat (nat i)"
  by (simp add: path_text_def path_segments_def)

lemma path_text_inj:
  "0 < i \<Longrightarrow> 0 < j \<Longrightarrow> path_text i os = path_text j ps \<Longrightarrow> i = j \<and> os = ps"
  using split_path_text[of i os] split_path_text[of j ps] inj_map_eq_map[of show_nat os ps]
  by (auto simp: path_segments_def inj_def dest: show_nat_inj)

lemma root_id_view: "path_view i os \<Longrightarrow> root_id (path_of i os) = i"
  by (auto simp: root_id_def split_path_text path_segments_def Let_def path_view_def path_shape_def list_all_iff
      dest: show_nat_digits)

lemma ordinals_view: "path_view i os \<Longrightarrow> ordinals (path_of i os) = os"
proof -
  assume "path_view i os"
  then have "\<forall>n \<in> set os. check_ordinal (show_nat n) = Inr n"
    by (simp add: check_ordinal_Inr path_view_def path_shape_def)
  then have "List.map_filter (\<lambda>s. case check_ordinal s of Inl _ \<Rightarrow> None | Inr n \<Rightarrow> Some n) (map show_nat os) = os"
    by (induction os) (simp_all add: List.map_filter_simps)
  then show ?thesis by (simp add: ordinals_def split_path_text path_segments_def)
qed

lemma filter_dots: "filter (\<lambda>b. b = CHR ''.'') (show_nat n) = []"
  using show_nat_no_dot by (auto simp: filter_empty_conv)

lemma count_dots: "length (filter (\<lambda>b. b = CHR ''.'') (path_text i os)) = length os"
  by (induction os rule: rev_induct) (simp_all add: path_text_snoc path_text_root filter_dots)

lemma path_depth_view: "path_shape i os \<Longrightarrow> path_depth (path_of i os) = length os"
  by (simp add: path_depth_def count_dots Let_def path_view_def path_shape_def max_depth_def)

lemma last_ordinal_view:
  "path_view i os \<Longrightarrow> last_ordinal (path_of i os) = (if os = [] then None else Some (last os))"
proof (cases os rule: rev_cases)
  case Nil
  then show ?thesis
    by (simp add: last_ordinal_def path_text_root rsplit_once_None show_nat_no_dot)
next
  case (snoc qs n)
  assume "path_view i os"
  then have "check_ordinal (show_nat n) = Inr n" using snoc by (simp add: check_ordinal_Inr path_view_def path_shape_def)
  then show ?thesis
    using snoc by (simp add: last_ordinal_def path_text_snoc rsplit_once_append show_nat_no_dot)
qed

lemma parent_path_view:
  "parent_path (path_of i os) = (if os = [] then None else Some (path_of i (butlast os)))"
proof (cases os rule: rev_cases)
  case Nil
  then show ?thesis
    by (simp add: parent_path_def path_text_root rsplit_once_None show_nat_no_dot)
next
  case (snoc qs n)
  then show ?thesis
    by (simp add: parent_path_def path_text_snoc rsplit_once_append show_nat_no_dot path_of_def)
qed

lemma child_of_view:
  assumes "path_shape i os"
  shows "child_of (path_of i os) n = Inr q \<longleftrightarrow> path_shape i (os @ [n]) \<and> q = path_of i (os @ [n])"
  using assms path_depth_view[OF assms]
  by (auto simp: child_of_def path_shape_def path_of_def path_text_snoc)

lemma root_path_view: "root_path i = Inr q \<longleftrightarrow> path_shape i [] \<and> q = path_of i []"
  by (auto simp: root_path_def path_shape_def path_of_def path_text_root show_int_def)

lemma is_ancestor_view:
  assumes "path_shape i os" "path_shape j ps"
  shows "is_ancestor_of (path_of i os) (path_of j ps) \<longleftrightarrow> i = j \<and> (\<exists>ys. ys \<noteq> [] \<and> ps = os @ ys)"
proof
  assume "is_ancestor_of (path_of i os) (path_of j ps)"
  then obtain r where r: "path_text j ps = path_text i os @ CHR ''.'' # r"
    by (auto simp: is_ancestor_of_def strip_prefix_Some starts_with_iff split: option.splits)
  have "path_segments j ps = path_segments i os @ split_on CHR ''.'' r"
    using arg_cong[OF r, of "split_on CHR ''.''"] by (simp add: split_path_text split_on_append2)
  then have i: "show_nat (nat j) = show_nat (nat i)"
    and m: "map show_nat ps = map show_nat os @ split_on CHR ''.'' r"
    by (simp_all add: path_segments_def)
  from m obtain us vs where ps: "ps = us @ vs" "map show_nat us = map show_nat os"
      "map show_nat vs = split_on CHR ''.'' r"
    by (auto simp: map_eq_append_conv)
  have "us = os" using ps(2) show_nat_inj by (simp add: inj_map_eq_map inj_def)
  moreover have "vs \<noteq> []" using ps(3) by (cases vs) (simp_all add: split_on_not_Nil [symmetric])
  moreover have "i = j" using assms show_nat_inj[OF i] eq_nat_nat_iff[of j i] by (simp add: path_shape_def)
  ultimately show "i = j \<and> (\<exists>ys. ys \<noteq> [] \<and> ps = os @ ys)" using ps(1) by blast
next
  assume "i = j \<and> (\<exists>ys. ys \<noteq> [] \<and> ps = os @ ys)"
  then obtain y ys where ps: "i = j" "ps = os @ y # ys" by (metis list.exhaust)
  have "\<exists>r. path_text i (os @ y # ys) = path_text i os @ CHR ''.'' # r"
  proof (induction ys rule: rev_induct)
    case Nil
    show ?case by (simp add: path_text_snoc)
  next
    case (snoc z zs)
    then show ?case
      using path_text_snoc[of i "os @ y # zs" z] by auto
  qed
  then show "is_ancestor_of (path_of i os) (path_of j ps)"
    using ps by (auto simp: is_ancestor_of_def strip_prefix_def starts_with_def)
qed

lemma strict_prefix_take:
  "(\<exists>ys. ys \<noteq> [] \<and> qs = os @ ys) \<longleftrightarrow> length os < length qs \<and> take (length os) qs = os"
  by (auto simp: neq_Nil_conv) (metis append_eq_conv_conj append_take_drop_id drop_eq_Nil
      linorder_not_less list.exhaust)

text \<open>
  Property C37: parsing accepts exactly the rendered paths of the grammar (a positive 64-bit
  root, at most six ordinals, each 1 to 8), keeps their text, and the accessors read the root
  and the ordinals back.
\<close>

theorem parse_path_grammar:
  "parse_path s = Inr p \<longleftrightarrow>
    path_view (root_id p) (ordinals p) \<and> s = path_text (root_id p) (ordinals p) \<and> p = \<lparr>raw = s\<rparr>"
proof
  assume "parse_path s = Inr p"
  then obtain i os where "path_view i os" "s = path_text i os" "p = path_of i os" "p = \<lparr>raw = s\<rparr>"
    by (auto simp: parse_path_view path_of_def)
  then show "path_view (root_id p) (ordinals p) \<and> s = path_text (root_id p) (ordinals p) \<and> p = \<lparr>raw = s\<rparr>"
    using root_id_view[of i os] ordinals_view[of i os] by (simp add: path_of_def)
next
  assume "path_view (root_id p) (ordinals p) \<and> s = path_text (root_id p) (ordinals p) \<and> p = \<lparr>raw = s\<rparr>"
  then show "parse_path s = Inr p" unfolding parse_path_view by blast
qed

text \<open>
  On parsed paths ancestry is exactly strict extension of the ordinals below the
  same root; textual prefixes that stop inside a segment do not count.
\<close>

theorem ancestor_is_strict_prefix:
  assumes "parse_path s = Inr p" and "parse_path t = Inr q"
  shows "is_ancestor_of p q \<longleftrightarrow>
    root_id p = root_id q \<and> length (ordinals p) < length (ordinals q)
      \<and> take (length (ordinals p)) (ordinals q) = ordinals p"
proof -
  obtain i os j ps where v: "path_view i os" "p = path_of i os" "path_view j ps" "q = path_of j ps"
    using assms by (auto simp: parse_path_view path_of_def)
  then show ?thesis
    by (simp add: is_ancestor_view root_id_view ordinals_view strict_prefix_take path_view_shape)
qed

theorem ancestor_is_strict_prefix_witness:
  "is_ancestor_of \<lparr>raw = ''12.3''\<rparr> \<lparr>raw = ''12.3.4''\<rparr> \<and> \<not> is_ancestor_of \<lparr>raw = ''1''\<rparr> \<lparr>raw = ''12.3''\<rparr>"
proof -
  have p: "parse_path ''12.3'' = Inr \<lparr>raw = ''12.3''\<rparr>" "parse_path ''12.3.4'' = Inr \<lparr>raw = ''12.3.4''\<rparr>"
      "parse_path ''1'' = Inr \<lparr>raw = ''1''\<rparr>"
    by code_simp+
  have v: "root_id \<lparr>raw = ''12.3''\<rparr> = 12" "root_id \<lparr>raw = ''12.3.4''\<rparr> = 12" "root_id \<lparr>raw = ''1''\<rparr> = 1"
      "ordinals \<lparr>raw = ''12.3''\<rparr> = [3]" "ordinals \<lparr>raw = ''12.3.4''\<rparr> = [3, 4]"
    by code_simp+
  show ?thesis
    using ancestor_is_strict_prefix[OF p(1) p(2)] ancestor_is_strict_prefix[OF p(3) p(1)] v by simp
qed

end
