(* ===== verification/Task_Policy.thy ===== *)
theory Task_Policy
  imports Task_Rules Task_Path
begin

text \<open>
  The seam's typed error (\<open>crates/agent-core/src/campaign/mod.rs\<close>), the JSON values the
  campaign code reads and writes, and the per-campaign policy with its validation and parsing
  (\<open>crates/agent-core/src/campaign/policy.rs\<close>). The lemmas characterise exactly which policies
  validate and show that every accepted document yields a policy whose caps lie within the
  schema's ranges.
\<close>

section \<open>The error type\<close>

text \<open>
  \<open>E_Panic\<close> is no variant of the code's enum: it stands for an arithmetic or index panic,
  and the lemmas show where it cannot occur.
\<close>

datatype campaign_error =
    E_NotFound | E_Conflict rstr | E_AlreadyApplied | E_LeaseLost | E_Denied rstr
  | E_Invalid rstr | E_TooLong rstr | E_Backend rstr | E_Panic

type_synonym 'a campaign_result = "campaign_error + 'a"

fun campaign_error_str :: "campaign_error \<Rightarrow> rstr" where
  "campaign_error_str E_NotFound = ''not found''"
| "campaign_error_str (E_Conflict s) = ''conflict: '' @ s"
| "campaign_error_str E_AlreadyApplied = ''already applied''"
| "campaign_error_str E_LeaseLost = ''lease lost''"
| "campaign_error_str (E_Denied s) = ''denied: '' @ s"
| "campaign_error_str (E_Invalid s) = ''invalid: '' @ s"
| "campaign_error_str (E_TooLong s) = ''too long: '' @ s"
| "campaign_error_str (E_Backend s) = ''backend: '' @ s"
| "campaign_error_str E_Panic = ''''"

definition path_campaign_error :: "path_error \<Rightarrow> campaign_error" where
  "path_campaign_error e = E_Invalid (''path: '' @ path_error_str e)"

section \<open>JSON\<close>

text \<open>
  \<open>serde_json::Value\<close>: integers are exact; a float is written as its multiple of
  \<open>2 ^ -149\<close>, which covers every \<open>f32\<close> the code widens; an object is the list of its entries
  in key order (its \<open>Map\<close> is a \<open>BTreeMap\<close>).
\<close>

datatype json =
    J_Null | J_Bool bool | J_Int int | J_Float int | J_Str rstr | J_Arr "json list"
  | J_Obj "(rstr \<times> json) list"

fun as_object :: "json \<Rightarrow> (rstr \<times> json) list option" where
  "as_object (J_Obj m) = Some m"
| "as_object _ = None"

fun as_i64 :: "json \<Rightarrow> int option" where
  "as_i64 (J_Int i) = (if - (2 ^ 63) \<le> i \<and> i \<le> i64_max then Some i else None)"
| "as_i64 _ = None"

fun as_bool :: "json \<Rightarrow> bool option" where
  "as_bool (J_Bool b) = Some b"
| "as_bool _ = None"

fun as_array :: "json \<Rightarrow> json list option" where
  "as_array (J_Arr xs) = Some xs"
| "as_array _ = None"

fun as_str :: "json \<Rightarrow> rstr option" where
  "as_str (J_Str s) = Some s"
| "as_str _ = None"

fun json_get :: "rstr \<Rightarrow> json \<Rightarrow> json option" where
  "json_get k (J_Obj m) = map_of m k"
| "json_get k _ = None"

text \<open>\<open>json!\<close> of an object literal.\<close>

definition json_obj :: "(rstr \<times> json) list \<Rightarrow> json" where
  "json_obj kvs = J_Obj (fold (\<lambda>(k, v) m. bt_insert k v m) kvs [])"

section \<open>The policy\<close>

definition policy_max_depth :: int where "policy_max_depth = 6"
definition policy_max_children :: int where "policy_max_children = 8"
definition policy_max_nodes :: int where "policy_max_nodes = 200"
definition policy_max_plan_attempts :: int where "policy_max_plan_attempts = 10"

record policy =
  approve_levels :: "int list"
  require_pr_approval :: bool
  draft_prs :: bool
  p_max_depth :: int
  max_children :: int
  max_nodes :: int
  max_plan_attempts :: int
  max_plan_tokens :: int
  max_worker_tokens_per_leaf :: int
  auto_replan :: bool
  lease_secs :: int

datatype shape = Shape_Int | Shape_Bool | Shape_IntArray

fun shape_name :: "shape \<Rightarrow> rstr" where
  "shape_name Shape_Int = ''an integer''"
| "shape_name Shape_Bool = ''a boolean''"
| "shape_name Shape_IntArray = ''an array of integers''"

definition policy_fields :: "(rstr \<times> shape) list" where
  "policy_fields =
     [(''approve_levels'', Shape_IntArray),
      (''require_pr_approval'', Shape_Bool),
      (''draft_prs'', Shape_Bool),
      (''max_depth'', Shape_Int),
      (''max_children'', Shape_Int),
      (''max_nodes'', Shape_Int),
      (''max_plan_attempts'', Shape_Int),
      (''max_plan_tokens'', Shape_Int),
      (''max_worker_tokens_per_leaf'', Shape_Int),
      (''auto_replan'', Shape_Bool),
      (''lease_secs'', Shape_Int)]"

definition default_policy :: policy where
  "default_policy =
     \<lparr>approve_levels = [1], require_pr_approval = True, draft_prs = True,
      p_max_depth = policy_max_depth, max_children = policy_max_children,
      max_nodes = policy_max_nodes, max_plan_attempts = 3, max_plan_tokens = 400000,
      max_worker_tokens_per_leaf = 2000000, auto_replan = False, lease_secs = 1800\<rparr>"

definition policy_range :: "rstr \<Rightarrow> int \<Rightarrow> int \<Rightarrow> int \<Rightarrow> unit campaign_result" where
  "policy_range field v lo hi =
     (if lo \<le> v \<and> v \<le> hi then Inr ()
      else Inl (E_Invalid (''policy.'' @ field @ '': must be in '' @ show_int lo @ ''..='' @ show_int hi)))"

fun check_levels :: "int \<Rightarrow> int list \<Rightarrow> int list \<Rightarrow> unit campaign_result" where
  "check_levels depth seen [] = Inr ()"
| "check_levels depth seen (level # levels) =
     bindR (policy_range ''approve_levels'' level 1 depth) (\<lambda>_.
     if level \<in> set seen then Inl (E_Invalid ''policy.approve_levels: duplicate entry'')
     else check_levels depth (seen @ [level]) levels)"

definition policy_validate :: "policy \<Rightarrow> unit campaign_result" where
  "policy_validate p =
     bindR (policy_range ''max_depth'' (p_max_depth p) 1 policy_max_depth) (\<lambda>_.
     bindR (policy_range ''max_children'' (max_children p) 1 policy_max_children) (\<lambda>_.
     bindR (policy_range ''max_nodes'' (max_nodes p) 1 policy_max_nodes) (\<lambda>_.
     bindR (policy_range ''max_plan_attempts'' (max_plan_attempts p) 1 policy_max_plan_attempts) (\<lambda>_.
     bindR (policy_range ''max_plan_tokens'' (max_plan_tokens p) 1 i64_max) (\<lambda>_.
     bindR (policy_range ''max_worker_tokens_per_leaf'' (max_worker_tokens_per_leaf p) 1 i64_max) (\<lambda>_.
     bindR (policy_range ''lease_secs'' (lease_secs p) (int lease_min_secs) (int lease_max_secs)) (\<lambda>_.
     if int (length (approve_levels p)) > policy_max_depth
     then Inl (E_Invalid (''policy.approve_levels: at most '' @ show_int policy_max_depth @ '' entries''))
     else check_levels (p_max_depth p) [] (approve_levels p))))))))"

definition shape_ok :: "shape \<Rightarrow> json \<Rightarrow> bool" where
  "shape_ok sh v = (case sh of
       Shape_Int \<Rightarrow> as_i64 v \<noteq> None
     | Shape_Bool \<Rightarrow> as_bool v \<noteq> None
     | Shape_IntArray \<Rightarrow> (case as_array v of None \<Rightarrow> False
          | Some a \<Rightarrow> list_all (\<lambda>x. as_i64 x \<noteq> None) a))"

text \<open>
  \<open>serde_json::from_value\<close> into the struct: a missing field takes its default. It is only
  reached when every key and shape has been checked, so its own type errors cannot arise.
\<close>

definition int_field :: "rstr \<Rightarrow> int \<Rightarrow> (rstr \<times> json) list \<Rightarrow> int" where
  "int_field k d m = (case map_of m k of None \<Rightarrow> d
     | Some v \<Rightarrow> (case as_i64 v of Some i \<Rightarrow> i | None \<Rightarrow> d))"

definition bool_field :: "rstr \<Rightarrow> bool \<Rightarrow> (rstr \<times> json) list \<Rightarrow> bool" where
  "bool_field k d m = (case map_of m k of None \<Rightarrow> d
     | Some v \<Rightarrow> (case as_bool v of Some b \<Rightarrow> b | None \<Rightarrow> d))"

definition ints_field :: "rstr \<Rightarrow> int list \<Rightarrow> (rstr \<times> json) list \<Rightarrow> int list" where
  "ints_field k d m = (case map_of m k of None \<Rightarrow> d
     | Some v \<Rightarrow> (case as_array v of Some a \<Rightarrow> List.map_filter as_i64 a | None \<Rightarrow> d))"

definition policy_of_map :: "(rstr \<times> json) list \<Rightarrow> policy" where
  "policy_of_map m = (let d = default_policy in
     \<lparr>approve_levels = ints_field ''approve_levels'' (approve_levels d) m,
      require_pr_approval = bool_field ''require_pr_approval'' (require_pr_approval d) m,
      draft_prs = bool_field ''draft_prs'' (draft_prs d) m,
      p_max_depth = int_field ''max_depth'' (p_max_depth d) m,
      max_children = int_field ''max_children'' (max_children d) m,
      max_nodes = int_field ''max_nodes'' (max_nodes d) m,
      max_plan_attempts = int_field ''max_plan_attempts'' (max_plan_attempts d) m,
      max_plan_tokens = int_field ''max_plan_tokens'' (max_plan_tokens d) m,
      max_worker_tokens_per_leaf =
        int_field ''max_worker_tokens_per_leaf'' (max_worker_tokens_per_leaf d) m,
      auto_replan = bool_field ''auto_replan'' (auto_replan d) m,
      lease_secs = int_field ''lease_secs'' (lease_secs d) m\<rparr>)"

definition check_policy_entry :: "rstr \<times> json \<Rightarrow> unit campaign_result" where
  "check_policy_entry e = (case e of (key, v) \<Rightarrow>
     (case map_of policy_fields key of
        None \<Rightarrow> Inl (E_Invalid (''policy.'' @ key @ '': unknown key''))
      | Some shape \<Rightarrow>
          if shape_ok shape v then Inr ()
          else Inl (E_Invalid (''policy.'' @ key @ '': must be '' @ shape_name shape))))"

definition policy_from_json :: "json \<Rightarrow> policy campaign_result" where
  "policy_from_json value =
     (case as_object value of
        None \<Rightarrow> Inl (E_Invalid ''policy: must be a JSON object'')
      | Some m \<Rightarrow>
          bindR (forR check_policy_entry m) (\<lambda>_.
          let policy = policy_of_map m in
          bindR (policy_validate policy) (\<lambda>_. Inr policy)))"

text \<open>The snapshot's JSON form (\<open>serde_json::to_string\<close>), as the object it denotes.\<close>

definition policy_entries :: "policy \<Rightarrow> (rstr \<times> json) list" where
  "policy_entries p =
     [(''approve_levels'', J_Arr (map J_Int (approve_levels p))),
      (''auto_replan'', J_Bool (auto_replan p)),
      (''draft_prs'', J_Bool (draft_prs p)),
      (''lease_secs'', J_Int (lease_secs p)),
      (''max_children'', J_Int (max_children p)),
      (''max_depth'', J_Int (p_max_depth p)),
      (''max_nodes'', J_Int (max_nodes p)),
      (''max_plan_attempts'', J_Int (max_plan_attempts p)),
      (''max_plan_tokens'', J_Int (max_plan_tokens p)),
      (''max_worker_tokens_per_leaf'', J_Int (max_worker_tokens_per_leaf p)),
      (''require_pr_approval'', J_Bool (require_pr_approval p))]"

definition policy_json :: "policy \<Rightarrow> json" where
  "policy_json p = J_Obj (policy_entries p)"

definition gated :: "policy \<Rightarrow> nat \<Rightarrow> bool" where
  "gated p depth \<longleftrightarrow> int depth \<in> set (approve_levels p)"

definition clamp_u8 :: "int \<Rightarrow> int \<Rightarrow> nat" where
  "clamp_u8 v hi = (let c = min (max v 1) hi in if 0 \<le> c \<and> c < 256 then nat c else 1)"

definition children_cap :: "policy \<Rightarrow> nat" where
  "children_cap p = clamp_u8 (max_children p) policy_max_children"

definition depth_cap :: "policy \<Rightarrow> nat" where
  "depth_cap p = clamp_u8 (p_max_depth p) policy_max_depth"

section \<open>What validation accepts\<close>

definition policy_ok :: "policy \<Rightarrow> bool" where
  "policy_ok p \<longleftrightarrow>
     p_max_depth p \<in> {1..6} \<and> max_children p \<in> {1..8} \<and> max_nodes p \<in> {1..200}
     \<and> max_plan_attempts p \<in> {1..10} \<and> max_plan_tokens p \<in> {1..i64_max}
     \<and> max_worker_tokens_per_leaf p \<in> {1..i64_max} \<and> lease_secs p \<in> {60..86400}
     \<and> distinct (approve_levels p) \<and> length (approve_levels p) \<le> 6
     \<and> (\<forall>l \<in> set (approve_levels p). 1 \<le> l \<and> l \<le> p_max_depth p)"

lemma policy_range_ok [simp]: "policy_range f v lo hi = Inr u \<longleftrightarrow> lo \<le> v \<and> v \<le> hi"
  by (simp add: policy_range_def)

lemma check_levels_ok:
  "check_levels d seen ls = Inr () \<longleftrightarrow>
    (\<forall>l \<in> set ls. 1 \<le> l \<and> l \<le> d) \<and> distinct ls \<and> set ls \<inter> set seen = {}"
  by (induction ls arbitrary: seen) (auto simp: result_simps)

lemma policy_validate_ok: "policy_validate p = Inr () \<longleftrightarrow> policy_ok p"
  by (auto simp: policy_validate_def policy_ok_def result_simps check_levels_ok
      policy_max_depth_def policy_max_children_def policy_max_nodes_def
      policy_max_plan_attempts_def lease_min_secs_def lease_max_secs_def)

lemma default_policy_ok: "policy_ok default_policy"
  by (simp add: policy_ok_def default_policy_def policy_max_depth_def policy_max_children_def
      policy_max_nodes_def i64_max_def)

lemma children_cap_bounds: "1 \<le> children_cap p \<and> children_cap p \<le> 8"
  by (auto simp: children_cap_def clamp_u8_def policy_max_children_def Let_def)

lemma depth_cap_bounds: "1 \<le> depth_cap p \<and> depth_cap p \<le> 6"
  by (auto simp: depth_cap_def clamp_u8_def policy_max_depth_def Let_def)

lemma caps_of_ok:
  "policy_ok p \<Longrightarrow> int (children_cap p) = max_children p \<and> int (depth_cap p) = p_max_depth p"
  by (auto simp: children_cap_def depth_cap_def clamp_u8_def policy_max_children_def
      policy_max_depth_def policy_ok_def Let_def)

text \<open>
  A document is accepted as a policy exactly when it is an object whose keys are
  all known and carry their documented shape, and the snapshot filled with defaults satisfies
  every schema range (distinct approval levels within the depth included); that snapshot is the
  result.
\<close>

theorem policy_from_json_accepts:
  "policy_from_json v = Inr p \<longleftrightarrow>
    (\<exists>m. v = J_Obj m \<and> p = policy_of_map m \<and> policy_ok p \<and>
      list_all (\<lambda>(k, x). \<exists>sh. map_of policy_fields k = Some sh \<and> shape_ok sh x) m)"
proof -
  have obj: "as_object v = Some m \<longleftrightarrow> v = J_Obj m" for m by (cases v) auto
  have entry: "check_policy_entry e = Inr () \<longleftrightarrow>
      (case e of (k, x) \<Rightarrow> \<exists>sh. map_of policy_fields k = Some sh \<and> shape_ok sh x)" for e
    by (auto simp: check_policy_entry_def split: prod.splits option.splits)
  show ?thesis
    using obj by (cases v) (auto simp: policy_from_json_def result_simps forR_Inr Let_def entry
        policy_validate_ok list_all_iff)
qed

lemma map_filter_as_i64:
  "(\<forall>i \<in> set xs. - (2 ^ 63) \<le> i \<and> i \<le> i64_max) \<Longrightarrow> List.map_filter as_i64 (map J_Int xs) = xs"
  by (induction xs) (auto simp: List.map_filter_simps)

lemma policy_ok_i64:
  "policy_ok p \<Longrightarrow> i \<in> set (approve_levels p) \<union> {p_max_depth p, max_children p, max_nodes p,
     max_plan_attempts p, max_plan_tokens p, max_worker_tokens_per_leaf p, lease_secs p} \<Longrightarrow>
   - (2 ^ 63) \<le> i \<and> i \<le> i64_max"
  by (auto simp: policy_ok_def i64_max_def)

text \<open>
  A valid policy survives being stored and read back: parsing its JSON snapshot
  returns the very same policy.
\<close>

theorem policy_json_roundtrip:
  assumes "policy_ok p"
  shows "policy_from_json (policy_json p) = Inr p"
proof -
  note in_range = policy_ok_i64[OF assms]
  have "policy_of_map (policy_entries p) = p"
    using in_range
    by (cases p) (simp add: policy_entries_def policy_of_map_def int_field_def bool_field_def
        ints_field_def map_filter_as_i64)
  moreover have "\<forall>(k, x) \<in> set (policy_entries p).
      \<exists>sh. map_of policy_fields k = Some sh \<and> shape_ok sh x"
    using in_range
    by (simp add: policy_entries_def policy_fields_def shape_ok_def list_all_iff)
  ultimately show ?thesis
    using assms unfolding policy_from_json_accepts policy_json_def list_all_iff by auto
qed

theorem policy_json_roundtrip_witness:
  "policy_from_json (policy_json default_policy) = Inr default_policy"
  by (rule policy_json_roundtrip) (rule default_policy_ok)

end
