(* ===== verification/Segments.thy ===== *)
theory Segments
  imports Prelude "HOL-Library.Word"
begin

text \<open>
  The trust-boundary validators of \<open>crates/agent-core/src/identity.rs\<close> and
  \<open>crates/agent-core/src/security.rs\<close>: path-safe segments and the identities built on them,
  the review-session encoding, the prompt-injection scan, the SSRF address classes and the
  confinement of caller-supplied paths. Unicode lower-casing (\<open>str::to_lowercase\<close>) is the
  parameter \<open>lower\<close>; the file system (\<open>canonicalize\<close>, \<open>symlink_metadata\<close>) is the pair of
  parameters \<open>canon\<close> and \<open>symlink\<close>.
\<close>

section \<open>Path-safe segments and identities\<close>

definition max_segment_len :: nat where "max_segment_len = 128"

definition seg_char :: "char \<Rightarrow> bool" where
  "seg_char c \<longleftrightarrow> is_ascii_alnum c \<or> c = CHR ''-'' \<or> c = CHR ''_'' \<or> c = CHR ''.''"

definition safe_segment :: "rstr \<Rightarrow> bool" where
  "safe_segment s \<longleftrightarrow>
     s \<noteq> [] \<and> length s \<le> max_segment_len \<and> s \<noteq> ''.'' \<and> s \<noteq> ''..'' \<and> \<not> starts_with ''-'' s
     \<and> list_all (\<lambda>c. case c of [b] \<Rightarrow> seg_char b | _ \<Rightarrow> False) (str_chars s)"

datatype identity_error = IE_User rstr | IE_Session rstr

fun identity_error_str :: "identity_error \<Rightarrow> rstr" where
  "identity_error_str (IE_User s) = ''invalid user id: `'' @ s @ ''`''"
| "identity_error_str (IE_Session s) = ''invalid session id: `'' @ s @ ''`''"

type_synonym user_id = rstr
type_synonym session_id = rstr

definition user_id_parse :: "rstr \<Rightarrow> identity_error + user_id" where
  "user_id_parse s = (if safe_segment s then Inr s else Inl (IE_User s))"

definition session_id_parse :: "rstr \<Rightarrow> identity_error + session_id" where
  "session_id_parse s = (if safe_segment s then Inr s else Inl (IE_Session s))"

record session_key =
  sk_user :: user_id
  sk_session :: session_id

definition session_key_parse :: "rstr \<Rightarrow> rstr \<Rightarrow> identity_error + session_key" where
  "session_key_parse user session =
     bindR (user_id_parse user) (\<lambda>u.
     bindR (session_id_parse session) (\<lambda>s. Inr \<lparr>sk_user = u, sk_session = s\<rparr>))"

definition sanitize_segment :: "rstr \<Rightarrow> rstr" where
  "sanitize_segment s = map (\<lambda>c. case c of
       [b] \<Rightarrow> if is_ascii_alnum b \<or> b = CHR ''_'' \<or> b = CHR ''.'' then b else CHR ''-''
     | _ \<Rightarrow> CHR ''-'') (str_chars s)"

definition trim_end_dots :: "rstr \<Rightarrow> rstr" where
  "trim_end_dots s = rev (dropWhile (\<lambda>c. c = CHR ''.'') (rev s))"

definition encode_review_session_id :: "rstr \<Rightarrow> rstr \<Rightarrow> nat \<Rightarrow> session_id" where
  "encode_review_session_id row_id repo pr =
     (let suffix = ''-pr'' @ show_nat pr;
          joined = sanitize_segment row_id @ ''-'' @ sanitize_segment repo;
          base = dropWhile (\<lambda>c. c = CHR ''-'' \<or> c = CHR ''.'') joined;
          base = (if base = [] then ''review'' else base);
          max_base = max_segment_len - length suffix;
          base = take max_base base;
          base = trim_end_dots base;
          base = (if base = [] then ''review'' else base)
      in base @ suffix)"

text \<open>\<open>SessionKey::path_under\<close>: the directory's components below \<open>root\<close>.\<close>

definition path_under :: "session_key \<Rightarrow> rstr list \<Rightarrow> identity_error + rstr list" where
  "path_under k root =
     (if \<not> safe_segment (sk_user k) then Inl (IE_User (sk_user k))
      else if \<not> safe_segment (sk_session k) then Inl (IE_Session (sk_session k))
      else Inr (root @ [sk_user k, sk_session k]))"

lemma ascii_chunks:
  assumes "\<And>b. P b \<Longrightarrow> (of_char b :: nat) < 128"
  shows "list_all (\<lambda>c. case c of [b] \<Rightarrow> P b | _ \<Rightarrow> False) (str_chars s) \<longleftrightarrow> list_all P s"
proof (induction s rule: str_chars.induct)
  case (2 a s)
  show ?case
  proof (cases "char_width a = 1")
    case True
    then show ?thesis using 2 by simp
  next
    case False
    then have "\<not> (of_char a :: nat) < 128" by (auto simp: char_width_def Let_def)
    then have "\<not> P a" using assms by blast
    moreover have "\<not> (case a # take (char_width a - 1) s of [b] \<Rightarrow> P b | _ \<Rightarrow> False)"
      using \<open>\<not> P a\<close> by (auto split: list.splits)
    ultimately show ?thesis by simp
  qed
qed simp

lemma seg_char_ascii: "seg_char b \<Longrightarrow> (of_char b :: nat) < 128"
  by (auto simp: seg_char_def is_ascii_alnum_def is_ascii_digit_def is_ascii_lower_def
      is_ascii_upper_def less_eq_char_def)

lemma safe_segment_iff:
  "safe_segment s \<longleftrightarrow> s \<noteq> [] \<and> length s \<le> max_segment_len \<and> s \<noteq> ''.'' \<and> s \<noteq> ''..''
     \<and> hd s \<noteq> CHR ''-'' \<and> list_all seg_char s"
proof -
  have "list_all (\<lambda>c. case c of [b] \<Rightarrow> seg_char b | _ \<Rightarrow> False) (str_chars s) \<longleftrightarrow> list_all seg_char s"
    by (rule ascii_chunks) (rule seg_char_ascii)
  moreover have "s \<noteq> [] \<Longrightarrow> starts_with ''-'' s \<longleftrightarrow> hd s = CHR ''-''"
    by (cases s) (auto simp: starts_with_def)
  ultimately show ?thesis unfolding safe_segment_def by blast
qed

lemma seg_char_no_slash: "\<not> seg_char CHR ''/''" "\<not> seg_char CHR 0x00"
  by (simp_all add: seg_char_def is_ascii_alnum_def is_ascii_digit_def is_ascii_lower_def
      is_ascii_upper_def less_eq_char_def)

lemma seg_char_digit: "is_ascii_digit c \<Longrightarrow> seg_char c"
  by (simp add: seg_char_def is_ascii_alnum_def)

lemma seg_char_show_nat: "list_all seg_char (show_nat n)"
  using show_nat_digits seg_char_digit by (auto simp: list_all_iff)

lemma sanitize_seg: "list_all seg_char (sanitize_segment s)"
  by (auto simp: sanitize_segment_def list_all_iff seg_char_def split: list.splits)

lemma list_all_dropWhile: "list_all P s \<Longrightarrow> list_all P (dropWhile Q s)"
  by (auto simp: list_all_iff dest: set_dropWhileD)

lemma list_all_take: "list_all P s \<Longrightarrow> list_all P (take n s)"
  by (auto simp: list_all_iff dest: in_set_takeD)

lemma list_all_trim: "list_all P s \<Longrightarrow> list_all P (trim_end_dots s)"
  by (auto simp: list_all_iff trim_end_dots_def dest: set_dropWhileD)

lemma trim_end_prefix: "\<exists>n. trim_end_dots s = take n s"
proof -
  have "trim_end_dots s @ rev (takeWhile (\<lambda>c. c = CHR ''.'') (rev s)) = s"
    unfolding trim_end_dots_def by (metis rev_append rev_rev_ident takeWhile_dropWhile_id)
  then show ?thesis by (metis append_eq_conv_conj)
qed

lemma show_nat_u64: "n \<le> u64_max \<Longrightarrow> length (show_nat n) \<le> 20"
  by (rule length_show_nat) (simp_all add: u64_max_def)

lemma encode_review_base:
  defines "seps \<equiv> (\<lambda>c. c = CHR ''-'' \<or> c = CHR ''.'')"
  assumes "list_all seg_char joined" and "0 < m"
  shows "\<exists>b. (let base = dropWhile seps joined;
             base = (if base = [] then ''review'' else base);
             base = trim_end_dots (take m base)
           in if base = [] then ''review'' else base) = b
         \<and> b \<noteq> [] \<and> \<not> seps (hd b) \<and> list_all seg_char b \<and> (length b \<le> m \<or> b = ''review'')"
proof -
  define b1 where "b1 = (if dropWhile seps joined = [] then ''review'' else dropWhile seps joined)"
  have "\<not> seps (hd b1)"
    using hd_dropWhile[of seps joined] by (auto simp: b1_def seps_def)
  have review: "list_all seg_char ''review''"
    by (simp add: seg_char_def is_ascii_alnum_def is_ascii_lower_def less_eq_char_def)
  have ok1: "list_all seg_char b1"
    using assms(2) review by (auto simp only: b1_def list_all_dropWhile split: if_splits)
  obtain n where n: "trim_end_dots (take m b1) = take n (take m b1)"
    using trim_end_prefix by blast
  define b where "b = (if trim_end_dots (take m b1) = [] then ''review'' else trim_end_dots (take m b1))"
  have "b \<noteq> []" by (simp add: b_def)
  moreover have "\<not> seps (hd b)"
  proof (cases "trim_end_dots (take m b1) = []")
    case False
    then have "hd (trim_end_dots (take m b1)) = hd b1" unfolding n by (cases b1; cases m; cases n) auto
    then show ?thesis using False \<open>\<not> seps (hd b1)\<close> by (simp add: b_def)
  qed (simp add: b_def seps_def)
  moreover have "list_all seg_char b"
    using ok1 review by (auto simp only: b_def list_all_trim list_all_take split: if_splits)
  moreover have "length b \<le> m \<or> b = ''review''"
    by (auto simp: b_def n)
  ultimately show ?thesis
    unfolding b_def b1_def Let_def by blast
qed

text \<open>
  Every review session id the encoder mints is a path-safe segment, whatever the
  row id, repository text and pull-request number are.
\<close>

theorem encode_review_safe:
  assumes "pr \<le> u64_max"
  shows "safe_segment (encode_review_session_id row_id repo pr)"
proof -
  define suffix where "suffix = ''-pr'' @ show_nat pr"
  define joined where "joined = sanitize_segment row_id @ ''-'' @ sanitize_segment repo"
  have len: "length suffix \<le> 23" using show_nat_u64[OF assms] by (simp add: suffix_def)
  have "list_all seg_char joined" "0 < max_segment_len - length suffix"
    using sanitize_seg len by (simp_all add: joined_def seg_char_def max_segment_len_def)
  from encode_review_base[OF this] obtain b where b:
    "encode_review_session_id row_id repo pr = b @ suffix" "b \<noteq> []"
    "hd b \<noteq> CHR ''-''" "hd b \<noteq> CHR ''.''" "list_all seg_char b"
    "length b \<le> max_segment_len - length suffix \<or> b = ''review''"
    unfolding encode_review_session_id_def suffix_def joined_def Let_def by blast
  have "list_all seg_char suffix"
    using seg_char_show_nat
    by (simp add: suffix_def seg_char_def is_ascii_alnum_def is_ascii_lower_def less_eq_char_def)
  moreover have "length (b @ suffix) \<le> max_segment_len"
    using b(6) len by (auto simp: max_segment_len_def)
  ultimately show ?thesis
    using b by (cases b) (simp_all add: safe_segment_iff)
qed

theorem encode_review_safe_witness:
  "safe_segment (encode_review_session_id ''../x'' ''owner/name'' 7)
    \<and> encode_review_session_id ''../x'' ''owner/name'' 7 = ''x-owner-name-pr7''"
  using encode_review_safe[of 7 "''../x''" "''owner/name''"]
  by (simp add: u64_max_def) code_simp

text \<open>Two row ids that are valid segments can still share a session id for the same repository
  and pull request: leading dots are trimmed.\<close>

lemma encode_review_collision:
  "safe_segment ''.a'' \<and> safe_segment ''a'' \<and>
    encode_review_session_id ''.a'' ''o/r'' 1 = encode_review_session_id ''a'' ''o/r'' 1"
  by code_simp

end
