(* ===== verification/Campaign.thy ===== *)
theory Campaign
  imports Task_Policy Security
begin

text \<open>
  The campaign seam's records, requests and checks,
  \<open>crates/agent-core/src/campaign/mod.rs\<close>. The lemmas characterise the checks: in particular
  \<open>check_deps\<close> (Kahn's algorithm over a batch) accepts exactly the acyclic batches without
  repeated entries, and it never underflows its counters; synthetic idempotency keys parse and
  are injective.
\<close>

type_synonym task_id = int
type_synonym attempt_id = int
type_synonym event_id = int
type_synonym owner = rstr

section \<open>Caps\<close>

definition max_title :: nat where "max_title = 120"
definition max_goal :: nat where "max_goal = 4000"
definition max_acceptance :: nat where "max_acceptance = 6"
definition max_acceptance_item :: nat where "max_acceptance_item = 300"
definition max_touches :: nat where "max_touches = 12"
definition max_touch :: nat where "max_touch = 200"
definition max_question :: nat where "max_question = 600"
definition max_answer :: nat where "max_answer = 600"
definition max_error :: nat where "max_error = 2000"
definition max_source_ref :: nat where "max_source_ref = 120"
definition max_pr_url :: nat where "max_pr_url = 512"
definition max_branch :: nat where "max_branch = 128"
definition max_reason :: nat where "max_reason = 2000"
definition max_session_id :: nat where "max_session_id = 128"
definition max_model :: nat where "max_model = 128"
definition max_prompt_hash :: nat where "max_prompt_hash = 64"
definition max_children_rows :: nat where "max_children_rows = 8"
definition max_tree_depth :: nat where "max_tree_depth = 6"

text \<open>\<open>LIVE_STATES\<close>: what the driver tick acts on.\<close>

definition live_states :: "task_state list" where
  "live_states = [S_Ready, S_Decomposing, S_Claimed, S_Running, S_InReview]"

definition clarification_header :: rstr where
  "clarification_header = [CHR 0x0A, CHR 0x0A] @ ''## Clarification'' @ [CHR 0x0A, CHR 0x0A]"

text \<open>
  A finite \<open>f32\<close> is an integer multiple of \<open>2 ^ -149\<close>; \<open>F_Val i\<close> is \<open>i * 2 ^ -149\<close>. The
  constant \<open>0.4f32\<close> is \<open>13421773 * 2 ^ -25\<close>.
\<close>

datatype f32 = F_NaN | F_Inf | F_NegInf | F_Val int

fun is_finite :: "f32 \<Rightarrow> bool" where
  "is_finite (F_Val _) = True"
| "is_finite _ = False"

fun f32_less :: "f32 \<Rightarrow> int \<Rightarrow> bool" where
  "f32_less (F_Val i) x = (i < x)"
| "f32_less F_NegInf x = True"
| "f32_less _ x = False"

definition low_confidence :: int where "low_confidence = 13421773 * 2 ^ 124"

definition plan_detail :: "json \<Rightarrow> f32 \<Rightarrow> json" where
  "plan_detail base confidence =
     (if \<not> is_finite confidence \<or> f32_less confidence low_confidence
      then (case base of J_Obj m \<Rightarrow> J_Obj (bt_insert ''low_confidence'' (J_Bool True) m) | _ \<Rightarrow> base)
      else base)"

section \<open>Field checks\<close>

definition check_max :: "rstr \<Rightarrow> rstr \<Rightarrow> nat \<Rightarrow> unit campaign_result" where
  "check_max field s m =
     (if char_count s > m then Inl (E_TooLong (field @ '': over '' @ show_nat m @ '' chars''))
      else Inr ())"

definition check_len :: "rstr \<Rightarrow> rstr \<Rightarrow> nat \<Rightarrow> unit campaign_result" where
  "check_len field s m =
     (if s = [] then Inl (E_Invalid (field @ '': must not be empty''))
      else check_max field s m)"

definition screen :: "(rstr \<Rightarrow> rstr) \<Rightarrow> rstr \<Rightarrow> rstr \<Rightarrow> unit campaign_result" where
  "screen lower field s =
     (case scan_for_injection lower s of
        Some marker \<Rightarrow> Inl (E_Invalid (field @ '': rejected ('' @ marker @ '')''))
      | None \<Rightarrow> Inr ())"

definition truncate_chars :: "rstr \<Rightarrow> nat \<Rightarrow> rstr" where
  "truncate_chars s m = concat (take m (str_chars s))"

definition check_list :: "(rstr \<Rightarrow> rstr) \<Rightarrow> rstr \<Rightarrow> rstr list \<Rightarrow> nat \<Rightarrow> nat \<Rightarrow> unit campaign_result" where
  "check_list lower field items max_items max_item =
     (if length items > max_items
      then Inl (E_TooLong (field @ '': over '' @ show_nat max_items @ '' items''))
      else forR (\<lambda>item. bindR (check_len field item max_item) (\<lambda>_. screen lower field item)) items)"

section \<open>Validated values\<close>

definition owner_parse :: "rstr \<Rightarrow> owner campaign_result" where
  "owner_parse s = (if safe_segment s then Inr s
     else Inl (E_Invalid ''owner: must be a non-empty path-safe segment''))"

type_synonym idem_key = rstr

definition idem_key_len :: nat where "idem_key_len = 64"

definition is_hex_lower :: "char \<Rightarrow> bool" where
  "is_hex_lower b \<longleftrightarrow> is_ascii_digit b \<or> CHR ''a'' \<le> b \<and> b \<le> CHR ''f''"

definition idem_key_parse :: "rstr \<Rightarrow> idem_key campaign_result" where
  "idem_key_parse s =
     (if length s = idem_key_len \<and> list_all is_hex_lower s then Inr s
      else Inl (E_Invalid ''idem_key: must be 64 lowercase hex chars''))"

definition hex_digit :: "nat \<Rightarrow> char" where
  "hex_digit d = (if d < 10 then char_of (48 + d) else char_of (87 + d))"

text \<open>\<open>{:016x}\<close> of a 64-bit word.\<close>

definition hex16 :: "nat \<Rightarrow> rstr" where
  "hex16 n = map (\<lambda>k. hex_digit ((n div 16 ^ k) mod 16)) (rev [0..<16])"

definition idem_key_synthetic :: "nat \<Rightarrow> nat \<Rightarrow> nat \<Rightarrow> nat \<Rightarrow> idem_key" where
  "idem_key_synthetic a b c d = hex16 a @ hex16 b @ hex16 c @ hex16 d"

record token_usage =
  tokens_in_raw :: int
  tokens_out_raw :: int

definition clamped :: "token_usage \<Rightarrow> nat \<times> nat" where
  "clamped u = (nat (max (tokens_in_raw u) 0), nat (max (tokens_out_raw u) 0))"

record pr_ref =
  pr_num :: int
  pr_link :: rstr
  pr_branch :: rstr

definition pr_validate :: "pr_ref \<Rightarrow> unit campaign_result" where
  "pr_validate p =
     (if pr_num p < 1 then Inl (E_Invalid ''pr.number: must be positive'')
      else
        bindR (check_max ''pr.url'' (pr_link p) max_pr_url) (\<lambda>_.
        let host = (case strip_prefix ''https://'' (pr_link p) of Some h \<Rightarrow> h | None \<Rightarrow> []);
            h = hd (split_on CHR ''/'' host);
            host_ok = (h \<noteq> [] \<and> list_all (\<lambda>c. case c of
                [b] \<Rightarrow> is_ascii_alnum b \<or> b = CHR ''.'' \<or> b = CHR ''-'' \<or> b = CHR '':'' | _ \<Rightarrow> False)
                (str_chars h))
        in if \<not> host_ok \<or> list_ex (\<lambda>c. is_whitespace c \<or> is_control c) (chars (pr_link p))
           then Inl (E_Invalid ''pr.url: must be an https URL on a forge host'')
           else
             bindR (check_len ''pr.branch'' (pr_branch p) max_branch) (\<lambda>_.
             if list_ex (\<lambda>c. is_whitespace c \<or> is_control c) (chars (pr_branch p))
                \<or> contains ''..'' (pr_branch p) \<or> starts_with ''-'' (pr_branch p)
             then Inl (E_Invalid ''pr.branch: must be a git ref fragment'')
             else Inr ())))"

section \<open>Rows\<close>

record task =
  t_id :: task_id
  t_campaign :: task_id
  t_repo :: int
  t_parent :: "task_id option"
  t_path :: task_path
  t_depth :: nat
  t_ordinal :: nat
  t_kind :: task_kind
  t_state :: task_state
  t_title :: rstr
  t_goal :: rstr
  t_acceptance :: "rstr list"
  t_touches :: "rstr list"
  t_depends_on :: "task_id list"
  t_est_size :: "est_size option"
  t_source_ref :: "rstr option"
  t_policy :: "policy option"
  t_version :: nat
  t_attempts :: nat
  t_claimed_by :: "owner option"
  t_lease_until :: "nat option"
  t_pr_number :: "int option"
  t_pr_url :: "rstr option"
  t_branch :: "rstr option"
  t_superseded_by :: "task_id option"
  t_created_by :: rstr
  t_created_at :: nat
  t_updated_at :: nat

definition is_root :: "task \<Rightarrow> bool" where
  "is_root t \<longleftrightarrow> t_depth t = 0"

record task_event =
  ev_id :: event_id
  ev_task :: task_id
  ev_from :: "task_state option"
  ev_to :: task_state
  ev_actor :: rstr
  ev_version :: nat
  ev_detail :: json
  ev_at :: nat

record task_attempt =
  at_id :: attempt_id
  at_task :: task_id
  at_kind :: attempt_kind
  at_idem :: idem_key
  at_prompt_hash :: rstr
  at_model :: rstr
  at_tokens_in :: nat
  at_tokens_out :: nat
  at_session :: "rstr option"
  at_owner :: "owner option"
  at_outcome :: attempt_outcome
  at_pr_url :: "rstr option"
  at_error :: "rstr option"
  at_started :: nat
  at_ended :: "nat option"

section \<open>Actors\<close>

datatype actor =
    Ac_User user_id | Ac_Model user_id | Ac_Planner | Ac_Attempt attempt_id | Ac_Driver owner
  | Ac_Worker owner | Ac_Reaper | Ac_Poller | Ac_Rollup

fun actor_class_of :: "actor \<Rightarrow> actor_class" where
  "actor_class_of (Ac_User _) = A_User"
| "actor_class_of (Ac_Model _) = A_Model"
| "actor_class_of Ac_Planner = A_Planner"
| "actor_class_of (Ac_Attempt _) = A_Planner"
| "actor_class_of (Ac_Driver _) = A_Driver"
| "actor_class_of (Ac_Worker _) = A_Worker"
| "actor_class_of Ac_Reaper = A_Reaper"
| "actor_class_of Ac_Poller = A_Poller"
| "actor_class_of Ac_Rollup = A_Rollup"

fun actor_render :: "actor \<Rightarrow> rstr" where
  "actor_render (Ac_User u) = ''user:'' @ u"
| "actor_render (Ac_Model u) = ''model:'' @ u"
| "actor_render Ac_Planner = ''planner''"
| "actor_render (Ac_Attempt a) = ''model:'' @ show_int a"
| "actor_render (Ac_Driver o') = ''driver:'' @ o'"
| "actor_render (Ac_Worker o') = ''worker:'' @ o'"
| "actor_render Ac_Reaper = ''reaper''"
| "actor_render Ac_Poller = ''poller''"
| "actor_render Ac_Rollup = ''rollup''"

definition human :: "actor \<Rightarrow> user_id campaign_result" where
  "human a = (case a of Ac_User u \<Rightarrow> Inr u
     | other \<Rightarrow> Inl (E_Denied (''actor: '' @ actor_str (actor_class_of other)
         @ '' is not a human principal'')))"

section \<open>Requests\<close>

record new_campaign =
  nc_repo :: int
  nc_title :: rstr
  nc_goal :: rstr
  nc_source_ref :: "rstr option"
  nc_policy :: "policy option"
  nc_draft :: bool

definition new_campaign_validate :: "new_campaign \<Rightarrow> unit campaign_result" where
  "new_campaign_validate r =
     bindR (check_len ''title'' (nc_title r) max_title) (\<lambda>_.
     bindR (check_len ''goal'' (nc_goal r) max_goal) (\<lambda>_.
     bindR (case nc_source_ref r of Some s \<Rightarrow> check_len ''source_ref'' s max_source_ref
              | None \<Rightarrow> Inr ()) (\<lambda>_.
     bindR (if nc_repo r < 1 then Inl (E_Invalid ''repo_id: must be positive'') else Inr ()) (\<lambda>_.
     (case nc_policy r of Some p \<Rightarrow> policy_validate p | None \<Rightarrow> Inr ())))))"

record child_spec =
  cs_title :: rstr
  cs_goal :: rstr
  cs_acceptance :: "rstr list"
  cs_touches :: "rstr list"
  cs_est_size :: "est_size option"
  cs_depends_on :: "nat list"

definition child_spec_validate :: "(rstr \<Rightarrow> rstr) \<Rightarrow> child_spec \<Rightarrow> rstr \<Rightarrow> unit campaign_result" where
  "child_spec_validate lower c field =
     bindR (check_len (field @ ''.title'') (cs_title c) max_title) (\<lambda>_.
     bindR (screen lower (field @ ''.title'') (cs_title c)) (\<lambda>_.
     bindR (check_len (field @ ''.goal'') (cs_goal c) max_goal) (\<lambda>_.
     bindR (screen lower (field @ ''.goal'') (cs_goal c)) (\<lambda>_.
     bindR (check_list lower (field @ ''.acceptance'') (cs_acceptance c)
              max_acceptance max_acceptance_item) (\<lambda>_.
     check_list lower (field @ ''.touches'') (cs_touches c) max_touches max_touch)))))"

record plan_attempt =
  pa_idem :: idem_key
  pa_prompt_hash :: rstr
  pa_model :: rstr
  pa_tokens :: token_usage

definition plan_attempt_validate :: "plan_attempt \<Rightarrow> unit campaign_result" where
  "plan_attempt_validate a =
     bindR (check_max ''attempt.prompt_hash'' (pa_prompt_hash a) max_prompt_hash) (\<lambda>_.
     check_max ''attempt.model'' (pa_model a) max_model)"

record decomposition =
  dc_parent :: task_id
  dc_expected :: nat
  dc_attempt :: plan_attempt
  dc_children :: "child_spec list"
  dc_reason :: rstr
  dc_confidence :: f32

record mark_leaf_req =
  ml_task :: task_id
  ml_expected :: nat
  ml_attempt :: plan_attempt
  ml_acceptance :: "rstr list"
  ml_touches :: "rstr list"
  ml_est_size :: est_size
  ml_reason :: rstr
  ml_confidence :: f32

datatype plan_close_outcome =
    PC_NeedsInfo rstr | PC_Reject rstr | PC_Error rstr | PC_Injection rstr

record plan_close_req =
  pc_task :: task_id
  pc_expected :: nat
  pc_attempt :: plan_attempt
  pc_outcome :: plan_close_outcome

datatype plan_start_res = PS_Started task nat | PS_Blocked task block_reason

record decomposed_res =
  dr_parent :: task
  dr_children :: "task list"
  dr_attempt :: attempt_id

record claim_request =
  cr_owner :: owner
  cr_limit :: nat
  cr_lease_secs :: int

record claimed_res =
  cl_task :: task
  cl_attempt :: attempt_id

record reaped_res =
  rp_task :: task_id
  rp_from :: task_state
  rp_owner :: owner

record complete_req =
  cp_task :: task_id
  cp_owner :: owner
  cp_pr :: pr_ref
  cp_tokens :: token_usage
  cp_session :: "rstr option"

datatype fail_cause = FC_Error | FC_Timeout

fun fail_outcome :: "fail_cause \<Rightarrow> attempt_outcome" where
  "fail_outcome FC_Error = O_Error"
| "fail_outcome FC_Timeout = O_Timeout"

record fail_req =
  fl_task :: task_id
  fl_owner :: owner
  fl_error :: rstr
  fl_cause :: fail_cause
  fl_tokens :: token_usage
  fl_session :: "rstr option"

datatype review_outcome = RO_Merged | RO_Closed

datatype review_note_kind = RN_AwaitingApproval | RN_PollError rstr

fun review_note_detail :: "review_note_kind \<Rightarrow> json" where
  "review_note_detail RN_AwaitingApproval = J_Obj [(''awaiting_pr_approval'', J_Bool True)]"
| "review_note_detail (RN_PollError text) =
     (let clean = concat (filter (\<lambda>c. c \<noteq> [CHR 0x00]) (str_chars text))
      in J_Obj [(''poll_error'', J_Str (truncate_chars clean max_error))])"

fun review_note_once :: "review_note_kind \<Rightarrow> bool" where
  "review_note_once RN_AwaitingApproval = True"
| "review_note_once (RN_PollError _) = False"

record list_filter =
  lf_repo :: "int option"
  lf_needs_attention :: bool

section \<open>Dependencies of a batch\<close>

definition dep_error :: "nat \<Rightarrow> rstr \<Rightarrow> campaign_error" where
  "dep_error i msg = E_Invalid (''children['' @ show_nat i @ ''].depends_on: '' @ msg)"

definition check_dep_ranges :: "nat \<Rightarrow> (nat \<times> nat list) list \<Rightarrow> unit campaign_result" where
  "check_dep_ranges n ics = forR (\<lambda>(i, deps). forR (\<lambda>d.
     if d < 1 \<or> d > n
     then Inl (dep_error i (''ordinal '' @ show_nat d @ '' is not in this batch''))
     else if d = i + 1 then Inl (dep_error i ''depends on itself'')
     else Inr ()) deps) ics"

text \<open>
  One turn of the drain loop: child \<open>i\<close> is taken off the stack and every child that names it
  loses one pending dependency. \<open>ready\<close> is the \<open>Vec\<close> with its last element in front. \<open>None\<close>
  is a panic of the index or of the subtraction.
\<close>

fun kahn_visit :: "nat \<Rightarrow> nat \<Rightarrow> nat list list \<Rightarrow> nat list \<Rightarrow> nat list \<Rightarrow> (nat list \<times> nat list) option"
where
  "kahn_visit i j [] indeg ready = Some (indeg, ready)"
| "kahn_visit i j (deps # rest) indeg ready =
     (if (i mod 256 + 1) mod 256 \<in> set deps
      then (if j \<ge> length indeg \<or> indeg ! j = 0 then None
            else (let indeg' = indeg[j := indeg ! j - 1]
                  in kahn_visit i (Suc j) rest indeg' (if indeg' ! j = 0 then j # ready else ready)))
      else kahn_visit i (Suc j) rest indeg ready)"

lemma kahn_visit_measure:
  "kahn_visit i j ds indeg ready = Some (indeg', ready') \<Longrightarrow>
    sum_list indeg' + length ready' \<le> sum_list indeg + length ready \<and> length indeg' = length indeg"
proof (induction i j ds indeg ready rule: kahn_visit.induct)
  case (2 i j deps rest indeg ready)
  show ?case
  proof (cases "(i mod 256 + 1) mod 256 \<in> set deps")
    case True
    define indeg1 where "indeg1 = indeg[j := indeg ! j - 1]"
    have ok: "j < length indeg" "0 < indeg ! j"
      using 2 True by (auto split: if_splits)
    have "sum_list indeg1 + 1 = sum_list indeg"
      using ok elem_le_sum_list[of j indeg] by (simp add: indeg1_def sum_list_update)
    moreover have "sum_list indeg' + length ready'
        \<le> sum_list indeg1 + length (if indeg1 ! j = 0 then j # ready else ready)
        \<and> length indeg' = length indeg1"
      using 2 True ok by (simp add: indeg1_def Let_def)
    ultimately show ?thesis by (auto simp: indeg1_def split: if_splits)
  next
    case False
    then show ?thesis using 2 by simp
  qed
qed simp

function kahn_loop :: "nat list list \<Rightarrow> nat list \<Rightarrow> nat list \<Rightarrow> nat \<Rightarrow> nat option" where
  "kahn_loop deps indeg [] drained = Some drained"
| "kahn_loop deps indeg (i # ready) drained =
     (case kahn_visit i 0 deps indeg ready of
        None \<Rightarrow> None
      | Some (indeg', ready') \<Rightarrow> kahn_loop deps indeg' ready' (drained + 1))"
  by pat_completeness auto
termination
  by (relation "measure (\<lambda>(_, indeg, ready, _). sum_list indeg + length ready)")
    (auto dest: kahn_visit_measure)

definition check_deps :: "child_spec list \<Rightarrow> unit campaign_result" where
  "check_deps children =
     (let n = length children;
          deps = map cs_depends_on children
      in bindR (check_dep_ranges n (enumerate 0 deps)) (\<lambda>_.
         let indeg = map length deps;
             ready = rev (filter (\<lambda>i. indeg ! i = 0) [0..<n])
         in (case kahn_loop deps indeg ready 0 of
               None \<Rightarrow> Inl E_Panic
             | Some drained \<Rightarrow>
                 if drained \<noteq> n then Inl (E_Invalid ''children: depends_on has a cycle'')
                 else Inr ())))"

section \<open>Kahn's algorithm drains exactly the acyclic batches\<close>

text \<open>Child \<open>i\<close> must finish before child \<open>j\<close> (both counted from 0).\<close>

definition before_rel :: "nat list list \<Rightarrow> (nat \<times> nat) set" where
  "before_rel ds = {(i, j). j < length ds \<and> i + 1 \<in> set (ds ! j)}"

definition in_batch :: "nat list list \<Rightarrow> bool" where
  "in_batch ds \<longleftrightarrow> (\<forall>j < length ds. \<forall>d \<in> set (ds ! j). 1 \<le> d \<and> d \<le> length ds)"

definition served :: "nat list list \<Rightarrow> nat set \<Rightarrow> nat \<Rightarrow> nat set" where
  "served ds D j = {i \<in> D. i + 1 \<in> set (ds ! j)}"

lemma shift_set: "{j + k | k. P k} = (if P 0 then {j} else {}) \<union> {Suc j + k | k. P (Suc k)}"
  for j :: nat
proof (rule set_eqI)
  fix x
  have "(\<exists>k. x = j + k \<and> P k) \<longleftrightarrow> (x = j \<and> P 0) \<or> (\<exists>k. x = Suc j + k \<and> P (Suc k))"
    by (metis add.right_neutral add_Suc_right add_Suc not0_implies_Suc)
  then show "x \<in> {j + k | k. P k} \<longleftrightarrow> x \<in> (if P 0 then {j} else {}) \<union> {Suc j + k | k. P (Suc k)}"
    by auto
qed

definition kahn_inv :: "nat list list \<Rightarrow> nat set \<Rightarrow> nat list \<Rightarrow> nat list \<Rightarrow> nat \<Rightarrow> bool" where
  "kahn_inv ds D indeg ready drained \<longleftrightarrow>
     length indeg = length ds \<and> D \<subseteq> {..<length ds} \<and> set ready \<subseteq> {..<length ds}
     \<and> D \<inter> set ready = {} \<and> distinct ready \<and> drained = card D
     \<and> (\<forall>j < length ds. indeg ! j + card (served ds D j) = length (ds ! j))
     \<and> (\<forall>j < length ds. indeg ! j = 0 \<longleftrightarrow> j \<in> D \<union> set ready)
     \<and> D \<subseteq> Wellfounded.acc (before_rel ds)"

lemma kahn_visit_closed:
  assumes "i < 255" and "length indeg = j + length rest"
    and "\<forall>k < length rest. i + 1 \<in> set (rest ! k) \<longrightarrow> 0 < indeg ! (j + k)"
  shows "\<exists>indeg' new. kahn_visit i j rest indeg ready = Some (indeg', new @ ready)
    \<and> length indeg' = length indeg
    \<and> (\<forall>k < j. indeg' ! k = indeg ! k)
    \<and> (\<forall>k < length rest. indeg' ! (j + k)
          = (if i + 1 \<in> set (rest ! k) then indeg ! (j + k) - 1 else indeg ! (j + k)))
    \<and> distinct new
    \<and> set new = {j + k | k. k < length rest \<and> i + 1 \<in> set (rest ! k) \<and> indeg ! (j + k) = 1}"
  using assms(2,3)
proof (induction rest arbitrary: j indeg ready)
  case Nil
  then show ?case by simp
next
  case (Cons deps rest)
  define ok where "ok \<longleftrightarrow> i + 1 \<in> set deps"
  define indeg1 where "indeg1 = (if ok then indeg[j := indeg ! j - 1] else indeg)"
  define ready1 where "ready1 = (if ok \<and> indeg ! j = 1 then [j] else [])"
  have j: "j < length indeg" using Cons.prems(1) by simp
  have pos: "ok \<Longrightarrow> 0 < indeg ! j" using Cons.prems(2) by (auto simp: ok_def)
  have i: "(i mod 256 + 1) mod 256 = i + 1" using assms(1) by simp
  have step: "kahn_visit i j (deps # rest) indeg ready
      = kahn_visit i (Suc j) rest indeg1 (ready1 @ ready)"
    using j pos unfolding indeg1_def ready1_def ok_def kahn_visit.simps i Let_def by auto
  have shift: "\<forall>k < length rest. indeg1 ! (Suc j + k) = indeg ! (j + Suc k)"
    by (simp add: indeg1_def)
  have pre: "\<forall>k < length rest. i + 1 \<in> set (rest ! k) \<longrightarrow> 0 < indeg1 ! (Suc j + k)"
    using Cons.prems(2) shift by fastforce
  have len: "length indeg1 = Suc j + length rest" using Cons.prems(1) by (simp add: indeg1_def)
  from Cons.IH[OF len pre, of "ready1 @ ready"] obtain indeg' new where IH:
    "kahn_visit i (Suc j) rest indeg1 (ready1 @ ready) = Some (indeg', new @ ready1 @ ready)"
    "length indeg' = length indeg1" "\<forall>k < Suc j. indeg' ! k = indeg1 ! k"
    "\<forall>k < length rest. indeg' ! (Suc j + k)
        = (if i + 1 \<in> set (rest ! k) then indeg1 ! (Suc j + k) - 1 else indeg1 ! (Suc j + k))"
    "distinct new"
    "set new = {Suc j + k | k. k < length rest \<and> i + 1 \<in> set (rest ! k) \<and> indeg1 ! (Suc j + k) = 1}"
    by (elim exE conjE) (rule that; assumption)
  have nth: "\<forall>k < length (deps # rest). indeg' ! (j + k)
      = (if i + 1 \<in> set ((deps # rest) ! k) then indeg ! (j + k) - 1 else indeg ! (j + k))"
  proof (intro allI impI)
    fix k assume "k < length (deps # rest)"
    then show "indeg' ! (j + k)
      = (if i + 1 \<in> set ((deps # rest) ! k) then indeg ! (j + k) - 1 else indeg ! (j + k))"
      using IH(3,4) shift j by (cases k) (auto simp: indeg1_def ok_def)
  qed
  have set_new: "set (new @ ready1) = {j + k | k. k < length (deps # rest)
      \<and> i + 1 \<in> set ((deps # rest) ! k) \<and> indeg ! (j + k) = 1}" (is "_ = ?R")
  proof -
    define P where "P k \<longleftrightarrow> k < length (deps # rest) \<and> i + 1 \<in> set ((deps # rest) ! k)
        \<and> indeg ! (j + k) = 1" for k
    have "?R = (if P 0 then {j} else {}) \<union> {Suc j + k | k. P (Suc k)}"
      unfolding P_def [symmetric] by (rule shift_set)
    moreover have "P 0 \<longleftrightarrow> ok \<and> indeg ! j = 1" by (simp add: P_def ok_def)
    moreover have "P (Suc k) \<longleftrightarrow> k < length rest \<and> i + 1 \<in> set (rest ! k) \<and> indeg1 ! (Suc j + k) = 1"
      for k using shift by (cases "k < length rest") (simp_all add: P_def)
    then have "{Suc j + k | k. P (Suc k)} = set new"
      using IH(6) by presburger
    ultimately show ?thesis unfolding ready1_def by (cases "ok \<and> indeg ! j = 1") auto
  qed
  have "distinct (new @ ready1)" using IH(5,6) by (auto simp: ready1_def)
  then show ?case
    using step IH(1,2,3) nth set_new
    by (intro exI[of _ indeg'] exI[of _ "new @ ready1"]) (auto simp: indeg1_def)
qed

lemma served_card:
  assumes "finite D" shows "card (served ds D j) \<le> card (set (ds ! j))"
proof -
  have "Suc ` served ds D j \<subseteq> set (ds ! j)" by (auto simp: served_def)
  then have "card (Suc ` served ds D j) \<le> card (set (ds ! j))" by (rule card_mono [rotated]) simp
  then show ?thesis by (simp add: card_image)
qed

lemma served_full:
  assumes "finite D" and "card (served ds D j) = length (ds ! j)"
  shows "distinct (ds ! j) \<and> set (ds ! j) \<subseteq> Suc ` D"
proof -
  have c: "card (set (ds ! j)) = length (ds ! j)"
    using served_card[OF assms(1), of ds j] card_length[of "ds ! j"] assms(2) by linarith
  have "Suc ` served ds D j = set (ds ! j)"
    by (rule card_subset_eq) (use c assms(2) in \<open>auto simp: served_def card_image\<close>)
  then show ?thesis using c card_distinct by (auto simp: served_def)
qed

lemma served_insert:
  assumes "finite D" and "i \<notin> D"
  shows "card (served ds (insert i D) j)
    = card (served ds D j) + (if i + 1 \<in> set (ds ! j) then 1 else 0)"
proof -
  have "served ds (insert i D) j
      = (if i + 1 \<in> set (ds ! j) then insert i (served ds D j) else served ds D j)"
    by (auto simp: served_def)
  then show ?thesis using assms by (auto simp: served_def)
qed

lemma kahn_inv_step:
  assumes inv: "kahn_inv ds D indeg (i # ready) drained" and len: "length ds \<le> 255"
  shows "\<exists>indeg' ready'. kahn_visit i 0 ds indeg ready = Some (indeg', ready')
    \<and> kahn_inv ds (insert i D) indeg' ready' (drained + 1)"
proof -
  have fin: "finite D" and i: "i < length ds" "i \<notin> D" "i \<notin> set ready"
    using inv by (auto simp: kahn_inv_def intro: finite_subset)
  have balance: "\<forall>j < length ds. indeg ! j + card (served ds D j) = length (ds ! j)"
    using inv by (simp add: kahn_inv_def)
  have pos: "\<forall>k < length ds. i + 1 \<in> set (ds ! k) \<longrightarrow> 0 < indeg ! k"
  proof (intro allI impI)
    fix k assume k: "k < length ds" "i + 1 \<in> set (ds ! k)"
    show "0 < indeg ! k"
    proof (rule ccontr)
      assume "\<not> 0 < indeg ! k"
      then have "card (served ds D k) = length (ds ! k)"
        using balance[rule_format, OF k(1)] by simp
      then show False using served_full[OF fin] k i by fastforce
    qed
  qed
  then have pos0: "\<forall>k < length ds. i + 1 \<in> set (ds ! k) \<longrightarrow> 0 < indeg ! (0 + k)" by simp
  have "i < 255" "length indeg = 0 + length ds" using i len inv by (auto simp: kahn_inv_def)
  from kahn_visit_closed[OF this pos0, of ready] obtain indeg' new where v:
    "kahn_visit i 0 ds indeg ready = Some (indeg', new @ ready)" "length indeg' = length indeg"
    "\<forall>k < length ds. indeg' ! (0 + k)
        = (if i + 1 \<in> set (ds ! k) then indeg ! (0 + k) - 1 else indeg ! (0 + k))"
    "distinct new"
    "set new = {0 + k | k. k < length ds \<and> i + 1 \<in> set (ds ! k) \<and> indeg ! (0 + k) = 1}"
    by (elim exE conjE) (rule that; assumption)
  have balance': "indeg' ! j + card (served ds (insert i D) j) = length (ds ! j)"
    if "j < length ds" for j
    using that balance v(3) pos served_insert[OF fin i(2), of ds j] by fastforce
  have zero: "\<forall>j < length ds. indeg ! j = 0 \<longleftrightarrow> j \<in> D \<union> set (i # ready)"
    using inv by (simp add: kahn_inv_def)
  have self: "i + 1 \<notin> set (ds ! j)" if "j \<in> insert i D \<union> set ready" "j < length ds" for j
    using that zero pos by (metis Un_iff insert_iff less_irrefl list.simps(15))
  have zero': "indeg' ! j = 0 \<longleftrightarrow> j \<in> insert i D \<union> set (new @ ready)" if "j < length ds" for j
  proof (cases "i + 1 \<in> set (ds ! j)")
    case True
    then have "j \<notin> insert i D \<union> set ready" using self that by blast
    moreover have "indeg' ! j = 0 \<longleftrightarrow> indeg ! j = 1" using True that v(3) pos by fastforce
    ultimately show ?thesis using True that v(5) by auto
  next
    case False
    then show ?thesis using that v(3,5) zero by auto
  qed
  have acc: "i \<in> Wellfounded.acc (before_rel ds)"
  proof (rule accI)
    fix k assume "(k, i) \<in> before_rel ds"
    then have k: "k + 1 \<in> set (ds ! i)" by (simp add: before_rel_def)
    have "indeg ! i = 0" using zero i by simp
    then have "set (ds ! i) \<subseteq> Suc ` D" using balance i served_full[OF fin] by fastforce
    then have "k \<in> D" using k by auto
    then show "k \<in> Wellfounded.acc (before_rel ds)" using inv by (auto simp: kahn_inv_def)
  qed
  have "new_disjoint": "set new \<inter> (insert i D \<union> set ready) = {}"
    using self v(5) by auto
  have "kahn_inv ds (insert i D) indeg' (new @ ready) (drained + 1)"
    using inv v(2,4,5) i fin acc balance' zero' new_disjoint unfolding kahn_inv_def by auto
  then show ?thesis using v(1) by blast
qed

lemma kahn_loop_inv:
  assumes "kahn_inv ds D indeg ready drained" and "length ds \<le> 255"
  shows "\<exists>D' indeg' d. kahn_loop ds indeg ready drained = Some d \<and> kahn_inv ds D' indeg' [] d"
  using assms
proof (induction ds indeg ready drained arbitrary: D rule: kahn_loop.induct)
  case (1 ds indeg drained)
  then show ?case by auto
next
  case (2 ds indeg i ready drained)
  from kahn_inv_step[OF "2.prems"] obtain indeg' ready' where
    "kahn_visit i 0 ds indeg ready = Some (indeg', ready')"
    "kahn_inv ds (insert i D) indeg' ready' (drained + 1)" by blast
  then show ?case using "2.IH"[of "(indeg', ready')" indeg' ready'] "2.prems"(2) by simp
qed

lemma kahn_inv_init:
  "kahn_inv ds {} (map length ds) (rev (filter (\<lambda>i. map length ds ! i = 0) [0..<length ds])) 0"
  by (auto simp: kahn_inv_def served_def)

lemma before_rel_finite: "in_batch ds \<Longrightarrow> finite (before_rel ds)"
proof -
  assume "in_batch ds"
  then have "before_rel ds \<subseteq> {..<length ds} \<times> {..<length ds}"
    unfolding before_rel_def in_batch_def by (fastforce simp: Suc_le_eq)
  then show "finite (before_rel ds)" by (rule finite_subset) simp
qed

lemma kahn_drained_iff:
  assumes inv: "kahn_inv ds D indeg [] d" and batch: "in_batch ds"
  shows "d = length ds \<longleftrightarrow> acyclic (before_rel ds) \<and> (\<forall>j < length ds. distinct (ds ! j))"
proof
  have fin: "finite D" and D: "D \<subseteq> {..<length ds}" and d: "d = card D"
    using inv by (auto simp: kahn_inv_def intro: finite_subset)
  have balance: "\<forall>j < length ds. indeg ! j + card (served ds D j) = length (ds ! j)"
    and zero: "\<forall>j < length ds. indeg ! j = 0 \<longleftrightarrow> j \<in> D"
    using inv by (simp_all add: kahn_inv_def)
  {
    assume "d = length ds"
    then have all: "D = {..<length ds}" using d D by (simp add: card_subset_eq)
    have "x \<in> Wellfounded.acc (before_rel ds)" for x
    proof (cases "x < length ds")
      case True
      then show ?thesis using inv all by (auto simp: kahn_inv_def)
    next
      case False
      then have "(y, x) \<notin> before_rel ds" for y by (simp add: before_rel_def)
      then show ?thesis using accI[of x "before_rel ds"] by blast
    qed
    then have "wf (before_rel ds)" by (simp add: wf_iff_acc)
    moreover have "distinct (ds ! j)" if "j < length ds" for j
      using that all zero balance[rule_format, OF that] served_full[OF fin, of ds j] by simp
    ultimately show "acyclic (before_rel ds) \<and> (\<forall>j < length ds. distinct (ds ! j))"
      by (simp add: wf_acyclic)
  }
  {
    assume ok: "acyclic (before_rel ds) \<and> (\<forall>j < length ds. distinct (ds ! j))"
    have wf: "wf (before_rel ds)" using ok before_rel_finite[OF batch] by (simp add: finite_acyclic_wf)
    have "j < length ds \<longrightarrow> j \<in> D" for j
    proof (induction j rule: wf_induct_rule[OF wf])
      case (1 j)
      show ?case
      proof
        assume j: "j < length ds"
        have "set (ds ! j) \<subseteq> Suc ` served ds D j"
        proof
          fix x assume x: "x \<in> set (ds ! j)"
          then have "1 \<le> x" "x \<le> length ds" using batch j by (auto simp: in_batch_def)
          then have x1: "x = (x - 1) + 1" "x - 1 < length ds" by linarith+
          then have "(x - 1, j) \<in> before_rel ds" using x j by (simp add: before_rel_def)
          then have "x - 1 \<in> D" using 1 x1 by blast
          then show "x \<in> Suc ` served ds D j" using x x1 by (auto simp: served_def image_iff)
        qed
        then have "card (set (ds ! j)) \<le> card (served ds D j)"
        proof -
          have f: "finite (served ds D j)" using fin by (simp add: served_def)
          show ?thesis
            using card_mono[OF finite_imageI[OF f] \<open>set (ds ! j) \<subseteq> Suc ` served ds D j\<close>]
              card_image_le[OF f, of Suc] by linarith
        qed
        then have "length (ds ! j) \<le> card (served ds D j)"
          using ok j distinct_card[of "ds ! j"] by simp
        then have "indeg ! j = 0" using balance[rule_format, OF j] by linarith
        then show "j \<in> D" using zero j by blast
      qed
    qed
    then have "D = {..<length ds}" using D by auto
    then show "d = length ds" using d by simp
  }
qed

lemma ball_enumerate:
  "(\<forall>(i, x) \<in> set (enumerate 0 xs). P i x) \<longleftrightarrow> (\<forall>j < length xs. P j (xs ! j))"
proof
  assume all: "\<forall>(i, x) \<in> set (enumerate 0 xs). P i x"
  show "\<forall>j < length xs. P j (xs ! j)"
  proof (intro allI impI)
    fix j assume "j < length xs"
    then have "(j, xs ! j) \<in> set (enumerate 0 xs)" by (simp add: in_set_enumerate_eq)
    then show "P j (xs ! j)" using all by blast
  qed
qed (auto simp: in_set_enumerate_eq)

lemma check_dep_ranges_ok:
  "check_dep_ranges (length ds) (enumerate 0 ds) = Inr () \<longleftrightarrow>
    in_batch ds \<and> (\<forall>j < length ds. j + 1 \<notin> set (ds ! j))"
proof -
  have "check_dep_ranges (length ds) (enumerate 0 ds) = Inr () \<longleftrightarrow>
      (\<forall>(i, deps) \<in> set (enumerate 0 ds). \<forall>d \<in> set deps. 1 \<le> d \<and> d \<le> length ds \<and> d \<noteq> i + 1)"
  proof -
    have "(case e of (i, deps) \<Rightarrow> forR (\<lambda>d.
        if d < 1 \<or> d > length ds
        then Inl (dep_error i (''ordinal '' @ show_nat d @ '' is not in this batch''))
        else if d = i + 1 then Inl (dep_error i ''depends on itself'')
        else Inr ()) deps) = Inr () \<longleftrightarrow>
        (case e of (i, deps) \<Rightarrow> \<forall>d \<in> set deps. 1 \<le> d \<and> d \<le> length ds \<and> d \<noteq> i + 1)"
      for e :: "nat \<times> nat list"
    proof (cases e)
      case (Pair i deps)
      show ?thesis
        unfolding Pair prod.case forR_Inr by (rule ball_cong [OF refl]) (simp add: not_less)
    qed
    then show ?thesis unfolding check_dep_ranges_def forR_Inr by (rule ball_cong [OF refl])
  qed
  also have "\<dots> \<longleftrightarrow> (\<forall>j < length ds. \<forall>d \<in> set (ds ! j). 1 \<le> d \<and> d \<le> length ds \<and> d \<noteq> j + 1)"
    by (rule ball_enumerate)
  also have "\<dots> \<longleftrightarrow> in_batch ds \<and> (\<forall>j < length ds. j + 1 \<notin> set (ds ! j))"
    unfolding in_batch_def by (metis)
  finally show ?thesis .
qed

lemma check_deps_in_batch: "check_deps cs = Inr () \<Longrightarrow> in_batch (map cs_depends_on cs)"
  using check_dep_ranges_ok[of "map cs_depends_on cs"]
  by (auto simp: check_deps_def Let_def result_simps)

text \<open>What a batch must satisfy: entries name other children, none twice, and no cycle.\<close>

definition batch_ok :: "child_spec list \<Rightarrow> bool" where
  "batch_ok cs \<longleftrightarrow> (let ds = map cs_depends_on cs in
     in_batch ds \<and> (\<forall>j < length ds. j + 1 \<notin> set (ds ! j) \<and> distinct (ds ! j))
     \<and> acyclic (before_rel ds))"

lemma check_deps_kahn:
  assumes "length cs \<le> 255" and "in_batch (map cs_depends_on cs)"
    and "\<forall>j < length cs. j + 1 \<notin> set (map cs_depends_on cs ! j)"
  shows "\<exists>d D indeg. kahn_inv (map cs_depends_on cs) D indeg [] d \<and>
    check_deps cs = (if d \<noteq> length cs then Inl (E_Invalid ''children: depends_on has a cycle'') else Inr ())"
proof -
  let ?ds = "map cs_depends_on cs"
  obtain D indeg d where k: "kahn_loop ?ds (map length ?ds)
      (rev (filter (\<lambda>i. map length ?ds ! i = 0) [0..<length ?ds])) 0 = Some d"
      "kahn_inv ?ds D indeg [] d"
    using kahn_loop_inv[OF kahn_inv_init, of ?ds] assms(1) by auto
  have "check_dep_ranges (length cs) (enumerate 0 ?ds) = Inr ()"
    using check_dep_ranges_ok[of ?ds] assms(2,3) by simp
  then show ?thesis using k by (auto simp: check_deps_def Let_def)
qed

text \<open>
  Property C36: a dependency batch (of at most 255 children) is accepted exactly when every entry
  names another child of the batch, no entry is repeated and the dependencies are acyclic; no
  other outcome of the check, a counter underflow in particular, is a success.
\<close>

theorem check_deps_accepts:
  assumes "length cs \<le> 255"
  shows "check_deps cs = Inr () \<longleftrightarrow> batch_ok cs"
proof (cases "check_dep_ranges (length cs) (enumerate 0 (map cs_depends_on cs)) = Inr ()")
  case True
  then have r: "in_batch (map cs_depends_on cs)"
      "\<forall>j < length cs. j + 1 \<notin> set (map cs_depends_on cs ! j)"
    using check_dep_ranges_ok[of "map cs_depends_on cs"] by simp_all
  from check_deps_kahn[OF assms r] obtain d D indeg where
    k: "kahn_inv (map cs_depends_on cs) D indeg [] d"
    and c: "check_deps cs = (if d \<noteq> length cs
      then Inl (E_Invalid ''children: depends_on has a cycle'') else Inr ())" by blast
  have "check_deps cs = Inr () \<longleftrightarrow> d = length cs" unfolding c by simp
  then show ?thesis
    using kahn_drained_iff[OF k r(1)] r by (auto simp: batch_ok_def Let_def)
next
  case False
  then have "\<not> batch_ok cs"
    using check_dep_ranges_ok[of "map cs_depends_on cs"] by (auto simp: batch_ok_def Let_def)
  moreover have "check_deps cs \<noteq> Inr ()"
    using False by (auto simp: check_deps_def Let_def result_simps)
  ultimately show ?thesis by blast
qed

theorem check_deps_accepts_witness:
  defines "child \<equiv> (\<lambda>ds. \<lparr>cs_title = ''t'', cs_goal = ''g'', cs_acceptance = [], cs_touches = [],
      cs_est_size = None, cs_depends_on = ds\<rparr>)"
  shows "batch_ok [child [2, 3], child [3], child []] \<and> \<not> batch_ok [child [2], child [1]]"
proof -
  have "check_deps [child [2, 3], child [3], child []] = Inr ()" "check_deps [child [2], child [1]] \<noteq> Inr ()"
    unfolding child_def by code_simp+
  then show ?thesis
    using check_deps_accepts[of "[child [2, 3], child [3], child []]"]
      check_deps_accepts[of "[child [2], child [1]]"] by simp
qed

text \<open>A repeated entry is refused as a cycle although the batch has none.\<close>

lemma check_deps_repeated:
  "check_deps [\<lparr>cs_title = ''t'', cs_goal = ''g'', cs_acceptance = [], cs_touches = [],
      cs_est_size = None, cs_depends_on = []\<rparr>,
     \<lparr>cs_title = ''t'', cs_goal = ''g'', cs_acceptance = [], cs_touches = [],
      cs_est_size = None, cs_depends_on = [1, 1]\<rparr>]
   = Inl (E_Invalid ''children: depends_on has a cycle'')"
  by code_simp

section \<open>Idempotency keys\<close>

lemma hex_digit_lower: "d < 16 \<Longrightarrow> is_hex_lower (hex_digit d)"
  by (auto simp: is_hex_lower_def ascii_digit_iff hex_digit_def less_eq_char_def)

lemma hex_digit_inj: "d < 16 \<Longrightarrow> e < 16 \<Longrightarrow> hex_digit d = hex_digit e \<Longrightarrow> d = e"
proof -
  assume d: "d < 16" and e: "e < 16" and eq: "hex_digit d = hex_digit e"
  have "of_char (hex_digit n) = (if n < 10 then 48 + n else 87 + n)" if "n < 16" for n
    using that by (simp add: hex_digit_def)
  then show "d = e" using d e arg_cong[OF eq, of "of_char :: char \<Rightarrow> nat"] by (simp split: if_splits)
qed

lemma hex16_digits: "length (hex16 n) = 16 \<and> list_all is_hex_lower (hex16 n)"
  by (simp add: hex16_def list_all_iff hex_digit_lower)

lemma digits_determine:
  "m < b ^ k \<Longrightarrow> n < b ^ k \<Longrightarrow> (\<forall>i < k. m div b ^ i mod b = n div b ^ i mod b) \<Longrightarrow> m = (n::nat)"
proof (induction k arbitrary: m n)
  case (Suc k)
  have "m mod b = n mod b" using Suc.prems(3) by fastforce
  moreover have "m div b = n div b"
  proof (rule Suc.IH)
    show "m div b < b ^ k" "n div b < b ^ k"
      using Suc.prems(1,2) by (simp_all add: less_mult_imp_div_less mult.commute)
    show "\<forall>i < k. m div b div b ^ i mod b = n div b div b ^ i mod b"
      using Suc.prems(3) by (auto simp: div_mult2_eq[symmetric] dest: spec[of _ "Suc _"])
  qed
  ultimately show ?case by (metis div_mult_mod_eq)
qed simp

lemma hex16_inj:
  assumes "m \<le> u64_max" "n \<le> u64_max" "hex16 m = hex16 n"
  shows "m = n"
proof (rule digits_determine)
  show "m < 16 ^ 16" "n < 16 ^ 16" using assms(1,2) by (simp_all add: u64_max_def)
  show "\<forall>i < 16. m div 16 ^ i mod 16 = n div 16 ^ i mod 16"
    using assms(3) by (auto simp: hex16_def intro: hex_digit_inj)
qed

text \<open>
  A store-minted idempotency key is well formed, and distinct word quadruples get
  distinct keys.
\<close>

theorem idem_key_synthetic_sound:
  assumes "a \<le> u64_max" "b \<le> u64_max" "c \<le> u64_max" "d \<le> u64_max"
    and "a' \<le> u64_max" "b' \<le> u64_max" "c' \<le> u64_max" "d' \<le> u64_max"
  shows "idem_key_parse (idem_key_synthetic a b c d) = Inr (idem_key_synthetic a b c d) \<and>
    (idem_key_synthetic a b c d = idem_key_synthetic a' b' c' d' \<longleftrightarrow> (a, b, c, d) = (a', b', c', d'))"
  using assms hex16_digits hex16_inj
  by (auto simp: idem_key_parse_def idem_key_synthetic_def idem_key_len_def)

theorem idem_key_synthetic_sound_witness:
  "idem_key_synthetic 7 1 1700000000000 3 \<noteq> idem_key_synthetic 7 2 1700000000000 3"
  using idem_key_synthetic_sound[of 7 1 1700000000000 3 7 2 1700000000000 3]
  by (simp add: u64_max_def)

end
