(* ===== verification/Campaign_Store.thy ===== *)
theory Campaign_Store
  imports Campaign
begin

text \<open>
  The in-memory campaign store, \<open>crates/agent-testkit/src/campaign/mem.rs\<close>: one state with
  every tenant's rows, and each protocol of the seam as one all-or-nothing transaction over a
  clone of it. A protocol is written in the state-and-error monad over the transaction record
  (candidate state, tenant, clock reading, events to publish); \<open>run_tx\<close> is
  \<open>MemCampaigns::tx\<close>. Identities and versions are unbounded here (the code's counters are
  64 bits wide and only ever count up by one). Unicode lower-casing stays the parameter
  \<open>lower\<close>.
\<close>

section \<open>State and transactions\<close>

type_synonym tenant_id = rstr
type_synonym row_key = "tenant_id \<times> int"

record mem_state =
  next_task_id :: int
  next_event_id :: int
  next_attempt_id :: int
  tenants :: "tenant_id set"
  tasks :: "(row_key \<times> task) list"
  events :: "(row_key \<times> task_event) list"
  attempts :: "(row_key \<times> task_attempt) list"
  idem :: "(tenant_id \<times> rstr) set"

definition empty_state :: mem_state where
  "empty_state = \<lparr>next_task_id = 0, next_event_id = 0, next_attempt_id = 0, tenants = {},
     tasks = [], events = [], attempts = [], idem = {}\<rparr>"

record tx =
  st :: mem_state
  tx_tenant :: tenant_id
  tx_now :: nat
  pending :: "(task_id \<times> task_event) list"

type_synonym 'a op = "(tx, campaign_error, 'a) stm"

text \<open>The outcome of a transaction: the answer, the committed state, the events handed to the
  sink (one entry per \<open>sink.emit\<close>).\<close>

definition tx_start :: "mem_state \<Rightarrow> tenant_id \<Rightarrow> nat \<Rightarrow> tx" where
  "tx_start m tenant now = \<lparr>st = m, tx_tenant = tenant, tx_now = now, pending = []\<rparr>"

definition run_tx :: "tenant_id \<Rightarrow> nat \<Rightarrow> 'a op \<Rightarrow> mem_state \<Rightarrow>
    'a campaign_result \<times> mem_state \<times> (tenant_id \<times> task_id \<times> task_event) list" where
  "run_tx tenant now f m =
     (case f (tx_start m tenant now) of
        Inl e \<Rightarrow> (Inl e, m, [])
      | Inr (out, s) \<Rightarrow> (Inr out, st s, map (\<lambda>(campaign, event). (tenant, campaign, event)) (pending s)))"

definition with_tenant :: "rstr \<Rightarrow> tenant_id campaign_result" where
  "with_tenant tenant =
     (if \<not> safe_segment tenant
      then Inl (E_Invalid ''tenant: must be a non-empty path-safe segment'') else Inr tenant)"

section \<open>Reading rows\<close>

definition key :: "tx \<Rightarrow> int \<Rightarrow> row_key" where
  "key s i = (tx_tenant s, i)"

definition task_at :: "tx \<Rightarrow> task_id \<Rightarrow> task option" where
  "task_at s i = map_of (tasks (st s)) (key s i)"

definition get_task :: "task_id \<Rightarrow> task op" where
  "get_task i = (\<lambda>s. case task_at s i of None \<Rightarrow> Inl E_NotFound | Some t \<Rightarrow> Inr (t, s))"

definition put_task :: "task_id \<Rightarrow> task \<Rightarrow> tx \<Rightarrow> tx" where
  "put_task i t s = s\<lparr>st := (st s)\<lparr>tasks := bt_insert (key s i) t (tasks (st s))\<rparr>\<rparr>"

text \<open>\<open>task_mut\<close> followed by writes through the reference.\<close>

definition mod_task :: "task_id \<Rightarrow> (task \<Rightarrow> task) \<Rightarrow> task op" where
  "mod_task i f = (\<lambda>s. case task_at s i of None \<Rightarrow> Inl E_NotFound
     | Some t \<Rightarrow> Inr (f t, put_task i (f t) s))"

definition tenant_tasks :: "tx \<Rightarrow> task list" where
  "tenant_tasks s = map snd (filter (\<lambda>e. fst (fst e) = tx_tenant s) (tasks (st s)))"

definition children_of :: "tx \<Rightarrow> task_id \<Rightarrow> task list" where
  "children_of s p = sort_key t_ordinal (filter (\<lambda>t. t_parent t = Some p) (tenant_tasks s))"

definition depth_path :: "task \<Rightarrow> nat \<times> rstr" where
  "depth_path t = (t_depth t, raw (t_path t))"

definition campaign_path :: "task \<Rightarrow> int \<times> rstr" where
  "campaign_path t = (t_campaign t, raw (t_path t))"

definition subtree_of :: "tx \<Rightarrow> task \<Rightarrow> task list" where
  "subtree_of s node = sort_key depth_path
     (filter (\<lambda>t. t_id t = t_id node \<or> is_ancestor_of (t_path node) (t_path t)) (tenant_tasks s))"

definition policy_of :: "task_id \<Rightarrow> policy op" where
  "policy_of c = bindM (get_task c) (\<lambda>root.
     retM (case t_policy root of Some p \<Rightarrow> p | None \<Rightarrow> default_policy))"

definition campaign_nodes :: "tx \<Rightarrow> task_id \<Rightarrow> nat" where
  "campaign_nodes s c = length (filter (\<lambda>t. t_campaign t = c) (tenant_tasks s))"

definition campaign_plan_tokens :: "tx \<Rightarrow> task_id \<Rightarrow> nat" where
  "campaign_plan_tokens s c =
     (let ids = map t_id (filter (\<lambda>t. t_campaign t = c) (tenant_tasks s))
      in fold (\<lambda>n acc. sat_add64 acc n)
           (map (\<lambda>(_, a). sat_add64 (at_tokens_in a) (at_tokens_out a))
             (filter (\<lambda>((tn, _), a). tn = tx_tenant s \<and> at_kind a = T_Decompose
                \<and> at_task a \<in> set ids) (attempts (st s)))) 0)"

section \<open>Writing rows\<close>

definition log_event :: "task_id \<Rightarrow> task_state option \<Rightarrow> task_state \<Rightarrow> actor \<Rightarrow> nat \<Rightarrow> json \<Rightarrow> tx \<Rightarrow> tx" where
  "log_event i from to a version detail s =
     (let m = st s;
         eid = next_event_id m + 1;
         e = \<lparr>ev_id = eid, ev_task = i, ev_from = from, ev_to = to, ev_actor = actor_render a,
              ev_version = version, ev_detail = detail, ev_at = tx_now s\<rparr>;
         campaign = (case task_at s i of None \<Rightarrow> i | Some t \<Rightarrow> t_campaign t)
     in s\<lparr>st := m\<lparr>next_event_id := eid, events := bt_insert (tx_tenant s, eid) e (events m)\<rparr>,
          pending := pending s @ [(campaign, e)]\<rparr>)"

definition emit_event :: "task_id \<Rightarrow> task_state option \<Rightarrow> task_state \<Rightarrow> actor \<Rightarrow> nat \<Rightarrow> json \<Rightarrow> unit op" where
  "emit_event i from to a version detail = modM (log_event i from to a version detail)"

definition arrow :: rstr where
  "arrow = '' '' @ [CHR 0xE2, CHR 0x86, CHR 0x92] @ '' ''"

definition denied_msg :: "task \<Rightarrow> task_state \<Rightarrow> actor \<Rightarrow> rstr" where
  "denied_msg t to a = state_str (t_state t) @ arrow @ state_str to @ '' on a ''
     @ kind_str (t_kind t) @ '' by '' @ actor_str (actor_class_of a)"

definition moved :: "nat \<Rightarrow> task_state \<Rightarrow> task \<Rightarrow> task" where
  "moved now to t =
     (let t' = t\<lparr>t_state := to, t_version := t_version t + 1, t_updated_at := now\<rparr>
      in if is_leased to then t' else t'\<lparr>t_claimed_by := None, t_lease_until := None\<rparr>)"

definition transition :: "task_id \<Rightarrow> task_state \<Rightarrow> actor \<Rightarrow> json \<Rightarrow> task op" where
  "transition i to a detail =
     bindM (get_task i) (\<lambda>t.
     if \<not> allowed (t_state t) to (t_kind t) (actor_class_of a) then failM (E_Denied (denied_msg t to a))
     else
       bindM (getsM tx_now) (\<lambda>now.
       bindM (mod_task i (moved now to)) (\<lambda>snapshot.
       bindM (emit_event i (Some (t_state t)) to a (t_version snapshot) detail) (\<lambda>_.
       retM snapshot))))"

definition insert_attempt :: "task_id \<Rightarrow> attempt_kind \<Rightarrow> idem_key \<Rightarrow> owner option \<Rightarrow> attempt_outcome \<Rightarrow>
    attempt_id op" where
  "insert_attempt i k ik own outcome = (\<lambda>s.
     let m = st s; uk = (tx_tenant s, ik)
     in if uk \<in> idem m then Inl E_AlreadyApplied
        else
          (let aid = next_attempt_id m + 1;
               row = \<lparr>at_id = aid, at_task = i, at_kind = k, at_idem = ik, at_prompt_hash = [],
                      at_model = [], at_tokens_in = 0, at_tokens_out = 0, at_session = None,
                      at_owner = own, at_outcome = outcome, at_pr_url = None, at_error = None,
                      at_started = tx_now s, at_ended = None\<rparr>
           in Inr (aid, s\<lparr>st := m\<lparr>idem := insert uk (idem m), next_attempt_id := aid,
                attempts := bt_insert (tx_tenant s, aid) row (attempts m)\<rparr>\<rparr>)))"

definition plan_attempt_row :: "task_id \<Rightarrow> plan_attempt \<Rightarrow> attempt_outcome \<Rightarrow> rstr option \<Rightarrow> attempt_id op"
where
  "plan_attempt_row i pa outcome err =
     bindM (liftM (plan_attempt_validate pa)) (\<lambda>_.
     bindM (insert_attempt i T_Decompose (pa_idem pa) None outcome) (\<lambda>aid.
     bindM (modM (\<lambda>s. let m = st s; (tin, tout) = clamped (pa_tokens pa)
        in case map_of (attempts m) (tx_tenant s, aid) of
             None \<Rightarrow> s
           | Some row \<Rightarrow> s\<lparr>st := m\<lparr>attempts := bt_insert (tx_tenant s, aid)
               (row\<lparr>at_prompt_hash := pa_prompt_hash pa, at_model := pa_model pa,
                  at_tokens_in := tin, at_tokens_out := tout, at_error := err,
                  at_ended := Some (tx_now s)\<rparr>) (attempts m)\<rparr>\<rparr>)) (\<lambda>_.
     retM aid)))"

definition open_work :: "task_id \<Rightarrow> owner option \<Rightarrow> task_attempt \<Rightarrow> bool" where
  "open_work i own a \<longleftrightarrow> at_task a = i \<and> at_kind a = T_Work \<and> at_outcome a = O_Pending
     \<and> (case own of None \<Rightarrow> True | Some o' \<Rightarrow> at_owner a = Some o')"

definition close_work :: "task_id \<Rightarrow> owner option \<Rightarrow> attempt_outcome \<Rightarrow>
    (task_attempt \<Rightarrow> task_attempt) \<Rightarrow> unit op" where
  "close_work i own outcome patch = modM (\<lambda>s.
     s\<lparr>st := (st s)\<lparr>attempts := map (\<lambda>((tn, aid), a).
        if tn = tx_tenant s \<and> open_work i own a
        then ((tn, aid), patch (a\<lparr>at_outcome := outcome, at_ended := Some (tx_now s)\<rparr>))
        else ((tn, aid), a)) (attempts (st s))\<rparr>\<rparr>)"

definition block_dependents :: "task \<Rightarrow> unit op" where
  "block_dependents leaf =
     (case t_parent leaf of
        None \<Rightarrow> retM ()
      | Some parent \<Rightarrow>
          bindM (getsM (\<lambda>s. children_of s parent)) (\<lambda>sibs.
          bindM (mapM (\<lambda>sib.
              transition (t_id sib) S_Blocked Ac_Rollup
                (json_obj [(''reason'', J_Str (block_reason_str B_DependencyFailed)),
                           (''dependency'', J_Int (t_id leaf))]))
            (filter (\<lambda>sib. t_state sib = S_Ready \<and> t_id leaf \<in> set (t_depends_on sib)) sibs)) (\<lambda>_.
          retM ())))"

text \<open>
  The rollup pass. The fuel stands for the loop's running on; running out of it is a panic,
  and the lemmas show one more than the tree's depth is never used up.
\<close>

fun rollup_from :: "nat \<Rightarrow> task_id option \<Rightarrow> unit op" where
  "rollup_from fuel None = retM ()"
| "rollup_from 0 (Some i) = failM E_Panic"
| "rollup_from (Suc fuel) (Some i) =
     bindM (get_task i) (\<lambda>p.
     bindM (getsM (\<lambda>s. map t_state (children_of s i))) (\<lambda>states.
     (case rollup (t_state p) states of
        Some next \<Rightarrow>
          bindM (transition i next Ac_Rollup (json_obj [])) (\<lambda>_.
          rollup_from fuel (t_parent p))
      | None \<Rightarrow> retM ())))"

definition rollup_fuel :: nat where "rollup_fuel = 8"

definition rollup_up :: "task_id option \<Rightarrow> unit op" where
  "rollup_up parent = rollup_from rollup_fuel parent"

definition state_conflict :: "task_state \<Rightarrow> task_state \<Rightarrow> campaign_error" where
  "state_conflict expected found =
     E_Conflict (''state: expected '' @ state_str expected @ '', found '' @ state_str found)"

definition require_state :: "task \<Rightarrow> task_state \<Rightarrow> unit op" where
  "require_state t s = (if t_state t \<noteq> s then failM (state_conflict s (t_state t)) else retM ())"

definition cas :: "task \<Rightarrow> nat \<Rightarrow> task_state \<Rightarrow> unit op" where
  "cas t expected s =
     (if t_version t \<noteq> expected
      then failM (E_Conflict (''version: expected '' @ show_nat expected @ '', found ''
        @ show_nat (t_version t)))
      else require_state t s)"

definition session_ok :: "rstr option \<Rightarrow> unit campaign_result" where
  "session_ok s = (case s of Some v \<Rightarrow> check_len ''session_id'' v max_session_id | None \<Rightarrow> Inr ())"

definition idem_fresh :: "idem_key \<Rightarrow> unit op" where
  "idem_fresh ik = (\<lambda>s. if (tx_tenant s, ik) \<in> idem (st s) then Inl E_AlreadyApplied else Inr ((), s))"

definition fresh_task_id :: "task_id op" where
  "fresh_task_id = (\<lambda>s. let i = next_task_id (st s) + 1
     in Inr (i, s\<lparr>st := (st s)\<lparr>next_task_id := i\<rparr>\<rparr>))"

definition lift_path :: "path_error + 'a \<Rightarrow> 'a op" where
  "lift_path r = liftM (case r of Inl e \<Rightarrow> Inl (path_campaign_error e) | Inr a \<Rightarrow> Inr a)"

section \<open>(a) create\<close>

definition new_root :: "new_campaign \<Rightarrow> task_id \<Rightarrow> task_path \<Rightarrow> policy \<Rightarrow> user_id \<Rightarrow> nat \<Rightarrow> task" where
  "new_root req i path pol who now =
     \<lparr>t_id = i, t_campaign = i, t_repo = nc_repo req, t_parent = None, t_path = path,
      t_depth = 0, t_ordinal = 1, t_kind = K_Objective,
      t_state = (if nc_draft req then S_Draft else S_Ready),
      t_title = nc_title req, t_goal = nc_goal req, t_acceptance = [], t_touches = [],
      t_depends_on = [], t_est_size = None, t_source_ref = nc_source_ref req,
      t_policy = Some pol, t_version = 1, t_attempts = 0, t_claimed_by = None,
      t_lease_until = None, t_pr_number = None, t_pr_url = None, t_branch = None,
      t_superseded_by = None, t_created_by = actor_render (Ac_User who),
      t_created_at = now, t_updated_at = now\<rparr>"

definition create :: "(rstr \<Rightarrow> rstr) \<Rightarrow> new_campaign \<Rightarrow> actor \<Rightarrow> task op" where
  "create lower req a =
     bindM (liftM (human a)) (\<lambda>who.
     bindM (liftM (new_campaign_validate req)) (\<lambda>_.
     let policy = (case nc_policy req of Some p \<Rightarrow> p | None \<Rightarrow> default_policy) in
     bindM (modM (\<lambda>s. s\<lparr>st := (st s)\<lparr>tenants := insert (tx_tenant s) (tenants (st s))\<rparr>\<rparr>)) (\<lambda>_.
     bindM fresh_task_id (\<lambda>i.
     let injection = (scan_for_injection lower (nc_goal req) \<noteq> None) in
     bindM (lift_path (root_path i)) (\<lambda>path.
     bindM (getsM tx_now) (\<lambda>now.
     let t = new_root req i path policy who now in
     bindM (modM (put_task i t)) (\<lambda>_.
     bindM (emit_event i None (t_state t) (Ac_User who) 1
        (json_obj ([(''source_ref'', case nc_source_ref req of Some r \<Rightarrow> J_Str r | None \<Rightarrow> J_Null)]
          @ (if injection then [(''injection'', J_Bool True)] else [])))) (\<lambda>_.
     retM t))))))))"

section \<open>(b) plan\<close>

definition u64_of_i64 :: "int \<Rightarrow> nat" where
  "u64_of_i64 i = (if i < 0 then u64_max else nat i)"

definition plan_start :: "task_id \<Rightarrow> plan_start_res op" where
  "plan_start i =
     bindM (get_task i) (\<lambda>t.
     if t_kind t = K_Leaf then failM (E_Denied ''plan_start: a leaf is never planned'')
     else
       bindM (require_state t S_Ready) (\<lambda>_.
       bindM (policy_of (t_campaign t)) (\<lambda>policy.
       bindM (getsM (\<lambda>s. campaign_plan_tokens s (t_campaign t))) (\<lambda>tokens.
       let blocked = (if int (t_attempts t) \<ge> max_plan_attempts policy then Some B_AttemptsExhausted
                      else if tokens \<ge> u64_of_i64 (max_plan_tokens policy) then Some B_TokenCap
                      else None)
       in (case blocked of
             Some reason \<Rightarrow>
               bindM (transition i S_Blocked Ac_Planner
                 (json_obj [(''reason'', J_Str (block_reason_str reason))])) (\<lambda>t'.
               bindM (rollup_up (t_parent t)) (\<lambda>_.
               retM (PS_Blocked t' reason)))
           | None \<Rightarrow>
               bindM (transition i S_Decomposing Ac_Planner (json_obj [])) (\<lambda>t'.
               retM (PS_Started t' (t_version t'))))))))"

definition child_row :: "task \<Rightarrow> nat \<Rightarrow> task_state \<Rightarrow> actor \<Rightarrow> child_spec \<Rightarrow> task_id \<Rightarrow> task_path \<Rightarrow> nat \<Rightarrow>
    nat \<Rightarrow> task" where
  "child_row parent depth state a c i path ordinal now =
     \<lparr>t_id = i, t_campaign = t_campaign parent, t_repo = t_repo parent,
      t_parent = Some (t_id parent), t_path = path, t_depth = depth, t_ordinal = ordinal,
      t_kind = K_Task, t_state = state, t_title = cs_title c, t_goal = cs_goal c,
      t_acceptance = cs_acceptance c, t_touches = cs_touches c, t_depends_on = [],
      t_est_size = cs_est_size c, t_source_ref = None, t_policy = None, t_version = 1,
      t_attempts = 0, t_claimed_by = None, t_lease_until = None, t_pr_number = None,
      t_pr_url = None, t_branch = None, t_superseded_by = None, t_created_by = actor_render a,
      t_created_at = now, t_updated_at = now\<rparr>"

definition insert_child :: "task \<Rightarrow> nat \<Rightarrow> task_state \<Rightarrow> actor \<Rightarrow> nat \<Rightarrow> nat \<times> child_spec \<Rightarrow> task_id op"
where
  "insert_child parent depth state a max_ord ic =
     (let ordinal = max_ord + fst ic + 1 in
      bindM fresh_task_id (\<lambda>i.
      bindM (lift_path (child_of (t_path parent) ordinal)) (\<lambda>path.
      bindM (getsM tx_now) (\<lambda>now.
      bindM (modM (put_task i (child_row parent depth state a (snd ic) i path ordinal now))) (\<lambda>_.
      bindM (emit_event i None state a 1 (json_obj [])) (\<lambda>_.
      retM i))))))"

definition link_child :: "task_id list \<Rightarrow> nat \<times> child_spec \<Rightarrow> task op" where
  "link_child ids ic =
     mod_task (ids ! fst ic)
       (\<lambda>t. t\<lparr>t_depends_on := map (\<lambda>d. ids ! (d - 1)) (cs_depends_on (snd ic))\<rparr>)"

fun f32_json :: "f32 \<Rightarrow> json" where
  "f32_json (F_Val i) = J_Float i"
| "f32_json _ = J_Null"

definition children_field :: "nat \<Rightarrow> rstr" where
  "children_field i = ''children['' @ show_nat i @ '']''"

definition check_batch :: "(rstr \<Rightarrow> rstr) \<Rightarrow> decomposition \<Rightarrow> unit campaign_result" where
  "check_batch lower req =
     (let n = length (dc_children req) in
      if n = 0 \<or> n > max_children_rows
      then Inl (E_Invalid (''children: must be 1..='' @ show_nat max_children_rows))
      else
        bindR (forR (\<lambda>(i, c). child_spec_validate lower c (children_field i))
                 (enumerate 0 (dc_children req))) (\<lambda>_.
        bindR (check_deps (dc_children req)) (\<lambda>_.
        check_max ''reason'' (dc_reason req) max_reason)))"

definition check_caps :: "policy \<Rightarrow> nat \<Rightarrow> nat \<Rightarrow> nat \<Rightarrow> nat \<Rightarrow> unit campaign_result" where
  "check_caps policy depth existing nodes n =
     (if depth > depth_cap policy
      then Inl (E_Invalid (''depth: children would be at '' @ show_nat depth @ '', max_depth is ''
        @ show_int (p_max_depth policy)))
      else if existing + n > children_cap policy
      then Inl (E_Invalid (''children: '' @ show_nat existing @ '' existing + '' @ show_nat n
        @ '' new exceeds '' @ show_nat (children_cap policy)))
      else if nodes + n > u64_of_i64 (max_nodes policy)
      then Inl (E_Invalid (''max_nodes: '' @ show_nat nodes @ '' + '' @ show_nat n @ '' exceeds ''
        @ show_int (max_nodes policy)))
      else Inr ())"

definition decompose :: "(rstr \<Rightarrow> rstr) \<Rightarrow> decomposition \<Rightarrow> decomposed_res op" where
  "decompose lower req =
     bindM (idem_fresh (pa_idem (dc_attempt req))) (\<lambda>_.
     bindM (get_task (dc_parent req)) (\<lambda>parent.
     if t_kind parent = K_Leaf then failM (E_Denied ''decompose: a leaf has no children'')
     else
       bindM (cas parent (dc_expected req) S_Decomposing) (\<lambda>_.
       bindM (liftM (check_batch lower req)) (\<lambda>_.
       bindM (policy_of (t_campaign parent)) (\<lambda>policy.
       bindM (getsM (\<lambda>s. children_of s (t_id parent))) (\<lambda>existing.
       bindM (getsM (\<lambda>s. campaign_nodes s (t_campaign parent))) (\<lambda>nodes.
       let n = length (dc_children req); depth = t_depth parent + 1 in
       bindM (liftM (check_caps policy depth (length existing) nodes n)) (\<lambda>_.
       let max_ord = fold max (map t_ordinal existing) 0 in
       bindM (plan_attempt_row (t_id parent) (dc_attempt req) O_Split None) (\<lambda>aid.
       let a = Ac_Attempt aid;
           state = (if gated policy depth then S_AwaitingApproval else S_Ready) in
       bindM (mapM (insert_child parent depth state a max_ord) (enumerate 0 (dc_children req))) (\<lambda>ids.
       bindM (mapM (link_child ids) (enumerate 0 (dc_children req))) (\<lambda>_.
       bindM (transition (t_id parent) S_Decomposed a
         (plan_detail (json_obj [(''children'', J_Int (int n)), (''reason'', J_Str (dc_reason req)),
             (''confidence'', f32_json (dc_confidence req))]) (dc_confidence req))) (\<lambda>parent'.
       bindM (mapM get_task ids) (\<lambda>children.
       retM \<lparr>dr_parent = parent', dr_children = children, dr_attempt = aid\<rparr>)))))))))))))"

definition check_leaf :: "(rstr \<Rightarrow> rstr) \<Rightarrow> mark_leaf_req \<Rightarrow> unit campaign_result" where
  "check_leaf lower req =
     bindR (check_list lower ''acceptance'' (ml_acceptance req) max_acceptance max_acceptance_item) (\<lambda>_.
     bindR (check_list lower ''touches'' (ml_touches req) max_touches max_touch) (\<lambda>_.
     if \<not> is_leaf_size (ml_est_size req)
     then Inl (E_Invalid (''est_size: a leaf is xs or s, not '' @ size_str (ml_est_size req)))
     else check_max ''reason'' (ml_reason req) max_reason))"

definition leaf_fields :: "mark_leaf_req \<Rightarrow> task \<Rightarrow> task" where
  "leaf_fields req t = t\<lparr>t_kind := K_Leaf, t_acceptance := ml_acceptance req,
     t_touches := ml_touches req, t_est_size := Some (ml_est_size req)\<rparr>"

definition mark_leaf :: "(rstr \<Rightarrow> rstr) \<Rightarrow> mark_leaf_req \<Rightarrow> task op" where
  "mark_leaf lower req =
     bindM (idem_fresh (pa_idem (ml_attempt req))) (\<lambda>_.
     bindM (get_task (ml_task req)) (\<lambda>t.
     if t_kind t = K_Objective then failM (E_Denied ''mark_leaf: the root is never executed'')
     else
       bindM (cas t (ml_expected req) S_Decomposing) (\<lambda>_.
       bindM (getsM (\<lambda>s. children_of s (t_id t))) (\<lambda>kids.
       if kids \<noteq> [] then failM (E_Conflict ''mark_leaf: the node has children'')
       else
         bindM (liftM (check_leaf lower req)) (\<lambda>_.
         bindM (policy_of (t_campaign t)) (\<lambda>policy.
         bindM (plan_attempt_row (t_id t) (ml_attempt req) O_Execute None) (\<lambda>aid.
         let a = Ac_Attempt aid;
             to = (if gated policy (t_depth t) then S_AwaitingApproval else S_Ready) in
         bindM (transition (t_id t) to a
           (plan_detail (json_obj [(''execute'', J_Bool True), (''reason'', J_Str (ml_reason req)),
               (''confidence'', f32_json (ml_confidence req))]) (ml_confidence req))) (\<lambda>_.
         mod_task (t_id t) (leaf_fields req)))))))))"

definition set_attempts :: "nat \<Rightarrow> task \<Rightarrow> task" where
  "set_attempts n t = t\<lparr>t_attempts := n\<rparr>"

definition close_node :: "(rstr \<Rightarrow> rstr) \<Rightarrow> plan_close_req \<Rightarrow> task \<Rightarrow> task op" where
  "close_node lower req t =
     (case pc_outcome req of
        PC_NeedsInfo question \<Rightarrow>
          bindM (liftM (check_len ''question'' question max_question)) (\<lambda>_.
          bindM (liftM (screen lower ''question'' question)) (\<lambda>_.
          bindM (plan_attempt_row (t_id t) (pc_attempt req) O_NeedsInfo None) (\<lambda>aid.
          transition (t_id t) S_AwaitingApproval (Ac_Attempt aid)
            (json_obj [(''question'', J_Str question)]))))
      | PC_Reject reason \<Rightarrow>
          bindM (liftM (check_max ''reason'' reason max_reason)) (\<lambda>_.
          bindM (plan_attempt_row (t_id t) (pc_attempt req) O_Reject None) (\<lambda>aid.
          bindM (transition (t_id t) S_Blocked (Ac_Attempt aid)
            (json_obj [(''reason'', J_Str (block_reason_str B_Reject)), (''message'', J_Str reason)])) (\<lambda>t'.
          bindM (rollup_up (t_parent t)) (\<lambda>_. retM t'))))
      | PC_Injection field \<Rightarrow>
          bindM (liftM (check_len ''field'' field max_error)) (\<lambda>_.
          bindM (plan_attempt_row (t_id t) (pc_attempt req) O_Error (Some (''injection: '' @ field))) (\<lambda>aid.
          bindM (transition (t_id t) S_Blocked (Ac_Attempt aid)
            (json_obj [(''reason'', J_Str (block_reason_str B_Injection)), (''field'', J_Str field)])) (\<lambda>t'.
          bindM (rollup_up (t_parent t)) (\<lambda>_. retM t'))))
      | PC_Error err \<Rightarrow>
          let err = truncate_chars err max_error in
          bindM (plan_attempt_row (t_id t) (pc_attempt req) O_Error (Some err)) (\<lambda>aid.
          bindM (policy_of (t_campaign t)) (\<lambda>policy.
          let n = min 65535 (t_attempts t + 1) in
          bindM (mod_task (t_id t) (set_attempts n)) (\<lambda>_.
          if int n \<ge> max_plan_attempts policy
          then bindM (transition (t_id t) S_Blocked (Ac_Attempt aid)
                 (json_obj [(''reason'', J_Str (block_reason_str B_AttemptsExhausted)),
                            (''attempts'', J_Int (int n))])) (\<lambda>t'.
               bindM (rollup_up (t_parent t)) (\<lambda>_. retM t'))
          else transition (t_id t) S_Ready (Ac_Attempt aid)
                 (json_obj [(''error'', J_Bool True), (''attempts'', J_Int (int n))])))))"

definition plan_close :: "(rstr \<Rightarrow> rstr) \<Rightarrow> plan_close_req \<Rightarrow> task op" where
  "plan_close lower req =
     bindM (idem_fresh (pa_idem (pc_attempt req))) (\<lambda>_.
     bindM (get_task (pc_task req)) (\<lambda>t.
     if t_kind t = K_Leaf then failM (E_Denied ''plan_close: a leaf is never planned'')
     else bindM (cas t (pc_expected req) S_Decomposing) (\<lambda>_. close_node lower req t)))"

section \<open>(c) claim\<close>

definition dep_done :: "tx \<Rightarrow> task_id \<Rightarrow> bool" where
  "dep_done s d = (case task_at s d of None \<Rightarrow> False | Some t \<Rightarrow> t_state t = S_Done)"

definition claimable :: "tx \<Rightarrow> task \<Rightarrow> bool" where
  "claimable s t \<longleftrightarrow> t_kind t = K_Leaf \<and> t_state t = S_Ready \<and> list_all (dep_done s) (t_depends_on t)"

definition lease_ms :: "int \<Rightarrow> nat" where
  "lease_ms secs = clamp_lease secs * 1000"

definition leased_row :: "owner \<Rightarrow> nat \<Rightarrow> task \<Rightarrow> task" where
  "leased_row own until t = t\<lparr>t_claimed_by := Some own, t_lease_until := Some until\<rparr>"

definition claim_one :: "owner \<Rightarrow> nat \<Rightarrow> nat \<times> task \<Rightarrow> claimed_res op" where
  "claim_one own lease sc =
     (let i = t_id (snd sc) in
      bindM (transition i S_Claimed (Ac_Driver own)
        (json_obj [(''lease_secs'', J_Int (int (lease div 1000)))])) (\<lambda>t.
      bindM (getsM tx_now) (\<lambda>now.
      bindM (mod_task i (leased_row own (sat_add64 now lease))) (\<lambda>_.
      bindM (insert_attempt i T_Work
        (idem_key_synthetic (if i < 0 then 0 else nat i) (t_version t) now (fst sc))
        (Some own) O_Pending) (\<lambda>aid.
      bindM (get_task i) (\<lambda>t'.
      retM \<lparr>cl_task = t', cl_attempt = aid\<rparr>))))))"

definition claim :: "claim_request \<Rightarrow> claimed_res list op" where
  "claim req =
     (if cr_limit req = 0 then retM []
      else
        bindM (getsM (\<lambda>s. filter (claimable s) (tenant_tasks s))) (\<lambda>cands.
        mapM (claim_one (cr_owner req) (lease_ms (cr_lease_secs req)))
          (enumerate 0 (take (cr_limit req) (sort_key campaign_path cands)))))"

definition extend_lease :: "nat \<Rightarrow> nat \<Rightarrow> task \<Rightarrow> task" where
  "extend_lease now lease t = t\<lparr>t_lease_until := Some (sat_add64 now lease), t_updated_at := now\<rparr>"

definition heartbeat :: "task_id \<Rightarrow> owner \<Rightarrow> int \<Rightarrow> unit op" where
  "heartbeat i own secs = (\<lambda>s.
     case task_at s i of
       None \<Rightarrow> Inl E_LeaseLost
     | Some t \<Rightarrow>
         if t_claimed_by t \<noteq> Some own \<or> \<not> is_leased (t_state t) then Inl E_LeaseLost
         else Inr ((), put_task i (extend_lease (tx_now s) (lease_ms secs) t) s))"

definition lease_expired :: "nat \<Rightarrow> task \<Rightarrow> bool" where
  "lease_expired now t \<longleftrightarrow> t_claimed_by t \<noteq> None
     \<and> (case t_lease_until t of None \<Rightarrow> False | Some l \<Rightarrow> l < now)"

definition reap_one :: "task \<Rightarrow> reaped_res op" where
  "reap_one t =
     (let lost = the (t_claimed_by t) in
      bindM (transition (t_id t) S_Ready Ac_Reaper (json_obj [(''lost_owner'', J_Str lost)])) (\<lambda>_.
      bindM (close_work (t_id t) None O_LeaseLost (\<lambda>a. a)) (\<lambda>_.
      retM \<lparr>rp_task = t_id t, rp_from = t_state t, rp_owner = lost\<rparr>)))"

definition reap :: "reaped_res list op" where
  "reap =
     bindM (getsM (\<lambda>s. filter (lease_expired (tx_now s)) (tenant_tasks s))) (\<lambda>expired.
     mapM reap_one expired)"

definition plan_stale :: "nat \<Rightarrow> nat \<Rightarrow> task \<Rightarrow> bool" where
  "plan_stale bound now t \<longleftrightarrow> t_state t = S_Decomposing \<and> t_kind t \<noteq> K_Leaf
     \<and> sat_add64 (t_updated_at t) bound < now"

definition reap_decomposing :: "int \<Rightarrow> task_id list op" where
  "reap_decomposing secs =
     bindM (getsM (\<lambda>s. map t_id (filter (plan_stale (lease_ms secs) (tx_now s)) (tenant_tasks s)))) (\<lambda>stale.
     bindM (mapM (\<lambda>i. transition i S_Ready Ac_Reaper
        (json_obj [(''reason'', J_Str ''plan_stale'')])) stale) (\<lambda>_.
     retM stale))"

section \<open>(d) execute\<close>

definition require_owner :: "task \<Rightarrow> owner \<Rightarrow> unit op" where
  "require_owner t own = (if t_claimed_by t \<noteq> Some own then failM E_LeaseLost else retM ())"

definition start :: "task_id \<Rightarrow> owner \<Rightarrow> task op" where
  "start i own =
     bindM (get_task i) (\<lambda>t.
     bindM (require_owner t own) (\<lambda>_.
     bindM (require_state t S_Claimed) (\<lambda>_.
     transition i S_Running (Ac_Worker own) (json_obj []))))"

definition pr_fields :: "pr_ref \<Rightarrow> task \<Rightarrow> task" where
  "pr_fields pr t = t\<lparr>t_pr_number := Some (pr_num pr), t_pr_url := Some (pr_link pr),
     t_branch := Some (pr_branch pr)\<rparr>"

definition complete :: "complete_req \<Rightarrow> task op" where
  "complete req =
     bindM (get_task (cp_task req)) (\<lambda>t.
     bindM (require_owner t (cp_owner req)) (\<lambda>_.
     bindM (require_state t S_Running) (\<lambda>_.
     bindM (liftM (pr_validate (cp_pr req))) (\<lambda>_.
     bindM (liftM (session_ok (cp_session req))) (\<lambda>_.
     bindM (transition (t_id t) S_InReview (Ac_Worker (cp_owner req))
       (json_obj [(''pr_number'', J_Int (pr_num (cp_pr req))), (''pr_url'', J_Str (pr_link (cp_pr req)))])) (\<lambda>_.
     let (tin, tout) = clamped (cp_tokens req) in
     bindM (mod_task (t_id t) (pr_fields (cp_pr req))) (\<lambda>_.
     bindM (close_work (t_id t) (Some (cp_owner req)) O_Pr
       (\<lambda>a. a\<lparr>at_pr_url := Some (pr_link (cp_pr req)), at_tokens_in := tin, at_tokens_out := tout,
          at_session := cp_session req\<rparr>)) (\<lambda>_.
     get_task (t_id t)))))))))"

definition fail_leaf :: "fail_req \<Rightarrow> task op" where
  "fail_leaf req =
     bindM (get_task (fl_task req)) (\<lambda>t.
     bindM (require_owner t (fl_owner req)) (\<lambda>_.
     bindM (require_state t S_Running) (\<lambda>_.
     bindM (liftM (session_ok (fl_session req))) (\<lambda>_.
     let err = truncate_chars (fl_error req) max_error in
     bindM (transition (t_id t) S_Failed (Ac_Worker (fl_owner req))
       (json_obj [(''cause'', J_Str (outcome_str (fail_outcome (fl_cause req))))])) (\<lambda>_.
     let (tin, tout) = clamped (fl_tokens req) in
     bindM (close_work (t_id t) (Some (fl_owner req)) (fail_outcome (fl_cause req))
       (\<lambda>a. a\<lparr>at_error := Some err, at_tokens_in := tin, at_tokens_out := tout,
          at_session := fl_session req\<rparr>)) (\<lambda>_.
     bindM (block_dependents t) (\<lambda>_.
     bindM (rollup_up (t_parent t)) (\<lambda>_.
     get_task (t_id t)))))))))"

fun verdict :: "review_outcome \<Rightarrow> task_state \<times> rstr" where
  "verdict RO_Merged = (S_Done, ''merged'')"
| "verdict RO_Closed = (S_Failed, ''closed'')"

definition resolve_review :: "task_id \<Rightarrow> review_outcome \<Rightarrow> task op" where
  "resolve_review i outcome =
     bindM (get_task i) (\<lambda>t.
     bindM (require_state t S_InReview) (\<lambda>_.
     let (to, v) = verdict outcome in
     bindM (transition i to Ac_Poller (json_obj [(''review'', J_Str v)])) (\<lambda>_.
     bindM (whenM (to = S_Failed) (block_dependents t)) (\<lambda>_.
     bindM (rollup_up (t_parent t)) (\<lambda>_.
     get_task i)))))"

definition review_note :: "task_id \<Rightarrow> review_note_kind \<Rightarrow> bool op" where
  "review_note i note =
     bindM (get_task i) (\<lambda>t.
     bindM (require_state t S_InReview) (\<lambda>_.
     let detail = review_note_detail note in
     bindM (getsM (\<lambda>s. review_note_once note \<and> list_ex (\<lambda>((tn, _), e).
        tn = tx_tenant s \<and> ev_task e = i \<and> ev_detail e = detail) (events (st s)))) (\<lambda>already.
     if already then retM False
     else
       bindM (emit_event i (Some S_InReview) S_InReview Ac_Poller (t_version t) detail) (\<lambda>_.
       retM True))))"

section \<open>(e) human protocols\<close>

definition approve :: "task_id \<Rightarrow> nat \<Rightarrow> actor \<Rightarrow> task op" where
  "approve i expected a =
     bindM (liftM (human a)) (\<lambda>u.
     bindM (get_task i) (\<lambda>t.
     if t_state t = S_InReview
     then
       bindM (cas t expected S_InReview) (\<lambda>_.
       bindM (emit_event i (Some S_InReview) S_InReview (Ac_User u) (t_version t)
         (json_obj [(''pr_approved'', J_Bool True)])) (\<lambda>_.
       retM t))
     else
       bindM (cas t expected S_AwaitingApproval) (\<lambda>_.
       transition i S_Ready (Ac_User u) (json_obj []))))"

definition approve_children :: "task_id \<Rightarrow> actor \<Rightarrow> task list op" where
  "approve_children parent a =
     bindM (liftM (human a)) (\<lambda>u.
     bindM (get_task parent) (\<lambda>_.
     bindM (getsM (\<lambda>s. children_of s parent)) (\<lambda>kids.
     mapM (\<lambda>c. transition (t_id c) S_Ready (Ac_User u) (json_obj []))
       (filter (\<lambda>c. t_state c = S_AwaitingApproval) kids))))"

definition set_goal :: "rstr \<Rightarrow> task \<Rightarrow> task" where
  "set_goal g t = t\<lparr>t_goal := g\<rparr>"

definition answer :: "(rstr \<Rightarrow> rstr) \<Rightarrow> task_id \<Rightarrow> nat \<Rightarrow> rstr \<Rightarrow> actor \<Rightarrow> task op" where
  "answer lower i expected text a =
     bindM (liftM (human a)) (\<lambda>u.
     bindM (get_task i) (\<lambda>t.
     bindM (cas t expected S_AwaitingApproval) (\<lambda>_.
     bindM (liftM (check_len ''answer'' text max_answer)) (\<lambda>_.
     bindM (liftM (screen lower ''answer'' text)) (\<lambda>_.
     let goal = t_goal t @ clarification_header @ text in
     bindM (liftM (check_max ''goal'' goal max_goal)) (\<lambda>_.
     bindM (transition i S_Ready (Ac_User u) (json_obj [(''answered'', J_Bool True)])) (\<lambda>_.
     mod_task i (set_goal goal))))))))"

definition retry :: "task_id \<Rightarrow> actor \<Rightarrow> task op" where
  "retry i a =
     bindM (liftM (human a)) (\<lambda>u.
     bindM (get_task i) (\<lambda>t.
     if t_state t \<notin> {S_Failed, S_Blocked}
     then failM (E_Conflict (''state: retry needs failed or blocked, found '' @ state_str (t_state t)))
     else
       bindM (transition (t_id t) S_Ready (Ac_User u) (json_obj [(''retry'', J_Bool True)])) (\<lambda>t'.
       bindM (rollup_up (t_parent t)) (\<lambda>_.
       retM t'))))"

definition policy_row :: "policy \<Rightarrow> nat \<Rightarrow> task \<Rightarrow> task" where
  "policy_row p now t = t\<lparr>t_policy := Some p, t_version := t_version t + 1, t_updated_at := now\<rparr>"

definition update_policy :: "task_id \<Rightarrow> policy \<Rightarrow> actor \<Rightarrow> task op" where
  "update_policy c p a =
     bindM (liftM (human a)) (\<lambda>u.
     bindM (liftM (policy_validate p)) (\<lambda>_.
     bindM (get_task c) (\<lambda>t.
     if \<not> is_root t then failM (E_Invalid ''campaign: policy lives on the root only'')
     else
       bindM (getsM tx_now) (\<lambda>now.
       bindM (mod_task c (policy_row p now)) (\<lambda>snapshot.
       bindM (emit_event c (Some (t_state snapshot)) (t_state snapshot) (Ac_User u)
         (t_version snapshot) (json_obj [(''policy_updated'', J_Bool True)])) (\<lambda>_.
       retM snapshot))))))"

section \<open>(f) cancel, (g) replan\<close>

definition cancel_one :: "user_id \<Rightarrow> task \<Rightarrow> task op" where
  "cancel_one u node =
     bindM (transition (t_id node) S_Cancelled (Ac_User u) (json_obj [])) (\<lambda>t.
     bindM (close_work (t_id node) None O_LeaseLost (\<lambda>a. a)) (\<lambda>_.
     retM t))"

definition cancel :: "task_id \<Rightarrow> actor \<Rightarrow> task list op" where
  "cancel i a =
     bindM (liftM (human a)) (\<lambda>u.
     bindM (get_task i) (\<lambda>t.
     if is_terminal (t_state t)
     then failM (E_Conflict (''state: cannot cancel a '' @ state_str (t_state t) @ '' node''))
     else
       bindM (getsM (\<lambda>s. subtree_of s t)) (\<lambda>nodes.
       bindM (mapM (cancel_one u) (filter (\<lambda>n. \<not> is_terminal (t_state n)) nodes)) (\<lambda>out.
       bindM (rollup_up (t_parent t)) (\<lambda>_.
       retM out)))))"

definition set_superseded :: "task_id \<Rightarrow> task \<Rightarrow> task" where
  "set_superseded i t = t\<lparr>t_superseded_by := Some i\<rparr>"

definition supersede_one :: "user_id \<Rightarrow> task_id \<Rightarrow> task \<Rightarrow> unit op" where
  "supersede_one u by node =
     bindM (transition (t_id node) S_Superseded (Ac_User u)
       (json_obj [(''superseded_by'', J_Int by)])) (\<lambda>_.
     bindM (mod_task (t_id node) (set_superseded by)) (\<lambda>_.
     close_work (t_id node) None O_LeaseLost (\<lambda>a. a)))"

definition replan :: "task_id \<Rightarrow> actor \<Rightarrow> task op" where
  "replan i a =
     bindM (liftM (human a)) (\<lambda>u.
     bindM (get_task i) (\<lambda>t.
     if t_kind t = K_Leaf then failM (E_Denied ''replan: a leaf has no plan'')
     else if t_state t \<notin> {S_Decomposed, S_Blocked}
     then failM (E_Conflict (''state: replan needs decomposed or blocked, found '' @ state_str (t_state t)))
     else
       bindM (getsM (\<lambda>s. filter (\<lambda>n. t_id n \<noteq> t_id t \<and> \<not> is_terminal (t_state n)) (subtree_of s t))) (\<lambda>nodes.
       bindM (mapM (supersede_one u (t_id t)) nodes) (\<lambda>_.
       bindM (transition (t_id t) S_Decomposing (Ac_User u)
         (json_obj [(''replan'', J_Bool True), (''superseded'', J_Int (int (length nodes)))])) (\<lambda>_.
       mod_task (t_id t) (set_attempts 0))))))"

section \<open>Reads\<close>

definition list_campaigns :: "list_filter \<Rightarrow> tx \<Rightarrow> task list" where
  "list_campaigns f s =
     (let attention = (if lf_needs_attention f
        then map t_campaign (filter (\<lambda>t. t_state t \<in> {S_AwaitingApproval, S_Blocked, S_Failed}) (tenant_tasks s))
        else [])
      in filter (\<lambda>t. \<not> lf_needs_attention f \<or> t_id t \<in> set attention)
           (filter (\<lambda>t. case lf_repo f of None \<Rightarrow> True | Some r \<Rightarrow> t_repo t = r)
             (filter is_root (tenant_tasks s))))"

definition subtree :: "task_id \<Rightarrow> task list op" where
  "subtree i = bindM (get_task i) (\<lambda>t. getsM (\<lambda>s. subtree_of s t))"

definition children :: "task_id \<Rightarrow> task list op" where
  "children i = bindM (get_task i) (\<lambda>_. getsM (\<lambda>s. children_of s i))"

definition task_events :: "task_id \<Rightarrow> task_event list op" where
  "task_events i = bindM (get_task i) (\<lambda>_. getsM (\<lambda>s.
     map snd (filter (\<lambda>((tn, _), e). tn = tx_tenant s \<and> ev_task e = i) (events (st s)))))"

definition task_attempts :: "task_id \<Rightarrow> task_attempt list op" where
  "task_attempts i = bindM (get_task i) (\<lambda>_. getsM (\<lambda>s.
     map snd (filter (\<lambda>((tn, _), a). tn = tx_tenant s \<and> at_task a = i) (attempts (st s)))))"

definition plannable :: "nat \<Rightarrow> tx \<Rightarrow> task list" where
  "plannable limit s = take limit (sort_key campaign_path
     (filter (\<lambda>t. t_state t = S_Ready \<and> t_kind t \<noteq> K_Leaf) (tenant_tasks s)))"

definition in_review :: "nat \<Rightarrow> tx \<Rightarrow> task list" where
  "in_review limit s = take limit (sort_key (\<lambda>t. (t_updated_at t, t_id t))
     (filter (\<lambda>t. t_state t = S_InReview) (tenant_tasks s)))"

definition live_tenants :: "mem_state \<Rightarrow> tenant_id list" where
  "live_tenants m = remdups_adj (filter safe_segment
     (map (\<lambda>((tn, _), _). tn) (filter (\<lambda>(_, t). t_state t \<in> set live_states) (tasks m))))"

section \<open>The store as a transition system\<close>

text \<open>Every call that can change the state, with its answer dropped.\<close>

datatype call =
    Call_Create new_campaign actor
  | Call_PlanStart task_id
  | Call_Decompose decomposition
  | Call_MarkLeaf mark_leaf_req
  | Call_PlanClose plan_close_req
  | Call_Claim claim_request
  | Call_Heartbeat task_id owner int
  | Call_Reap
  | Call_ReapDecomposing int
  | Call_Start task_id owner
  | Call_Complete complete_req
  | Call_Fail fail_req
  | Call_ResolveReview task_id review_outcome
  | Call_ReviewNote task_id review_note_kind
  | Call_Approve task_id nat actor
  | Call_ApproveChildren task_id actor
  | Call_Answer task_id nat rstr actor
  | Call_Retry task_id actor
  | Call_UpdatePolicy task_id policy actor
  | Call_Cancel task_id actor
  | Call_Replan task_id actor

definition ignore :: "'a op \<Rightarrow> unit op" where
  "ignore m = bindM m (\<lambda>_. retM ())"

fun exec :: "(rstr \<Rightarrow> rstr) \<Rightarrow> call \<Rightarrow> unit op" where
  "exec lower (Call_Create r a) = ignore (create lower r a)"
| "exec lower (Call_PlanStart i) = ignore (plan_start i)"
| "exec lower (Call_Decompose r) = ignore (decompose lower r)"
| "exec lower (Call_MarkLeaf r) = ignore (mark_leaf lower r)"
| "exec lower (Call_PlanClose r) = ignore (plan_close lower r)"
| "exec lower (Call_Claim r) = ignore (claim r)"
| "exec lower (Call_Heartbeat i own n) = heartbeat i own n"
| "exec lower Call_Reap = ignore reap"
| "exec lower (Call_ReapDecomposing n) = ignore (reap_decomposing n)"
| "exec lower (Call_Start i own) = ignore (start i own)"
| "exec lower (Call_Complete r) = ignore (complete r)"
| "exec lower (Call_Fail r) = ignore (fail_leaf r)"
| "exec lower (Call_ResolveReview i r) = ignore (resolve_review i r)"
| "exec lower (Call_ReviewNote i n) = ignore (review_note i n)"
| "exec lower (Call_Approve i v a) = ignore (approve i v a)"
| "exec lower (Call_ApproveChildren i a) = ignore (approve_children i a)"
| "exec lower (Call_Answer i v text a) = ignore (answer lower i v text a)"
| "exec lower (Call_Retry i a) = ignore (retry i a)"
| "exec lower (Call_UpdatePolicy i p a) = ignore (update_policy i p a)"
| "exec lower (Call_Cancel i a) = ignore (cancel i a)"
| "exec lower (Call_Replan i a) = ignore (replan i a)"

text \<open>One call of a tenant at a clock reading, committed or rolled back.\<close>

definition step :: "(rstr \<Rightarrow> rstr) \<Rightarrow> tenant_id \<Rightarrow> nat \<Rightarrow> call \<Rightarrow> mem_state \<Rightarrow> mem_state" where
  "step lower tn now c m = fst (snd (run_tx tn now (exec lower c) m))"

inductive reachable :: "(rstr \<Rightarrow> rstr) \<Rightarrow> mem_state \<Rightarrow> bool" for lower where
  reach_init: "reachable lower empty_state"
| reach_step: "reachable lower m \<Longrightarrow> reachable lower (step lower tn now c m)"

end
