(* ===== verification/Store_Relations.thy ===== *)
theory Store_Relations
  imports Campaign_Store
begin

text \<open>
  One proof for every protocol of the store. The locale \<open>store_rel\<close> takes an invariant \<open>I\<close>
  of the transaction state and a relation \<open>R\<close> between the states before and after, and
  assumes that the few elementary writes of the store (a new row, a state move, a field write,
  an attempt, an event) keep the one and respect the other, each in the context in which the
  protocols perform it. Inside, the whole of \<open>exec\<close> is shown to do so. Each store invariant is
  then an interpretation: only its elementary writes are proved.
\<close>

named_theorems store_simps \<open>reading the state after an elementary write\<close>

section \<open>The elementary writes\<close>

definition row_at :: "mem_state \<Rightarrow> tenant_id \<Rightarrow> task_id \<Rightarrow> task option" where
  "row_at m tn i = map_of (tasks m) (tn, i)"

definition add_tenant :: "tx \<Rightarrow> tx" where
  "add_tenant s = s\<lparr>st := (st s)\<lparr>tenants := insert (tx_tenant s) (tenants (st s))\<rparr>\<rparr>"

definition add_row :: "task \<Rightarrow> actor \<Rightarrow> json \<Rightarrow> tx \<Rightarrow> tx" where
  "add_row t a d s = log_event (t_id t) None (t_state t) a 1 d
     (put_task (t_id t) t (s\<lparr>st := (st s)\<lparr>next_task_id := t_id t\<rparr>\<rparr>))"

definition move_row :: "task_id \<Rightarrow> task \<Rightarrow> task \<Rightarrow> actor \<Rightarrow> json \<Rightarrow> tx \<Rightarrow> tx" where
  "move_row i t t' a d s =
     log_event i (Some (t_state t)) (t_state t') a (t_version t') d (put_task i t' s)"

definition add_attempt :: "task_attempt \<Rightarrow> tx \<Rightarrow> tx" where
  "add_attempt row s = s\<lparr>st := (st s)\<lparr>
     idem := insert (tx_tenant s, at_idem row) (idem (st s)), next_attempt_id := at_id row,
     attempts := bt_insert (tx_tenant s, at_id row) row (attempts (st s))\<rparr>\<rparr>"

definition put_attempt :: "attempt_id \<Rightarrow> task_attempt \<Rightarrow> tx \<Rightarrow> tx" where
  "put_attempt aid row s = s\<lparr>st := (st s)\<lparr>
     attempts := bt_insert (tx_tenant s, aid) row (attempts (st s))\<rparr>\<rparr>"

definition close_state :: "task_id \<Rightarrow> owner option \<Rightarrow> attempt_outcome \<Rightarrow>
    (task_attempt \<Rightarrow> task_attempt) \<Rightarrow> tx \<Rightarrow> tx" where
  "close_state i own outcome patch s =
     s\<lparr>st := (st s)\<lparr>attempts := map (\<lambda>((tn, aid), a).
        if tn = tx_tenant s \<and> open_work i own a
        then ((tn, aid), patch (a\<lparr>at_outcome := outcome, at_ended := Some (tx_now s)\<rparr>))
        else ((tn, aid), a)) (attempts (st s))\<rparr>\<rparr>"

lemma task_at_row: "task_at s i = row_at (st s) (tx_tenant s) i"
  by (simp add: task_at_def row_at_def key_def)

lemma row_at_tenants [store_simps]: "row_at (m\<lparr>tenants := x\<rparr>) = row_at m"
  by (simp add: row_at_def fun_eq_iff)

lemma log_event_simps [store_simps]:
  "tx_tenant (log_event i from to a v d s) = tx_tenant s"
  "tx_now (log_event i from to a v d s) = tx_now s"
  "tasks (st (log_event i from to a v d s)) = tasks (st s)"
  "attempts (st (log_event i from to a v d s)) = attempts (st s)"
  "idem (st (log_event i from to a v d s)) = idem (st s)"
  "next_task_id (st (log_event i from to a v d s)) = next_task_id (st s)"
  "next_attempt_id (st (log_event i from to a v d s)) = next_attempt_id (st s)"
  "next_event_id (st (log_event i from to a v d s)) = next_event_id (st s) + 1"
  "row_at (st (log_event i from to a v d s)) = row_at (st s)"
  "task_at (log_event i from to a v d s) = task_at s"
  by (simp_all add: log_event_def Let_def row_at_def task_at_def key_def fun_eq_iff)

lemma put_task_simps [store_simps]:
  "tx_tenant (put_task i t s) = tx_tenant s"
  "tx_now (put_task i t s) = tx_now s"
  "pending (put_task i t s) = pending s"
  "tasks (st (put_task i t s)) = bt_insert (tx_tenant s, i) t (tasks (st s))"
  "events (st (put_task i t s)) = events (st s)"
  "attempts (st (put_task i t s)) = attempts (st s)"
  "idem (st (put_task i t s)) = idem (st s)"
  "next_task_id (st (put_task i t s)) = next_task_id (st s)"
  "next_event_id (st (put_task i t s)) = next_event_id (st s)"
  "next_attempt_id (st (put_task i t s)) = next_attempt_id (st s)"
  "row_at (st (put_task i t s)) tn j = (if tn = tx_tenant s \<and> j = i then Some t else row_at (st s) tn j)"
  "task_at (put_task i t s) j = (if j = i then Some t else task_at s j)"
  by (simp_all add: put_task_def key_def row_at_def task_at_def map_of_bt_insert)

lemma task_at_next [store_simps]: "task_at (s\<lparr>st := (st s)\<lparr>next_task_id := n\<rparr>\<rparr>) = task_at s"
  by (simp add: task_at_def key_def fun_eq_iff)

lemma add_tenant_simps [store_simps]:
  "tx_tenant (add_tenant s) = tx_tenant s" "tx_now (add_tenant s) = tx_now s"
  "tasks (st (add_tenant s)) = tasks (st s)" "events (st (add_tenant s)) = events (st s)"
  "attempts (st (add_tenant s)) = attempts (st s)" "idem (st (add_tenant s)) = idem (st s)"
  "next_task_id (st (add_tenant s)) = next_task_id (st s)"
  "next_event_id (st (add_tenant s)) = next_event_id (st s)"
  "next_attempt_id (st (add_tenant s)) = next_attempt_id (st s)"
  "row_at (st (add_tenant s)) = row_at (st s)" "task_at (add_tenant s) = task_at s"
  by (simp_all add: add_tenant_def row_at_def task_at_def key_def fun_eq_iff)

lemma attempt_simps [store_simps]:
  "tx_tenant (add_attempt r s) = tx_tenant s" "tx_now (add_attempt r s) = tx_now s"
  "tasks (st (add_attempt r s)) = tasks (st s)" "events (st (add_attempt r s)) = events (st s)"
  "next_task_id (st (add_attempt r s)) = next_task_id (st s)"
  "next_event_id (st (add_attempt r s)) = next_event_id (st s)"
  "row_at (st (add_attempt r s)) = row_at (st s)" "task_at (add_attempt r s) = task_at s"
  "tx_tenant (put_attempt aid r s) = tx_tenant s" "tx_now (put_attempt aid r s) = tx_now s"
  "tasks (st (put_attempt aid r s)) = tasks (st s)" "events (st (put_attempt aid r s)) = events (st s)"
  "next_task_id (st (put_attempt aid r s)) = next_task_id (st s)"
  "next_event_id (st (put_attempt aid r s)) = next_event_id (st s)"
  "idem (st (put_attempt aid r s)) = idem (st s)"
  "row_at (st (put_attempt aid r s)) = row_at (st s)" "task_at (put_attempt aid r s) = task_at s"
  "tx_tenant (close_state i own oc p s) = tx_tenant s" "tx_now (close_state i own oc p s) = tx_now s"
  "tasks (st (close_state i own oc p s)) = tasks (st s)"
  "events (st (close_state i own oc p s)) = events (st s)"
  "next_task_id (st (close_state i own oc p s)) = next_task_id (st s)"
  "next_event_id (st (close_state i own oc p s)) = next_event_id (st s)"
  "idem (st (close_state i own oc p s)) = idem (st s)"
  "row_at (st (close_state i own oc p s)) = row_at (st s)"
  "task_at (close_state i own oc p s) = task_at s"
  by (simp_all add: add_attempt_def put_attempt_def close_state_def row_at_def task_at_def key_def
      fun_eq_iff)

text \<open>Writing further fields of a row right after its move is one move.\<close>

lemma put_after_move:
  assumes "t_state t2 = t_state t1" "t_version t2 = t_version t1" "t_campaign t2 = t_campaign t1"
  shows "put_task i t2 (move_row i t t1 a d s) = move_row i t t2 a d s"
  using assms
  by (simp add: move_row_def log_event_def Let_def put_task_def key_def task_at_def map_of_bt_insert)

section \<open>What the building blocks do when they succeed\<close>

lemma get_task_Inr: "get_task i s = Inr (t, s') \<longleftrightarrow> s' = s \<and> task_at s i = Some t"
  by (auto simp: get_task_def split: option.splits)

lemma mod_task_Inr:
  "mod_task i f s = Inr (t', s') \<longleftrightarrow> (\<exists>t. task_at s i = Some t \<and> t' = f t \<and> s' = put_task i (f t) s)"
  by (auto simp: mod_task_def split: option.splits)

lemma moved_state [simp]: "t_state (moved now to t) = to"
  by (simp add: moved_def Let_def)

lemma transition_Inr:
  "transition i to a d s = Inr (r, s') \<longleftrightarrow>
    (\<exists>t. task_at s i = Some t \<and> allowed (t_state t) to (t_kind t) (actor_class_of a)
      \<and> r = moved (tx_now s) to t \<and> s' = move_row i t (moved (tx_now s) to t) a d s)"
  by (cases "task_at s i")
    (auto simp: transition_def bindM_def get_task_def getsM_def mod_task_def emit_event_def modM_def
      retM_def failM_def move_row_def)

lemma insert_attempt_Inr:
  "insert_attempt i k ik own oc s = Inr (aid, s') \<longleftrightarrow>
    (tx_tenant s, ik) \<notin> idem (st s) \<and> aid = next_attempt_id (st s) + 1 \<and>
    s' = add_attempt \<lparr>at_id = aid, at_task = i, at_kind = k, at_idem = ik, at_prompt_hash = [],
       at_model = [], at_tokens_in = 0, at_tokens_out = 0, at_session = None, at_owner = own,
       at_outcome = oc, at_pr_url = None, at_error = None, at_started = tx_now s, at_ended = None\<rparr> s"
  by (auto simp: insert_attempt_def Let_def add_attempt_def)

lemma close_work_Inr: "close_work i own oc p s = Inr (u, s') \<longleftrightarrow> s' = close_state i own oc p s"
  by (auto simp: close_work_def modM_def close_state_def)

lemma emit_event_Inr: "emit_event i f to a v d s = Inr (u, s') \<longleftrightarrow> s' = log_event i f to a v d s"
  by (auto simp: emit_event_def modM_def)

lemma idem_fresh_Inr:
  "idem_fresh ik s = Inr (u, s') \<longleftrightarrow> s' = s \<and> (tx_tenant s, ik) \<notin> idem (st s)"
  by (auto simp: idem_fresh_def)

lemma fresh_task_id_Inr:
  "fresh_task_id s = Inr (i, s') \<longleftrightarrow>
    i = next_task_id (st s) + 1 \<and> s' = s\<lparr>st := (st s)\<lparr>next_task_id := i\<rparr>\<rparr>"
  by (auto simp: fresh_task_id_def Let_def)

lemma lift_path_Inr: "lift_path r s = Inr (p, s') \<longleftrightarrow> s' = s \<and> r = Inr p"
  by (auto simp: lift_path_def liftM_def split: sum.splits)

lemma liftM_Inr: "liftM r s = Inr (a, s') \<longleftrightarrow> s' = s \<and> r = Inr a"
  by (auto simp: liftM_def split: sum.splits)

lemma getsM_Inr: "getsM f s = Inr (a, s') \<longleftrightarrow> s' = s \<and> a = f s"
  by (auto simp: getsM_def)

lemma retM_Inr: "retM a s = Inr (b, s') \<longleftrightarrow> s' = s \<and> b = a"
  by (auto simp: retM_def)

lemma failM_Inr: "\<not> failM e s = Inr (b, s')"
  by (simp add: failM_def)

lemma if_fail_Inr: "(if c then failM e else m) s = Inr x \<longleftrightarrow> \<not> c \<and> m s = Inr x"
  by (cases x) (simp add: failM_def)

lemma modM_Inr: "modM f s = Inr (u, s') \<longleftrightarrow> s' = f s"
  by (auto simp: modM_def)

lemma require_state_Inr: "require_state t x s = Inr (u, s') \<longleftrightarrow> s' = s \<and> t_state t = x"
  by (auto simp: require_state_def retM_def failM_def)

lemma cas_Inr: "cas t v x s = Inr (u, s') \<longleftrightarrow> s' = s \<and> t_version t = v \<and> t_state t = x"
  by (auto simp: cas_def require_state_Inr failM_def)

lemma require_owner_Inr: "require_owner t own s = Inr (u, s') \<longleftrightarrow> s' = s \<and> t_claimed_by t = Some own"
  by (auto simp: require_owner_def retM_def failM_def)

lemma policy_of_Inr:
  "policy_of c s = Inr (p, s') \<longleftrightarrow> s' = s \<and>
    (\<exists>root. task_at s c = Some root \<and> p = (case t_policy root of Some p \<Rightarrow> p | None \<Rightarrow> default_policy))"
  by (auto simp: policy_of_def bindM_Inr get_task_Inr retM_Inr)

lemmas op_Inr = get_task_Inr mod_task_Inr transition_Inr insert_attempt_Inr close_work_Inr
  emit_event_Inr idem_fresh_Inr fresh_task_id_Inr lift_path_Inr liftM_Inr getsM_Inr retM_Inr failM_Inr
  modM_Inr require_state_Inr cas_Inr require_owner_Inr policy_of_Inr

lemma human_Inr: "human a = Inr u \<longleftrightarrow> a = Ac_User u"
  by (cases a) (auto simp: human_def)

text \<open>Rows of the tenant.\<close>

definition keys_ok :: "mem_state \<Rightarrow> bool" where
  "keys_ok m \<longleftrightarrow> bt_wf (tasks m) \<and>
     (\<forall>tn i t. row_at m tn i = Some t \<longrightarrow> t_id t = i \<and> 0 < i \<and> i \<le> next_task_id m)"

lemma keys_okD:
  "keys_ok m \<Longrightarrow> row_at m tn i = Some t \<Longrightarrow> t_id t = i \<and> 0 < i \<and> i \<le> next_task_id m"
  by (simp add: keys_ok_def)

lemma keys_ok_task: "keys_ok (st s) \<Longrightarrow> task_at s i = Some t \<Longrightarrow> t_id t = i"
  by (simp add: task_at_row keys_okD)

lemma keys_ok_fresh: "keys_ok (st s) \<Longrightarrow> task_at s (next_task_id (st s) + 1) = None"
  using keys_okD[of "st s" "tx_tenant s" "next_task_id (st s) + 1"]
  by (cases "task_at s (next_task_id (st s) + 1)") (auto simp: task_at_row)

lemma tenant_tasks_iff:
  assumes "keys_ok (st s)"
  shows "t \<in> set (tenant_tasks s) \<longleftrightarrow> task_at s (t_id t) = Some t"
proof -
  have wf: "bt_wf (tasks (st s))" using assms by (simp add: keys_ok_def)
  have "t \<in> set (tenant_tasks s) \<longleftrightarrow> (\<exists>i. task_at s i = Some t)"
    by (force simp: tenant_tasks_def task_at_def key_def bt_mem_iff[OF wf, symmetric])
  moreover have "task_at s i = Some t \<Longrightarrow> t_id t = i" for i
    using assms by (auto simp: keys_ok_def task_at_row)
  ultimately show ?thesis by blast
qed

lemma tenant_tasks_distinct:
  assumes "keys_ok (st s)"
  shows "distinct (map t_id (tenant_tasks s))"
proof -
  have wf: "bt_wf (tasks (st s))" using assms by (simp add: keys_ok_def)
  define es where "es = filter (\<lambda>e. fst (fst e) = tx_tenant s) (tasks (st s))"
  have d: "distinct (map fst es)"
    using bt_distinct[OF wf] by (simp add: es_def distinct_map_filter)
  have "e \<in> set es \<Longrightarrow> fst e = (tx_tenant s, t_id (snd e))" for e
    using assms wf bt_mem_iff[OF wf, of "fst e" "snd e"]
    by (cases e; cases "fst e") (auto simp: es_def keys_ok_def row_at_def)
  then have "map fst es = map (\<lambda>t. (tx_tenant s, t_id t)) (map snd es)"
    by (simp add: comp_def)
  then have "distinct (map (\<lambda>t. (tx_tenant s, t_id t)) (tenant_tasks s))"
    using d unfolding tenant_tasks_def es_def by metis
  then show ?thesis by (auto simp: distinct_map inj_on_def)
qed

lemma children_of_iff:
  "keys_ok (st s) \<Longrightarrow> u \<in> set (children_of s p) \<longleftrightarrow> task_at s (t_id u) = Some u \<and> t_parent u = Some p"
  by (auto simp: children_of_def tenant_tasks_iff)

section \<open>Calls\<close>

lemma tx_start_simps [store_simps]:
  "st (tx_start m tn now) = m" "tx_tenant (tx_start m tn now) = tn" "tx_now (tx_start m tn now) = now"
  by (simp_all add: tx_start_def)

lemma step_cases:
  obtains (rolled_back) e where "exec lower c (tx_start m tn now) = Inl e" "step lower tn now c m = m"
  | (committed) u s' where "exec lower c (tx_start m tn now) = Inr (u, s')" "step lower tn now c m = st s'"
  by (cases "exec lower c (tx_start m tn now)") (auto simp: step_def run_tx_def)

section \<open>The contexts in which the protocols write\<close>

text \<open>A row that \<open>create\<close> or \<open>decompose\<close> may add.\<close>

definition root_row_ok :: "tx \<Rightarrow> task \<Rightarrow> bool" where
  "root_row_ok s t \<longleftrightarrow> (\<exists>req p pol u. t = new_root req (t_id t) p pol u (tx_now s)
     \<and> root_path (t_id t) = Inr p \<and> policy_ok pol)"

definition child_row_ok :: "tx \<Rightarrow> task \<Rightarrow> bool" where
  "child_row_ok s t \<longleftrightarrow> (\<exists>parent state a c path ord.
     task_at s (t_id parent) = Some parent \<and> t_kind parent \<noteq> K_Leaf
     \<and> state \<in> {S_Ready, S_AwaitingApproval}
     \<and> child_of (t_path parent) ord = Inr path
     \<and> (\<forall>j u. task_at s j = Some u \<longrightarrow> t_parent u = Some (t_id parent) \<longrightarrow> t_ordinal u \<noteq> ord)
     \<and> t = child_row parent (t_depth parent + 1) state a c (t_id t) path ord (tx_now s))"

definition new_row_ok :: "tx \<Rightarrow> task \<Rightarrow> bool" where
  "new_row_ok s t \<longleftrightarrow> t_id t = next_task_id (st s) + 1 \<and> (root_row_ok s t \<or> child_row_ok s t)"

text \<open>The row after a state move, with the fields written together with the move.\<close>

inductive row_move :: "tx \<Rightarrow> task \<Rightarrow> task \<Rightarrow> bool" where
  plain_move: "to \<notin> {S_Claimed, S_Superseded, S_InReview} \<or> to = S_Running \<Longrightarrow>
    row_move s t (moved (tx_now s) to t)"
| claim_move: "list_all (dep_done s) (t_depends_on t) \<Longrightarrow>
    row_move s t (leased_row own (sat_add64 (tx_now s) (lease_ms secs)) (moved (tx_now s) S_Claimed t))"
| supersede_move: "row_move s t (set_superseded by (moved (tx_now s) S_Superseded t))"
| review_move: "pr_validate pr = Inr () \<Longrightarrow>
    row_move s t (pr_fields pr (moved (tx_now s) S_InReview t))"

text \<open>A write to a row that moves no state and records no event.\<close>

inductive field_write :: "tx \<Rightarrow> task \<Rightarrow> task \<Rightarrow> bool" where
  write_deps: "t_kind t = K_Task \<Longrightarrow> t_state t \<in> {S_Ready, S_AwaitingApproval} \<Longrightarrow>
    (\<forall>d \<in> set ds. \<exists>u. task_at s d = Some u \<and> t_parent u = t_parent t) \<Longrightarrow>
    field_write s t (t\<lparr>t_depends_on := ds\<rparr>)"
| write_attempts: "field_write s t (set_attempts n t)"
| write_goal: "g \<noteq> [] \<Longrightarrow> char_count g \<le> max_goal \<Longrightarrow> field_write s t (set_goal g t)"
| write_lease: "is_leased (t_state t) \<Longrightarrow> field_write s t (extend_lease (tx_now s) (lease_ms secs) t)"
| write_leaf: "t_kind t = K_Task \<Longrightarrow> t_state t \<in> {S_Ready, S_AwaitingApproval} \<Longrightarrow>
    (\<forall>j u. task_at s j = Some u \<longrightarrow> t_parent u \<noteq> Some (t_id t)) \<Longrightarrow>
    is_leaf_size (ml_est_size req) \<Longrightarrow> field_write s t (leaf_fields req t)"

text \<open>An attempt row keeps its identity when its outcome fields are filled in.\<close>

definition same_attempt :: "task_attempt \<Rightarrow> task_attempt \<Rightarrow> bool" where
  "same_attempt a b \<longleftrightarrow> at_id a = at_id b \<and> at_task a = at_task b \<and> at_kind a = at_kind b
     \<and> at_idem a = at_idem b \<and> at_owner a = at_owner b \<and> at_outcome a = at_outcome b
     \<and> at_started a = at_started b"

definition patch_ok :: "(task_attempt \<Rightarrow> task_attempt) \<Rightarrow> bool" where
  "patch_ok f \<longleftrightarrow> (\<forall>a. same_attempt (f a) a \<and> at_ended (f a) = at_ended a)"

section \<open>The whole store from its elementary writes\<close>

locale store_rel =
  fixes I :: "tx \<Rightarrow> bool" and R :: "tx \<Rightarrow> tx \<Rightarrow> bool"
  assumes R_refl: "R s s"
    and R_trans: "R s s' \<Longrightarrow> R s' s'' \<Longrightarrow> R s s''"
    and I_keys: "I s \<Longrightarrow> keys_ok (st s)"
    and on_tenant: "I s \<Longrightarrow> I (add_tenant s) \<and> R s (add_tenant s)"
    and on_new: "I s \<Longrightarrow> new_row_ok s t \<Longrightarrow> I (add_row t a d s) \<and> R s (add_row t a d s)"
    and on_move: "I s \<Longrightarrow> task_at s i = Some t \<Longrightarrow>
      allowed (t_state t) (t_state t') (t_kind t) (actor_class_of a) \<Longrightarrow> row_move s t t' \<Longrightarrow>
      I (move_row i t t' a d s) \<and> R s (move_row i t t' a d s)"
    and on_field: "I s \<Longrightarrow> task_at s i = Some t \<Longrightarrow> field_write s t t' \<Longrightarrow>
      I (put_task i t' s) \<and> R s (put_task i t' s)"
    and on_policy: "I s \<Longrightarrow> task_at s i = Some t \<Longrightarrow> is_root t \<Longrightarrow> policy_ok p \<Longrightarrow>
      I (move_row i t (policy_row p (tx_now s) t) a d s)
      \<and> R s (move_row i t (policy_row p (tx_now s) t) a d s)"
    and on_note: "I s \<Longrightarrow> task_at s i = Some t \<Longrightarrow>
      I (log_event i (Some (t_state t)) (t_state t) a (t_version t) d s)
      \<and> R s (log_event i (Some (t_state t)) (t_state t) a (t_version t) d s)"
    and on_attempt: "I s \<Longrightarrow> (tx_tenant s, at_idem r) \<notin> idem (st s) \<Longrightarrow>
      at_id r = next_attempt_id (st s) + 1 \<Longrightarrow> task_at s (at_task r) \<noteq> None \<Longrightarrow>
      I (add_attempt r s) \<and> R s (add_attempt r s)"
    and on_fill: "I s \<Longrightarrow> map_of (attempts (st s)) (tx_tenant s, aid) = Some r \<Longrightarrow>
      same_attempt r' r \<Longrightarrow> I (put_attempt aid r' s) \<and> R s (put_attempt aid r' s)"
    and on_close: "I s \<Longrightarrow> patch_ok f \<Longrightarrow> oc \<noteq> O_Pending \<Longrightarrow>
      I (close_state i own oc f s) \<and> R s (close_state i own oc f s)"
begin

definition valid :: "(tx \<Rightarrow> bool) \<Rightarrow> 'a op \<Rightarrow> ('a \<Rightarrow> tx \<Rightarrow> bool) \<Rightarrow> bool" where
  "valid P m Q \<longleftrightarrow> (\<forall>s a t. I s \<longrightarrow> P s \<longrightarrow> m s = Inr (a, t) \<longrightarrow> I t \<and> R s t \<and> Q a t)"

definition keeps :: "'a op \<Rightarrow> bool" where
  "keeps m \<longleftrightarrow> valid (\<lambda>_. True) m (\<lambda>_ _. True)"

lemma validI:
  "(\<And>s a t. I s \<Longrightarrow> P s \<Longrightarrow> m s = Inr (a, t) \<Longrightarrow> I t \<and> R s t \<and> Q a t) \<Longrightarrow> valid P m Q"
  by (auto simp: valid_def)

lemma valid_bind: "valid P m Q \<Longrightarrow> (\<And>a. valid (Q a) (f a) Q') \<Longrightarrow> valid P (bindM m f) Q'"
  unfolding valid_def bindM_Inr by (blast intro: R_trans)

lemma keepsD: "keeps m \<Longrightarrow> I s \<Longrightarrow> m s = Inr (a, t) \<Longrightarrow> I t \<and> R s t"
  by (auto simp: keeps_def valid_def)

lemma keepsI: "(\<And>s a t. I s \<Longrightarrow> m s = Inr (a, t) \<Longrightarrow> I t \<and> R s t) \<Longrightarrow> keeps m"
  by (auto simp: keeps_def valid_def)

lemma keeps_bind: "keeps m \<Longrightarrow> (\<And>a. keeps (f a)) \<Longrightarrow> keeps (bindM m f)"
  unfolding keeps_def by (rule valid_bind[where Q = "\<lambda>_ _. True"]) simp_all

lemma keeps_basic:
  "keeps (retM a)" "keeps (failM e)" "keeps (getsM g)" "keeps (liftM r)" "keeps (get_task i)"
  "keeps (policy_of c)" "keeps (require_state t x)" "keeps (cas t v x)" "keeps (require_owner t own)"
  "keeps (idem_fresh ik)" "keeps (lift_path q)"
  by (rule keepsI; auto simp: op_Inr R_refl)+

lemma keeps_if: "(c \<Longrightarrow> keeps m) \<Longrightarrow> (\<not> c \<Longrightarrow> keeps m') \<Longrightarrow> keeps (if c then m else m')"
  by simp

lemma keeps_transition:
  "to \<notin> {S_Claimed, S_Superseded, S_InReview} \<Longrightarrow> keeps (transition i to a d)"
  by (rule keepsI, clarsimp simp: transition_Inr) (rule on_move, auto intro: plain_move)

lemma plain_transition:
  "I s \<Longrightarrow> to \<notin> {S_Claimed, S_Superseded, S_InReview} \<Longrightarrow> transition i to a d s = Inr (r, s') \<Longrightarrow>
    I s' \<and> R s s'"
  by (rule keepsD[OF keeps_transition])

lemma keeps_close: "patch_ok f \<Longrightarrow> oc \<noteq> O_Pending \<Longrightarrow> keeps (close_work i own oc f)"
  by (rule keepsI, clarsimp simp: close_work_Inr) (rule on_close)

lemma keeps_mapM: "(\<And>x. x \<in> set xs \<Longrightarrow> keeps (f x)) \<Longrightarrow> keeps (mapM f xs)"
proof (induction xs)
  case (Cons x xs)
  then show ?case by (auto intro!: keeps_bind keeps_basic)
qed (simp add: keeps_basic)

lemma keeps_rollup: "keeps (rollup_from n p)"
proof (induction n p rule: rollup_from.induct)
  case (3 n i)
  show ?case
    unfolding rollup_from.simps
  proof (intro keeps_bind keeps_basic)
    fix p :: task and states
    show "keeps (case rollup (t_state p) states of
        Some next \<Rightarrow> bindM (transition i next Ac_Rollup (json_obj [])) (\<lambda>_. rollup_from n (t_parent p))
      | None \<Rightarrow> retM ())"
    proof (cases "rollup (t_state p) states")
      case (Some nxt)
      then have "nxt \<notin> {S_Claimed, S_Superseded, S_InReview}" using rollup_result[OF Some] by auto
      then have "keeps (transition i nxt Ac_Rollup (json_obj []))" by (intro keeps_transition)
      then show ?thesis using Some 3[OF Some] by (simp add: keeps_bind)
    qed (simp add: keeps_basic)
  qed
qed (simp_all add: keeps_basic)

lemma keeps_rollup_up: "keeps (rollup_up p)"
  by (simp add: rollup_up_def keeps_rollup)

lemma keeps_block_dependents: "keeps (block_dependents leaf)"
  unfolding block_dependents_def
  by (cases "t_parent leaf") (auto intro!: keeps_bind keeps_basic keeps_mapM keeps_transition)

lemma keeps_attempt:
  "I s \<Longrightarrow> task_at s i \<noteq> None \<Longrightarrow> insert_attempt i k ik own oc s = Inr (aid, s') \<Longrightarrow> I s' \<and> R s s'"
  unfolding insert_attempt_Inr by (elim conjE, hypsubst, rule on_attempt) simp_all

lemma patch_id: "patch_ok (\<lambda>a. a)"
  by (simp add: patch_ok_def same_attempt_def)

lemmas keeps_intros = keeps_bind keeps_basic keeps_transition keeps_mapM keeps_rollup_up
  keeps_block_dependents keeps_if

lemma keeps_note:
  assumes "I s" "task_at s i = Some t" "t_state t = x"
    and "emit_event i (Some x) x a (t_version t) d s = Inr (u, s')"
  shows "I s' \<and> R s s'"
  using on_note[OF assms(1,2)] assms(3,4) by (auto simp: emit_event_Inr)

text \<open>Protocols whose steps all stand on their own.\<close>

lemma keeps_plan_start: "keeps (plan_start i)"
  unfolding plan_start_def
  by (auto simp: Let_def intro!: keeps_intros split: option.split)

lemma keeps_reap: "keeps reap"
  unfolding reap_def reap_one_def
  by (auto simp: Let_def intro!: keeps_intros keeps_close patch_id)

lemma keeps_reap_decomposing: "keeps (reap_decomposing n)"
  unfolding reap_decomposing_def by (auto intro!: keeps_intros)

lemma keeps_start: "keeps (start i own)"
  unfolding start_def by (auto intro!: keeps_intros)

lemma keeps_fail: "keeps (fail_leaf req)"
  unfolding fail_leaf_def
  by (auto simp: Let_def patch_ok_def same_attempt_def split: prod.split fail_cause.split
      intro!: keeps_intros keeps_close) (cases "fl_cause req"; simp)+

lemma keeps_resolve: "keeps (resolve_review i oc)"
  unfolding resolve_review_def whenM_def
  by (cases oc) (auto intro!: keeps_intros)

lemma keeps_approve_children: "keeps (approve_children i a)"
  unfolding approve_children_def by (auto intro!: keeps_intros)

lemma keeps_retry: "keeps (retry i a)"
  unfolding retry_def by (auto intro!: keeps_intros)

lemma keeps_cancel: "keeps (cancel i a)"
  unfolding cancel_def cancel_one_def by (auto intro!: keeps_intros keeps_close patch_id)

text \<open>Protocols that write in a context.\<close>

lemma keeps_create: "keeps (create lower req a)"
proof (rule keepsI)
  fix s t s'
  assume "I s" and c: "create lower req a s = Inr (t, s')"
  let ?s1 = "add_tenant s"
  have "I ?s1" "R s ?s1" using on_tenant[OF \<open>I s\<close>] by simp_all
  define pol where "pol = (case nc_policy req of Some p \<Rightarrow> p | None \<Rightarrow> default_policy)"
  from c obtain u path d where u: "a = Ac_User u" "new_campaign_validate req = Inr ()"
    and path: "root_path (next_task_id (st s) + 1) = Inr path"
    and s': "s' = add_row (new_root req (next_task_id (st s) + 1) path pol u (tx_now s)) (Ac_User u) d ?s1"
    by (auto simp: create_def bindM_Inr op_Inr human_Inr Let_def add_row_def pol_def add_tenant_def
        new_root_def)
  have "policy_ok pol"
    using u(2) by (auto simp: pol_def new_campaign_validate_def result_simps default_policy_ok
        policy_validate_ok split: option.splits)
  then have "new_row_ok ?s1 (new_root req (next_task_id (st s) + 1) path pol u (tx_now s))"
    unfolding new_row_ok_def root_row_ok_def using path
    by (auto simp: store_simps new_root_def intro!: exI[of _ req] exI[of _ path] exI[of _ pol])
  from on_new[OF \<open>I ?s1\<close> this] show "I s' \<and> R s s'"
    using \<open>R s ?s1\<close> s' by (auto intro: R_trans)
qed

lemma keeps_heartbeat: "keeps (heartbeat i own n)"
proof (rule keepsI)
  fix s u s' assume "I s" and h: "heartbeat i own n s = Inr (u, s')"
  from h obtain t where t: "task_at s i = Some t" "is_leased (t_state t)"
      "s' = put_task i (extend_lease (tx_now s) (lease_ms n) t) s"
    by (auto simp: heartbeat_def split: option.splits if_splits)
  from on_field[OF \<open>I s\<close> t(1) write_lease[OF t(2)]] show "I s' \<and> R s s'" using t(3) by simp
qed

lemma keeps_review_note: "keeps (review_note i note)"
proof (rule keepsI)
  fix s b s' assume "I s" and r: "review_note i note s = Inr (b, s')"
  from r obtain t where "task_at s i = Some t" "t_state t = S_InReview"
      "s' = s \<or> s' = log_event i (Some S_InReview) S_InReview Ac_Poller (t_version t)
         (review_note_detail note) s"
    by (auto simp: review_note_def bindM_Inr op_Inr Let_def split: if_splits)
  then show "I s' \<and> R s s'"
    using on_note[OF \<open>I s\<close>, of i t Ac_Poller] \<open>I s\<close> R_refl by auto
qed

lemma keeps_approve: "keeps (approve i v a)"
proof (rule keepsI)
  fix s t' s' assume "I s" and r: "approve i v a s = Inr (t', s')"
  then obtain u t where t: "a = Ac_User u" "task_at s i = Some t"
    by (auto simp: approve_def bindM_Inr op_Inr human_Inr)
  show "I s' \<and> R s s'"
  proof (cases "t_state t = S_InReview")
    case True
    then have "s' = log_event i (Some S_InReview) S_InReview (Ac_User u) (t_version t)
        (json_obj [(''pr_approved'', J_Bool True)]) s"
      using r t by (auto simp: approve_def bindM_Inr op_Inr human_Inr)
    then show ?thesis using on_note[OF \<open>I s\<close> t(2), of "Ac_User u"] True by simp
  next
    case False
    then have "transition i S_Ready (Ac_User u) (json_obj []) s = Inr (t', s')"
      using r t by (auto simp: approve_def bindM_Inr op_Inr human_Inr)
    then show ?thesis by (rule plain_transition[OF \<open>I s\<close>, rotated]) simp
  qed
qed

lemma keeps_answer: "keeps (answer lower i v text a)"
proof (rule keepsI)
  fix s t' s' assume "I s" and r: "answer lower i v text a s = Inr (t', s')"
  then obtain u and t :: task and x s1 where
    g: "check_max ''goal'' (t_goal t @ clarification_header @ text) max_goal = Inr ()"
    and tr: "transition i S_Ready (Ac_User u) (json_obj [(''answered'', J_Bool True)]) s = Inr (x, s1)"
    and m: "mod_task i (set_goal (t_goal t @ clarification_header @ text)) s1 = Inr (t', s')"
    by (auto simp: answer_def Let_def bindM_Inr liftM_Inr get_task_Inr cas_Inr)
  have 1: "I s1 \<and> R s s1" using plain_transition[OF \<open>I s\<close> _ tr] by simp
  have "char_count (t_goal t @ clarification_header @ text) \<le> max_goal"
    using g by (simp add: check_max_def split: if_splits)
  from m obtain t1 where t1: "task_at s1 i = Some t1"
      "s' = put_task i (set_goal (t_goal t @ clarification_header @ text) t1) s1"
    by (auto simp: mod_task_Inr)
  have "I s' \<and> R s1 s'"
    unfolding t1(2)
    by (rule on_field[OF _ t1(1)]) (use 1 in simp, rule write_goal, simp add: clarification_header_def, fact)
  then show "I s' \<and> R s s'" using 1 R_trans by blast
qed

lemma keeps_update_policy: "keeps (update_policy i p a)"
proof (rule keepsI)
  fix s t' s' assume "I s" and r: "update_policy i p a s = Inr (t', s')"
  then obtain u t d where "task_at s i = Some t" "is_root t" "policy_validate p = Inr ()"
      "s' = move_row i t (policy_row p (tx_now s) t) (Ac_User u) d s"
    by (auto simp: update_policy_def bindM_Inr op_Inr human_Inr move_row_def policy_row_def
        split: if_splits)
  then show "I s' \<and> R s s'" using on_policy[OF \<open>I s\<close>, of i t p] by (simp add: policy_validate_ok)
qed

lemma keeps_move_then:
  assumes "I s" "transition i to a d s = Inr (r, s1)" "mod_task i f s1 = Inr (r', s')"
    and f: "\<And>t. t_state (f t) = t_state t \<and> t_version (f t) = t_version t \<and> t_campaign (f t) = t_campaign t"
    and move: "\<And>t. task_at s i = Some t \<Longrightarrow> row_move s t (f (moved (tx_now s) to t))"
  shows "I s' \<and> R s s' \<and> (\<exists>t. task_at s i = Some t \<and> allowed (t_state t) to (t_kind t) (actor_class_of a)
    \<and> s' = move_row i t (f (moved (tx_now s) to t)) a d s)"
proof -
  from assms(2) obtain t where t: "task_at s i = Some t"
      "allowed (t_state t) to (t_kind t) (actor_class_of a)"
      "s1 = move_row i t (moved (tx_now s) to t) a d s"
    by (auto simp: transition_Inr)
  then have "s' = put_task i (f (moved (tx_now s) to t)) s1"
    using assms(3) by (auto simp: mod_task_Inr move_row_def store_simps)
  also have "\<dots> = move_row i t (f (moved (tx_now s) to t)) a d s"
    unfolding t(3) by (rule put_after_move) (simp_all add: f)
  finally have s': "s' = move_row i t (f (moved (tx_now s) to t)) a d s" .
  have "t_state (f (moved (tx_now s) to t)) = to" by (simp add: f)
  then have "I s' \<and> R s s'"
    unfolding s' using t by (intro on_move assms(1) move) simp_all
  then show ?thesis using t s' by blast
qed

lemma keeps_complete: "keeps (complete req)"
proof (rule keepsI)
  fix s r s' assume "I s" and c: "complete req s = Inr (r, s')"
  obtain tin tout where cl: "clamped (cp_tokens req) = (tin, tout)" by fastforce
  define f where "f = (\<lambda>a. a\<lparr>at_pr_url := Some (pr_link (cp_pr req)),
      at_tokens_in := tin, at_tokens_out := tout, at_session := cp_session req\<rparr> :: task_attempt)"
  from c obtain t :: task and d x y s1 s2 where
    v: "pr_validate (cp_pr req) = Inr ()"
    and tr: "transition (t_id t) S_InReview (Ac_Worker (cp_owner req)) d s = Inr (x, s1)"
    and m: "mod_task (t_id t) (pr_fields (cp_pr req)) s1 = Inr (y, s2)"
    and s': "s' = close_state (t_id t) (Some (cp_owner req)) O_Pr f s2"
    by (auto simp: complete_def Let_def bindM_Inr liftM_Inr get_task_Inr require_owner_Inr
        require_state_Inr close_work_Inr f_def cl)
  have 1: "I s2 \<and> R s s2"
    using keeps_move_then[OF \<open>I s\<close> tr m] v by (simp add: pr_fields_def review_move[unfolded pr_fields_def])
  have "patch_ok f" by (simp add: patch_ok_def same_attempt_def f_def)
  then have "I s' \<and> R s2 s'" unfolding s' using 1 by (intro on_close) simp_all
  then show "I s' \<and> R s s'" using 1 R_trans by blast
qed

lemma keeps_supersede: "keeps (supersede_one u by node)"
proof (rule keepsI)
  fix s r s' assume "I s" and c: "supersede_one u by node s = Inr (r, s')"
  from c obtain d x y s1 s2 where
    tr: "transition (t_id node) S_Superseded (Ac_User u) d s = Inr (x, s1)"
    and m: "mod_task (t_id node) (set_superseded by) s1 = Inr (y, s2)"
    and cl: "s' = close_state (t_id node) None O_LeaseLost (\<lambda>a. a) s2"
    by (auto simp: supersede_one_def bindM_Inr close_work_Inr)
  have 1: "I s2 \<and> R s s2"
    using keeps_move_then[OF \<open>I s\<close> tr m] by (simp add: set_superseded_def supersede_move[unfolded set_superseded_def])
  have "I s' \<and> R s2 s'" unfolding cl using 1 patch_id by (intro on_close) simp_all
  then show "I s' \<and> R s s'" using 1 R_trans by blast
qed

lemma keeps_set_attempts: "keeps (mod_task i (set_attempts n))"
  by (rule keepsI, clarsimp simp: mod_task_Inr) (rule on_field, auto intro: write_attempts)

lemma keeps_replan: "keeps (replan i a)"
  unfolding replan_def
  by (auto intro!: keeps_intros keeps_supersede keeps_set_attempts)

lemma keeps_plan_attempt:
  assumes "I s" "task_at s i \<noteq> None" "plan_attempt_row i pa oc err s = Inr (aid, s')"
  shows "I s' \<and> R s s' \<and> task_at s' = task_at s \<and> tx_tenant s' = tx_tenant s \<and> tx_now s' = tx_now s
    \<and> tasks (st s') = tasks (st s) \<and> next_task_id (st s') = next_task_id (st s)"
proof -
  obtain tin tout where cl: "clamped (pa_tokens pa) = (tin, tout)" by fastforce
  from assms(3) obtain s1 where
    ins: "insert_attempt i T_Decompose (pa_idem pa) None oc s = Inr (aid, s1)"
    and fill: "s' = (case map_of (attempts (st s1)) (tx_tenant s1, aid) of
             None \<Rightarrow> s1
           | Some row \<Rightarrow> put_attempt aid
               (row\<lparr>at_prompt_hash := pa_prompt_hash pa, at_model := pa_model pa,
                  at_tokens_in := tin, at_tokens_out := tout, at_error := err,
                  at_ended := Some (tx_now s1)\<rparr>) s1)"
    by (auto simp: plan_attempt_row_def bindM_Inr liftM_Inr modM_Inr retM_Inr Let_def put_attempt_def cl
        cong: option.case_cong)
  have 1: "I s1 \<and> R s s1" by (rule keeps_attempt[OF assms(1,2) ins])
  have same: "task_at s1 = task_at s" "tx_tenant s1 = tx_tenant s" "tx_now s1 = tx_now s"
      "tasks (st s1) = tasks (st s)" "next_task_id (st s1) = next_task_id (st s)"
    using ins by (auto simp: insert_attempt_Inr store_simps)
  show ?thesis
  proof (cases "map_of (attempts (st s1)) (tx_tenant s1, aid)")
    case None
    then show ?thesis using 1 same fill cl by simp
  next
    case (Some row)
    then have s': "s' = put_attempt aid (row\<lparr>at_prompt_hash := pa_prompt_hash pa, at_model := pa_model pa,
        at_tokens_in := tin, at_tokens_out := tout, at_error := err,
        at_ended := Some (tx_now s1)\<rparr>) s1"
      using fill cl by simp
    have "I s' \<and> R s1 s'"
      unfolding s' by (rule on_fill) (use 1 Some in \<open>simp_all add: same_attempt_def\<close>)
    moreover have "R s s1" using 1 by simp
    ultimately show ?thesis
      using same R_trans unfolding s' by (auto simp: store_simps)
  qed
qed

lemma keeps_mark_leaf: "keeps (mark_leaf lower req)"
proof (rule keepsI)
  fix s r s' assume "I s" and m: "mark_leaf lower req s = Inr (r, s')"
  then obtain t :: task and policy aid d x s1 s2 where
    t: "task_at s (ml_task req) = Some t" "t_kind t \<noteq> K_Objective" "t_state t = S_Decomposing"
      "children_of s (t_id t) = []" "check_leaf lower req = Inr ()"
    and pa: "plan_attempt_row (t_id t) (ml_attempt req) O_Execute None s = Inr (aid, s1)"
    and tr': "transition (t_id t) (if gated policy (t_depth t) then S_AwaitingApproval else S_Ready)
      (Ac_Attempt aid) d s1 = Inr (x, s2)"
    and lf: "mod_task (t_id t) (leaf_fields req) s2 = Inr (r, s')"
    by (auto simp: mark_leaf_def bindM_Inr idem_fresh_Inr get_task_Inr cas_Inr getsM_Inr liftM_Inr
        policy_of_Inr Let_def if_fail_Inr simp del: if_split)
  define to where "to = (if gated policy (t_depth t) then S_AwaitingApproval else S_Ready)"
  note tr = tr'[folded to_def]
  have to: "to \<in> {S_AwaitingApproval, S_Ready}" by (simp add: to_def)
  have keys: "keys_ok (st s)" using I_keys[OF \<open>I s\<close>] .
  then have id: "t_id t = ml_task req" using t(1) by (auto simp: keys_ok_def task_at_row)
  have 1: "I s1 \<and> R s s1" and same: "task_at s1 = task_at s"
    using keeps_plan_attempt[OF \<open>I s\<close> _ pa] t(1) id by simp_all
  have 2: "I s2 \<and> R s1 s2" by (rule plain_transition[OF _ _ tr]) (use 1 to in auto)
  from tr have s2: "s2 = move_row (t_id t) t (moved (tx_now s1) to t) (Ac_Attempt aid) d s1"
    and al: "allowed (t_state t) to (t_kind t) A_Planner"
    using t(1) id same by (auto simp: transition_Inr)
  have kind: "t_kind t = K_Task"
    using planner_non_leaf[OF al] t(2) to by (cases "t_kind t") auto
  have now: "task_at s2 (t_id t) = Some (moved (tx_now s1) to t)"
    by (simp add: s2 move_row_def store_simps)
  have "t_parent u \<noteq> Some (t_id t)" if "task_at s j = Some u" for j u
  proof -
    have "t_id u = j" using that keys by (auto simp: keys_ok_def task_at_row)
    then show ?thesis using that t(4) children_of_iff[OF keys, of u "t_id t"] by simp
  qed
  then have nochild: "\<forall>j u. task_at s2 j = Some u \<longrightarrow> t_parent u \<noteq> Some (t_id t)"
    using t(1) id same by (auto simp: s2 move_row_def store_simps moved_def Let_def split: if_splits)
  have "is_leaf_size (ml_est_size req)"
    using t(5) by (auto simp: check_leaf_def result_simps split: if_splits)
  then have "field_write s2 (moved (tx_now s1) to t) (leaf_fields req (moved (tx_now s1) to t))"
    using nochild kind to by (intro write_leaf) (auto simp: moved_def Let_def)
  then have "I s' \<and> R s2 s'"
    using on_field[OF _ now, of "leaf_fields req (moved (tx_now s1) to t)"] 2 lf now
    by (auto simp: mod_task_Inr)
  then show "I s' \<and> R s s'" using 1 2 R_trans by blast
qed

lemma valid_attempt_then:
  assumes "\<And>aid. keeps (f aid)"
  shows "valid (\<lambda>s. task_at s i \<noteq> None) (bindM (plan_attempt_row i pa oc err) f) (\<lambda>_ _. True)"
proof (rule validI)
  fix s b t assume "I s" "task_at s i \<noteq> None" "bindM (plan_attempt_row i pa oc err) f s = Inr (b, t)"
  then obtain aid s1 where "plan_attempt_row i pa oc err s = Inr (aid, s1)" "f aid s1 = Inr (b, t)"
    by (auto simp: bindM_Inr)
  then show "I t \<and> R s t \<and> True"
    using keeps_plan_attempt[OF \<open>I s\<close> \<open>task_at s i \<noteq> None\<close>] keepsD[OF assms] R_trans by metis
qed

lemma valid_lift_then: "valid P m Q \<Longrightarrow> valid P (bindM (liftM r) (\<lambda>_. m)) Q"
  unfolding valid_def bindM_Inr liftM_Inr by blast

lemma valid_close_node: "valid (\<lambda>s. task_at s (t_id t) \<noteq> None) (close_node lower req t) (\<lambda>_ _. True)"
  unfolding close_node_def Let_def
  by (cases "pc_outcome req"; simp only: plan_close_outcome.case)
    (intro valid_lift_then valid_attempt_then keeps_intros keeps_set_attempts; simp)+

lemma keeps_plan_close: "keeps (plan_close lower req)"
proof (rule keepsI)
  fix s r s' assume "I s" and p: "plan_close lower req s = Inr (r, s')"
  from p obtain t where t: "task_at s (pc_task req) = Some t" "close_node lower req t s = Inr (r, s')"
    by (auto simp: plan_close_def bindM_Inr idem_fresh_Inr get_task_Inr cas_Inr failM_Inr
        split: if_splits)
  have "t_id t = pc_task req" using t(1) I_keys[OF \<open>I s\<close>] by (auto simp: keys_ok_def task_at_row)
  then have there: "task_at s (t_id t) \<noteq> None" using t(1) by simp
  then show "I s' \<and> R s s'" using \<open>I s\<close> valid_close_node t(2) unfolding valid_def by blast
qed

text \<open>Candidates of a claim stay claimable while earlier ones are being claimed.\<close>

definition claim_ready :: "tx \<Rightarrow> task list \<Rightarrow> bool" where
  "claim_ready s cs \<longleftrightarrow> distinct (map t_id cs) \<and> (\<forall>c \<in> set cs. task_at s (t_id c) = Some c
     \<and> t_state c = S_Ready \<and> list_all (dep_done s) (t_depends_on c))"

lemma claim_one_step:
  assumes "I s" "claim_ready s (c # cs)"
    and c: "claim_one own (lease_ms secs) (k, c) s = Inr (r, s')"
  shows "I s' \<and> R s s' \<and> claim_ready s' cs"
proof -
  let ?i = "t_id c"
  let ?c' = "leased_row own (sat_add64 (tx_now s) (lease_ms secs)) (moved (tx_now s) S_Claimed c)"
  have row: "task_at s ?i = Some c" "t_state c = S_Ready" "list_all (dep_done s) (t_depends_on c)"
    using assms(2) by (simp_all add: claim_ready_def)
  from c obtain d x s1 y s2 ik aid where
    tr: "transition ?i S_Claimed (Ac_Driver own) d s = Inr (x, s1)"
    and m: "mod_task ?i (leased_row own (sat_add64 (tx_now s1) (lease_ms secs))) s1 = Inr (y, s2)"
    and at: "insert_attempt ?i T_Work ik (Some own) O_Pending s2 = Inr (aid, s')"
    by (auto simp: claim_one_def Let_def bindM_Inr getsM_Inr get_task_Inr retM_Inr)
  have now: "tx_now s1 = tx_now s" using tr by (auto simp: transition_Inr move_row_def store_simps)
  have field: "t_state (leased_row own n t) = t_state t \<and> t_version (leased_row own n t) = t_version t
      \<and> t_campaign (leased_row own n t) = t_campaign t" for n t
    by (simp add: leased_row_def)
  have move: "row_move s t (leased_row own (sat_add64 (tx_now s) (lease_ms secs)) (moved (tx_now s) S_Claimed t))"
    if "task_at s ?i = Some t" for t
    using that row by (intro claim_move) simp
  from keeps_move_then[OF assms(1) tr m[unfolded now] field move]
  have 1: "I s2" "R s s2" and s2: "s2 = move_row ?i c ?c' (Ac_Driver own) d s"
    using row(1) by auto
  have at2: "task_at s2 ?i \<noteq> None" by (simp add: s2 move_row_def store_simps)
  have 2: "I s' \<and> R s2 s'" by (rule keeps_attempt[OF 1(1) at2 at])
  have rows: "task_at s' j = (if j = ?i then Some ?c' else task_at s j)" for j
  proof -
    have "task_at s' = task_at s2" using at by (auto simp: insert_attempt_Inr store_simps)
    then show ?thesis by (simp add: s2 move_row_def store_simps)
  qed
  have fin: "dep_done s' j" if d: "dep_done s j" for j
  proof -
    obtain u where u: "task_at s j = Some u" "t_state u = S_Done"
      using d by (auto simp: dep_done_def split: option.splits)
    then have "j \<noteq> ?i" using row(1,2) by auto
    then show ?thesis using u by (simp add: dep_done_def rows)
  qed
  have cr: "?i \<notin> t_id ` set cs" "distinct (map t_id cs)"
    "\<forall>e \<in> set cs. task_at s (t_id e) = Some e \<and> t_state e = S_Ready \<and> list_all (dep_done s) (t_depends_on e)"
    using assms(2) by (simp_all add: claim_ready_def)
  have other: "task_at s' (t_id e) = Some e \<and> t_state e = S_Ready \<and> list_all (dep_done s') (t_depends_on e)"
    if e: "e \<in> set cs" for e
  proof -
    have "t_id e \<noteq> ?i" using cr(1) e by (metis imageI)
    then have "task_at s' (t_id e) = task_at s (t_id e)" by (simp add: rows)
    moreover have "list_all (dep_done s') (t_depends_on e)"
      using cr(3) e by (auto simp: list_all_iff intro: fin)
    ultimately show ?thesis using cr(3) e by simp
  qed
  have "claim_ready s' cs"
    unfolding claim_ready_def using cr(2) other by blast
  then show ?thesis using 1 2 R_trans by blast
qed

lemma claim_loop:
  assumes "I s" "claim_ready s cs"
    and "mapM (claim_one own (lease_ms secs)) (enumerate k cs) s = Inr (r, s')"
  shows "I s' \<and> R s s'"
  using assms
proof (induction cs arbitrary: k s r)
  case Nil
  then show ?case by (simp add: retM_Inr R_refl)
next
  case (Cons c cs)
  then obtain x s1 xs where
    1: "claim_one own (lease_ms secs) (k, c) s = Inr (x, s1)"
    and 2: "mapM (claim_one own (lease_ms secs)) (enumerate (Suc k) cs) s1 = Inr (xs, s')"
    by (auto simp: bindM_Inr retM_Inr)
  from claim_one_step[OF Cons.prems(1,2) 1] have "I s1" "R s s1" "claim_ready s1 cs" by auto
  then show ?case using Cons.IH[OF _ _ 2] R_trans by blast
qed

lemma distinct_map_take: "distinct (map f xs) \<Longrightarrow> distinct (map f (take n xs))"
  by (simp add: take_map[symmetric] distinct_take)

lemma keeps_claim: "keeps (claim req)"
proof (rule keepsI)
  fix s r s' assume "I s" and c: "claim req s = Inr (r, s')"
  define cs where "cs = take (cr_limit req) (sort_key campaign_path (filter (claimable s) (tenant_tasks s)))"
  have keys: "keys_ok (st s)" using I_keys[OF \<open>I s\<close>] .
  have "distinct (map t_id (sort_key campaign_path (filter (claimable s) (tenant_tasks s))))"
    using tenant_tasks_distinct[OF keys] by (simp add: distinct_map inj_on_def)
  then have "distinct (map t_id cs)" unfolding cs_def by (rule distinct_map_take)
  moreover have "\<forall>c \<in> set cs. task_at s (t_id c) = Some c \<and> t_state c = S_Ready
      \<and> list_all (dep_done s) (t_depends_on c)"
    by (auto simp: cs_def tenant_tasks_iff[OF keys] claimable_def dest!: in_set_takeD)
  ultimately have ready: "claim_ready s cs" by (simp add: claim_ready_def)
  show "I s' \<and> R s s'"
  proof (cases "cr_limit req = 0")
    case True
    then show ?thesis using c \<open>I s\<close> R_refl by (simp add: claim_def retM_Inr)
  next
    case False
    then have "mapM (claim_one (cr_owner req) (lease_ms (cr_lease_secs req))) (enumerate 0 cs) s = Inr (r, s')"
      using c by (auto simp: claim_def bindM_Inr getsM_Inr cs_def)
    then show ?thesis by (rule claim_loop[OF \<open>I s\<close> ready])
  qed
qed

text \<open>The batch of a decomposition: the parent stays put and ordinals keep growing.\<close>

definition batch_room :: "tx \<Rightarrow> task \<Rightarrow> nat \<Rightarrow> bool" where
  "batch_room s parent m \<longleftrightarrow> task_at s (t_id parent) = Some parent \<and> t_kind parent \<noteq> K_Leaf
     \<and> (\<forall>j u. task_at s j = Some u \<longrightarrow> t_parent u = Some (t_id parent) \<longrightarrow> t_ordinal u \<le> m)"

definition child_there :: "tx \<Rightarrow> task \<Rightarrow> task_state \<Rightarrow> task_id \<Rightarrow> bool" where
  "child_there s parent x i \<longleftrightarrow> (\<exists>u. task_at s i = Some u \<and> t_parent u = Some (t_id parent)
     \<and> t_kind u = K_Task \<and> t_state u = x)"

lemma insert_child_step:
  assumes "I s" "batch_room s parent (max_ord + k)" "x \<in> {S_Ready, S_AwaitingApproval}"
    and c: "insert_child parent (t_depth parent + 1) x a max_ord (k, c) s = Inr (i, s')"
  shows "I s' \<and> R s s' \<and> batch_room s' parent (max_ord + Suc k) \<and> child_there s' parent x i
    \<and> (\<forall>j u. task_at s j = Some u \<longrightarrow> task_at s' j = Some u)"
proof -
  from c obtain path where path: "child_of (t_path parent) (max_ord + k + 1) = Inr path"
    and i: "i = next_task_id (st s) + 1"
    and s': "s' = add_row (child_row parent (t_depth parent + 1) x a c i path (max_ord + k + 1) (tx_now s))
        a (json_obj []) s"
    by (auto simp: insert_child_def Let_def bindM_Inr op_Inr add_row_def child_row_def)
  let ?t = "child_row parent (t_depth parent + 1) x a c i path (max_ord + k + 1) (tx_now s)"
  have room: "task_at s (t_id parent) = Some parent" "t_kind parent \<noteq> K_Leaf"
      "\<And>j u. task_at s j = Some u \<Longrightarrow> t_parent u = Some (t_id parent) \<Longrightarrow> t_ordinal u \<le> max_ord + k"
    using assms(2) by (auto simp: batch_room_def)
  have fresh: "task_at s i = None"
    unfolding i by (rule keys_ok_fresh) (rule I_keys[OF assms(1)])
  have id: "t_id ?t = i" by (simp add: child_row_def)
  have "child_row_ok s ?t"
    unfolding child_row_ok_def id using room path assms(3)
    by (intro exI[of _ parent] exI[of _ x] exI[of _ a] exI[of _ c] exI[of _ path] exI[of _ "max_ord + k + 1"])
      fastforce
  then have "new_row_ok s ?t" unfolding new_row_ok_def id by (simp add: i)
  from on_new[OF assms(1) this] have 1: "I s' \<and> R s s'" unfolding s' by blast
  have rows: "task_at s' j = (if j = i then Some ?t else task_at s j)" for j
    unfolding s' add_row_def id by (simp add: store_simps)
  have keep: "task_at s j = Some u \<Longrightarrow> task_at s' j = Some u" for j u
    using fresh by (auto simp: rows)
  have "batch_room s' parent (max_ord + Suc k)"
    unfolding batch_room_def
  proof (intro conjI allI impI)
    show "task_at s' (t_id parent) = Some parent" by (rule keep) (rule room(1))
    show "t_kind parent \<noteq> K_Leaf" by (rule room(2))
    fix j u assume u: "task_at s' j = Some u" "t_parent u = Some (t_id parent)"
    show "t_ordinal u \<le> max_ord + Suc k"
    proof (cases "j = i")
      case True
      then show ?thesis using u by (auto simp: rows child_row_def)
    next
      case False
      then show ?thesis using u room(3)[of j u] by (simp add: rows)
    qed
  qed
  moreover have "child_there s' parent x i" by (simp add: child_there_def rows child_row_def)
  ultimately show ?thesis using 1 keep by blast
qed

lemma insert_children_loop:
  assumes "I s" "batch_room s parent (max_ord + k)" "x \<in> {S_Ready, S_AwaitingApproval}"
    and "mapM (insert_child parent (t_depth parent + 1) x a max_ord) (enumerate k cs) s = Inr (ids, s')"
  shows "I s' \<and> R s s' \<and> length ids = length cs \<and> (\<forall>i \<in> set ids. child_there s' parent x i)
    \<and> (\<forall>j u. task_at s j = Some u \<longrightarrow> task_at s' j = Some u)"
  using assms
proof (induction cs arbitrary: k s ids)
  case Nil
  then show ?case by (simp add: retM_Inr R_refl)
next
  case (Cons c cs)
  then obtain i s1 js where
    1: "insert_child parent (t_depth parent + 1) x a max_ord (k, c) s = Inr (i, s1)"
    and 2: "mapM (insert_child parent (t_depth parent + 1) x a max_ord) (enumerate (Suc k) cs) s1 = Inr (js, s')"
    and ids: "ids = i # js"
    by (auto simp: bindM_Inr retM_Inr)
  note A = insert_child_step[OF Cons.prems(1-3) 1]
  have B: "I s' \<and> R s1 s' \<and> length js = length cs \<and> (\<forall>i \<in> set js. child_there s' parent x i)
      \<and> (\<forall>j u. task_at s1 j = Some u \<longrightarrow> task_at s' j = Some u)"
    by (rule Cons.IH[OF _ _ Cons.prems(3) 2]) (use A in simp_all)
  have "child_there s' parent x i" using A B by (auto simp: child_there_def)
  then show ?case using A B R_trans ids by auto
qed

lemma link_step:
  assumes "I s" "x \<in> {S_Ready, S_AwaitingApproval}" "\<forall>i \<in> set ids. child_there s parent x i"
    and "k < length ids" "\<forall>d \<in> set (cs_depends_on c). 1 \<le> d \<and> d \<le> length ids"
    and "link_child ids (k, c) s = Inr (r, s')"
  shows "I s' \<and> R s s' \<and> (\<forall>i \<in> set ids. child_there s' parent x i)"
proof -
  let ?i = "ids ! k" and ?ds = "map (\<lambda>d. ids ! (d - 1)) (cs_depends_on c)"
  obtain u where u: "task_at s ?i = Some u" "t_parent u = Some (t_id parent)" "t_kind u = K_Task" "t_state u = x"
    using assms(3) nth_mem[OF assms(4)] unfolding child_there_def by blast
  have s': "s' = put_task ?i (u\<lparr>t_depends_on := ?ds\<rparr>) s"
    using assms(6) u(1) by (auto simp: link_child_def mod_task_Inr)
  have "\<forall>d \<in> set ?ds. \<exists>v. task_at s d = Some v \<and> t_parent v = t_parent u"
  proof
    fix d assume "d \<in> set ?ds"
    then obtain e where "e \<in> set (cs_depends_on c)" "d = ids ! (e - 1)" by auto
    then have "d \<in> set ids" using assms(5) by (metis One_nat_def Suc_le_eq Suc_pred less_eq_Suc_le nth_mem)
    then show "\<exists>v. task_at s d = Some v \<and> t_parent v = t_parent u"
      using assms(3) u(2) by (auto simp: child_there_def)
  qed
  then have "field_write s u (u\<lparr>t_depends_on := ?ds\<rparr>)"
    using u assms(2) by (intro write_deps) simp_all
  from on_field[OF assms(1) u(1) this] have "I s' \<and> R s s'" unfolding s' .
  moreover have "child_there s' parent x i" if "child_there s parent x i" for i
    using that u by (auto simp: child_there_def s' store_simps)
  ultimately show ?thesis using assms(3) by blast
qed

lemma link_loop:
  assumes "I s" "x \<in> {S_Ready, S_AwaitingApproval}" "\<forall>i \<in> set ids. child_there s parent x i"
    and "k + length cs \<le> length ids"
    and "\<forall>c \<in> set cs. \<forall>d \<in> set (cs_depends_on c). 1 \<le> d \<and> d \<le> length ids"
    and "mapM (link_child ids) (enumerate k cs) s = Inr (r, s')"
  shows "I s' \<and> R s s'"
  using assms
proof (induction cs arbitrary: k s r)
  case Nil
  then show ?case by (simp add: retM_Inr R_refl)
next
  case (Cons c cs)
  then obtain y s1 ys where
    1: "link_child ids (k, c) s = Inr (y, s1)"
    and 2: "mapM (link_child ids) (enumerate (Suc k) cs) s1 = Inr (ys, s')"
    by (auto simp: bindM_Inr retM_Inr)
  have A: "I s1 \<and> R s s1 \<and> (\<forall>i \<in> set ids. child_there s1 parent x i)"
    by (rule link_step[OF Cons.prems(1-3) _ _ 1]) (use Cons.prems(4,5) in auto)
  have "I s' \<and> R s1 s'"
    by (rule Cons.IH[OF _ Cons.prems(2) _ _ _ 2]) (use A Cons.prems(4,5) in auto)
  then show ?case using A R_trans by blast
qed

lemma keeps_decompose: "keeps (decompose lower req)"
proof (rule keepsI)
  fix s r s' assume "I s" and d: "decompose lower req s = Inr (r, s')"
  define existing where "existing p = children_of s (t_id p)" for p :: task
  define max_ord where "max_ord p = fold max (map t_ordinal (existing p)) 0" for p
  from d obtain parent :: task and policy aid s1 ids s2 y s3 det z s4 cs where
    p: "task_at s (dc_parent req) = Some parent" "t_kind parent \<noteq> K_Leaf"
    and batch: "check_batch lower req = Inr ()"
    and pa: "plan_attempt_row (t_id parent) (dc_attempt req) O_Split None s = Inr (aid, s1)"
    and ins: "mapM (insert_child parent (t_depth parent + 1)
          (if gated policy (t_depth parent + 1) then S_AwaitingApproval else S_Ready) (Ac_Attempt aid)
          (max_ord parent)) (enumerate 0 (dc_children req)) s1 = Inr (ids, s2)"
    and link: "mapM (link_child ids) (enumerate 0 (dc_children req)) s2 = Inr (y, s3)"
    and tr: "transition (t_id parent) S_Decomposed (Ac_Attempt aid) det s3 = Inr (z, s4)"
    and get: "mapM get_task ids s4 = Inr (cs, s')"
    unfolding max_ord_def existing_def
    by (auto simp: decompose_def bindM_Inr idem_fresh_Inr get_task_Inr cas_Inr getsM_Inr liftM_Inr
        policy_of_Inr Let_def if_fail_Inr retM_Inr simp del: if_split)
  define x where "x = (if gated policy (t_depth parent + 1) then S_AwaitingApproval else S_Ready)"
  have x: "x \<in> {S_Ready, S_AwaitingApproval}" by (simp add: x_def)
  have keys: "keys_ok (st s)" using I_keys[OF \<open>I s\<close>] .
  have id: "t_id parent = dc_parent req" using keys_ok_task[OF keys p(1)] .
  have 1: "I s1 \<and> R s s1" and same: "task_at s1 = task_at s"
    using keeps_plan_attempt[OF \<open>I s\<close> _ pa] p(1) id by simp_all
  have "t_ordinal u \<le> max_ord parent"
    if "task_at s j = Some u" "t_parent u = Some (t_id parent)" for j u
  proof -
    have "u \<in> set (existing parent)"
      using that keys_ok_task[OF keys that(1)] by (simp add: existing_def children_of_iff[OF keys])
    then have "t_ordinal u \<in> set (map t_ordinal (existing parent))" by simp
    then show ?thesis unfolding max_ord_def by (rule fold_max_ge)
  qed
  then have room: "batch_room s1 parent (max_ord parent + 0)"
    using p id same by (simp add: batch_room_def)
  have 2: "I s2 \<and> R s1 s2 \<and> length ids = length (dc_children req) \<and> (\<forall>i \<in> set ids. child_there s2 parent x i)"
    using insert_children_loop[OF _ room x ins[folded x_def]] 1 by blast
  have "check_deps (dc_children req) = Inr ()"
    using batch by (auto simp: check_batch_def Let_def result_simps split: if_splits)
  then have "in_batch (map cs_depends_on (dc_children req))"
    by (rule check_deps_in_batch)
  then have deps: "\<forall>c \<in> set (dc_children req). \<forall>d \<in> set (cs_depends_on c). 1 \<le> d \<and> d \<le> length ids"
  proof (intro ballI)
    fix c d assume c: "c \<in> set (dc_children req)" and d: "d \<in> set (cs_depends_on c)"
    obtain j where "j < length (dc_children req)" "dc_children req ! j = c"
      using c by (auto simp: in_set_conv_nth)
    then show "1 \<le> d \<and> d \<le> length ids"
      using \<open>in_batch _\<close> d 2 unfolding in_batch_def by fastforce
  qed
  have 3: "I s3 \<and> R s2 s3"
    by (rule link_loop[OF _ x _ _ deps link, where parent = parent]) (use 2 in simp_all)
  have 4: "I s4 \<and> R s3 s4" by (rule plain_transition[OF _ _ tr]) (use 3 in auto)
  have "keeps (mapM get_task ids)" by (intro keeps_mapM keeps_basic)
  from keepsD[OF this _ get] 4 have 5: "I s' \<and> R s4 s'" by blast
  have "R s s2" using R_trans[of s s1 s2] 1 2 by blast
  then have "R s s4" using R_trans[of s s2 s3] R_trans[of s s3 s4] 3 4 by blast
  then show "I s' \<and> R s s'" using R_trans[of s s4 s'] 5 by blast
qed

lemma keeps_ignore: "keeps m \<Longrightarrow> keeps (ignore m)"
  unfolding ignore_def by (intro keeps_bind keeps_basic)

text \<open>The one theorem: every call keeps the invariant and respects the relation.\<close>

lemma keeps_exec: "keeps (exec lower c)"
  by (cases c)
    (simp_all add: keeps_ignore keeps_create keeps_plan_start keeps_decompose keeps_mark_leaf
      keeps_plan_close keeps_claim keeps_heartbeat keeps_reap keeps_reap_decomposing keeps_start
      keeps_complete keeps_fail keeps_resolve keeps_review_note keeps_approve
      keeps_approve_children keeps_answer keeps_retry keeps_update_policy keeps_cancel keeps_replan)

lemma exec_keeps: "I s \<Longrightarrow> exec lower c s = Inr (u, s') \<Longrightarrow> I s' \<and> R s s'"
  by (rule keepsD[OF keeps_exec])

end

end
