(* ===== verification/Store_Demo.thy ===== *)
theory Store_Demo
  imports Campaign_Store
begin

text \<open>
  A concrete run of the store, on which the properties of the store are witnessed: a campaign
  whose root is split into two leaves, the second depending on the first; the first is claimed,
  executed, reviewed and merged, then the second is claimed.
\<close>

text \<open>Protocols are evaluated only when applied to a state, so that nothing is unfolded under the
  binders of the monad.\<close>

lemmas applied_code [code] =
  retM_def[THEN fun_cong] failM_def[THEN fun_cong] bindM_def[THEN fun_cong]
  getsM_def[THEN fun_cong] modM_def[THEN fun_cong] liftM_def[THEN fun_cong]
  guardM_def[THEN fun_cong] whenM_def[THEN fun_cong] get_task_def[THEN fun_cong]
  mod_task_def[THEN fun_cong] policy_of_def[THEN fun_cong] emit_event_def[THEN fun_cong]
  transition_def[THEN fun_cong] insert_attempt_def[THEN fun_cong]
  plan_attempt_row_def[THEN fun_cong] close_work_def[THEN fun_cong]
  block_dependents_def[THEN fun_cong] rollup_up_def[THEN fun_cong] require_state_def[THEN fun_cong]
  cas_def[THEN fun_cong] idem_fresh_def[THEN fun_cong] fresh_task_id_def[THEN fun_cong]
  lift_path_def[THEN fun_cong] create_def[THEN fun_cong] plan_start_def[THEN fun_cong]
  insert_child_def[THEN fun_cong] link_child_def[THEN fun_cong] decompose_def[THEN fun_cong]
  mark_leaf_def[THEN fun_cong] close_node_def[THEN fun_cong] plan_close_def[THEN fun_cong]
  claim_one_def[THEN fun_cong] claim_def[THEN fun_cong] heartbeat_def[THEN fun_cong]
  reap_one_def[THEN fun_cong] reap_def[THEN fun_cong] reap_decomposing_def[THEN fun_cong]
  require_owner_def[THEN fun_cong] start_def[THEN fun_cong] complete_def[THEN fun_cong]
  fail_leaf_def[THEN fun_cong] resolve_review_def[THEN fun_cong] review_note_def[THEN fun_cong]
  approve_def[THEN fun_cong] approve_children_def[THEN fun_cong] answer_def[THEN fun_cong]
  retry_def[THEN fun_cong] update_policy_def[THEN fun_cong] cancel_one_def[THEN fun_cong]
  cancel_def[THEN fun_cong] supersede_one_def[THEN fun_cong] replan_def[THEN fun_cong]
  ignore_def[THEN fun_cong]
  mapM.simps[THEN fun_cong] rollup_from.simps[THEN fun_cong] exec.simps[THEN fun_cong]

definition demo_campaign :: new_campaign where
  "demo_campaign = \<lparr>nc_repo = 1, nc_title = ''t'', nc_goal = ''g'', nc_source_ref = None,
     nc_policy = None, nc_draft = False\<rparr>"

definition run :: "tenant_id \<Rightarrow> (nat \<times> call) list \<Rightarrow> mem_state" where
  "run tn cs = fold (\<lambda>(now, c). step (\<lambda>s. s) tn now c) cs empty_state"

lemma run_reachable: "reachable (\<lambda>s. s) (run tn cs)"
proof -
  have "reachable (\<lambda>s. s) m \<Longrightarrow> reachable (\<lambda>s. s) (fold (\<lambda>(now, c). step (\<lambda>s. s) tn now c) cs m)" for m
    by (induction cs arbitrary: m) (auto intro: reach_step)
  then show ?thesis unfolding run_def by (simp add: reach_init)
qed

definition demo_attempt :: "char \<Rightarrow> plan_attempt" where
  "demo_attempt c = \<lparr>pa_idem = replicate 64 c, pa_prompt_hash = [], pa_model = [],
     pa_tokens = \<lparr>tokens_in_raw = 7, tokens_out_raw = 3\<rparr>\<rparr>"

definition demo_child :: "nat list \<Rightarrow> child_spec" where
  "demo_child ds = \<lparr>cs_title = ''c'', cs_goal = ''g'', cs_acceptance = [], cs_touches = [],
     cs_est_size = None, cs_depends_on = ds\<rparr>"

definition demo_leaf :: "task_id \<Rightarrow> char \<Rightarrow> mark_leaf_req" where
  "demo_leaf i c = \<lparr>ml_task = i, ml_expected = 2, ml_attempt = demo_attempt c, ml_acceptance = [''ok''],
     ml_touches = [], ml_est_size = Z_S, ml_reason = ''r'', ml_confidence = F_NaN\<rparr>"

definition demo_claim :: claim_request where
  "demo_claim = \<lparr>cr_owner = ''w1'', cr_limit = 5, cr_lease_secs = 60\<rparr>"

definition demo_split :: decomposition where
  "demo_split = \<lparr>dc_parent = 1, dc_expected = 2, dc_attempt = demo_attempt CHR ''a'',
     dc_children = [demo_child [], demo_child [1]], dc_reason = ''r'', dc_confidence = F_NaN\<rparr>"

definition demo_plan :: "(nat \<times> call) list" where
  "demo_plan =
     [(1, Call_Create (demo_campaign\<lparr>nc_policy := Some (default_policy\<lparr>approve_levels := []\<rparr>)\<rparr>) (Ac_User ''ann'')),
      (2, Call_PlanStart 1), (3, Call_Decompose demo_split),
      (4, Call_PlanStart 2), (5, Call_MarkLeaf (demo_leaf 2 CHR ''b'')),
      (6, Call_PlanStart 3), (7, Call_MarkLeaf (demo_leaf 3 CHR ''c''))]"

definition demo_merge :: "(nat \<times> call) list" where
  "demo_merge =
     [(8, Call_Claim demo_claim), (9, Call_Start 2 ''w1''),
      (10, Call_Complete \<lparr>cp_task = 2, cp_owner = ''w1'',
         cp_pr = \<lparr>pr_num = 4, pr_link = ''https://f/4'', pr_branch = ''b''\<rparr>,
         cp_tokens = \<lparr>tokens_in_raw = 1, tokens_out_raw = 1\<rparr>, cp_session = None\<rparr>),
      (11, Call_ResolveReview 2 RO_Merged), (12, Call_Claim demo_claim)]"

text \<open>The store after the run, and just before the verdict on the first leaf: the fields the
  witnesses speak of, evaluated once.\<close>

definition demo_store :: mem_state where
  "demo_store = run ''acme'' (demo_plan @ demo_merge)"

definition demo_review :: mem_state where
  "demo_review = run ''acme'' (demo_plan @ take 3 demo_merge)"

lemma demo_store_reachable: "reachable (\<lambda>s. s) demo_store"
  unfolding demo_store_def by (rule run_reachable)

lemma demo_review_reachable: "reachable (\<lambda>s. s) demo_review"
  unfolding demo_review_def by (rule run_reachable)

type_synonym row_view = "task_kind \<times> task_state \<times> nat \<times> task_id option \<times> task_id list \<times> rstr
  \<times> owner option \<times> nat option"

definition view_row :: "mem_state \<Rightarrow> tenant_id \<Rightarrow> task_id \<Rightarrow> row_view option" where
  "view_row m tn i = map_option (\<lambda>t. (t_kind t, t_state t, t_version t, t_parent t, t_depends_on t,
     raw (t_path t), t_claimed_by t, t_lease_until t)) (map_of (tasks m) (tn, i))"

lemma view_rowD:
  "view_row m tn i = Some (k, x, v, p, ds, path, c, l) \<Longrightarrow>
    \<exists>t. map_of (tasks m) (tn, i) = Some t \<and> t_kind t = k \<and> t_state t = x \<and> t_version t = v
      \<and> t_parent t = p \<and> t_depends_on t = ds \<and> t_path t = \<lparr>raw = path\<rparr> \<and> t_claimed_by t = c
      \<and> t_lease_until t = l"
  by (auto simp: view_row_def)

lemma demo_store_rows:
  "map (view_row demo_store ''acme'') [1, 2, 3] =
     [Some (K_Objective, S_Decomposed, 3, None, [], ''1'', None, None),
      Some (K_Leaf, S_Done, 7, Some 1, [], ''1.1'', None, None),
      Some (K_Leaf, S_Claimed, 4, Some 1, [2], ''1.2'', Some ''w1'', Some 60012)]"
  by code_simp

lemma demo_review_rows:
  "map (view_row demo_review ''acme'') [2, 3] =
     [Some (K_Leaf, S_InReview, 6, Some 1, [], ''1.1'', None, None),
      Some (K_Leaf, S_Ready, 3, Some 1, [2], ''1.2'', None, None)]"
  by code_simp

end
