(* ===== verification/Store_Evolution.thy ===== *)
theory Store_Evolution
  imports Store_Relations Store_Demo
begin

text \<open>
  How the store's rows evolve, as an interpretation of \<open>store_rel\<close>: a call touches only the
  rows of its own tenant, identities, paths and creation data of a row never change, versions
  only grow (and grow with every state change), terminal states are never left, and a kind
  changes at most once, from task to leaf.
\<close>

section \<open>Rows keep their keys\<close>

lemma keys_ok_cong: "tasks m' = tasks m \<Longrightarrow> next_task_id m' = next_task_id m \<Longrightarrow> keys_ok m' = keys_ok m"
  by (simp add: keys_ok_def row_at_def)

lemma keys_ok_put:
  assumes "keys_ok (st s)" "task_at s i = Some t" "t_id t' = t_id t"
  shows "keys_ok (st (put_task i t' s))"
  using assms keys_ok_task[OF assms(1,2)]
  by (auto simp: keys_ok_def store_simps bt_wf_insert task_at_row)

lemma keys_ok_log: "keys_ok (st (log_event i f to a v d s)) = keys_ok (st s)"
  by (rule keys_ok_cong) (simp_all add: store_simps)

lemma keys_ok_add_row:
  assumes "keys_ok (st s)" "t_id t = next_task_id (st s) + 1" "0 \<le> next_task_id (st s)"
  shows "keys_ok (st (add_row t a d s))"
proof -
  have "row_at (st s) tn i = Some u \<Longrightarrow> i \<le> t_id t" for tn i u
    using keys_okD[OF assms(1)] assms(2) by fastforce
  then show ?thesis
    using assms unfolding add_row_def keys_ok_log
    by (auto simp: keys_ok_def put_task_def key_def row_at_def bt_wf_insert map_of_bt_insert
        split: if_splits)
qed

lemma move_row_simps [store_simps]:
  "tx_tenant (move_row i t t' a d s) = tx_tenant s"
  "tx_now (move_row i t t' a d s) = tx_now s"
  "task_at (move_row i t t' a d s) j = (if j = i then Some t' else task_at s j)"
  "row_at (st (move_row i t t' a d s)) tn j
    = (if tn = tx_tenant s \<and> j = i then Some t' else row_at (st s) tn j)"
  "next_task_id (st (move_row i t t' a d s)) = next_task_id (st s)"
  "attempts (st (move_row i t t' a d s)) = attempts (st s)"
  "idem (st (move_row i t t' a d s)) = idem (st s)"
  by (simp_all add: move_row_def store_simps)

lemma add_row_simps [store_simps]:
  "tx_tenant (add_row t a d s) = tx_tenant s"
  "tx_now (add_row t a d s) = tx_now s"
  "task_at (add_row t a d s) j = (if j = t_id t then Some t else task_at s j)"
  "row_at (st (add_row t a d s)) tn j
    = (if tn = tx_tenant s \<and> j = t_id t then Some t else row_at (st s) tn j)"
  "next_task_id (st (add_row t a d s)) = t_id t"
  "attempts (st (add_row t a d s)) = attempts (st s)"
  "idem (st (add_row t a d s)) = idem (st s)"
  by (simp_all add: add_row_def store_simps put_task_def row_at_def map_of_bt_insert key_def task_at_def)

section \<open>Other tenants' rows\<close>

definition other_rows :: "tenant_id \<Rightarrow> mem_state \<Rightarrow> (row_key \<times> task) list \<times> (row_key \<times> task_event) list
    \<times> (row_key \<times> task_attempt) list \<times> (tenant_id \<times> rstr) set" where
  "other_rows tn m = (filter (\<lambda>e. fst (fst e) \<noteq> tn) (tasks m), filter (\<lambda>e. fst (fst e) \<noteq> tn) (events m),
     filter (\<lambda>e. fst (fst e) \<noteq> tn) (attempts m), {x \<in> idem m. fst x \<noteq> tn})"

lemma filter_bt_insert: "\<not> P k \<Longrightarrow> filter (\<lambda>e. P (fst e)) (bt_insert k v m) = filter (\<lambda>e. P (fst e)) m"
  by (induction k v m rule: bt_insert.induct) auto

lemma other_insert:
  "filter (\<lambda>e. fst (fst e) \<noteq> tn) (bt_insert (tn, i) v m) = filter (\<lambda>e. fst (fst e) \<noteq> tn) m"
  by (rule filter_bt_insert[where P = "\<lambda>k. fst k \<noteq> tn"]) simp

lemma other_rows_writes [store_simps]:
  "other_rows (tx_tenant s) (st (put_task i t s)) = other_rows (tx_tenant s) (st s)"
  "other_rows (tx_tenant s) (st (log_event i f to a v d s)) = other_rows (tx_tenant s) (st s)"
  "other_rows (tx_tenant s) (st (add_tenant s)) = other_rows (tx_tenant s) (st s)"
  "other_rows (tx_tenant s) (st (add_attempt r s)) = other_rows (tx_tenant s) (st s)"
  "other_rows (tx_tenant s) (st (put_attempt aid r s)) = other_rows (tx_tenant s) (st s)"
  "other_rows tn (m\<lparr>next_task_id := n\<rparr>) = other_rows tn m"
  by (auto simp: other_rows_def put_task_def key_def log_event_def Let_def add_tenant_def
      add_attempt_def put_attempt_def other_insert)

lemma other_close [store_simps]:
  "other_rows (tx_tenant s) (st (close_state i own oc f s)) = other_rows (tx_tenant s) (st s)"
proof -
  have "filter (\<lambda>e. fst (fst e) \<noteq> tn) (map (\<lambda>((tn', aid), a). if tn' = tn \<and> P a
      then ((tn', aid), g a) else ((tn', aid), a)) xs) = filter (\<lambda>e. fst (fst e) \<noteq> tn) xs"
    for tn P g and xs :: "(row_key \<times> task_attempt) list"
    by (induction xs) (auto split: if_splits)
  then show ?thesis by (simp add: other_rows_def close_state_def)
qed

section \<open>How a row evolves\<close>

definition evolves :: "task \<Rightarrow> task \<Rightarrow> bool" where
  "evolves t t' \<longleftrightarrow>
     t_id t' = t_id t \<and> t_campaign t' = t_campaign t \<and> t_repo t' = t_repo t
     \<and> t_parent t' = t_parent t \<and> t_path t' = t_path t \<and> t_depth t' = t_depth t
     \<and> t_ordinal t' = t_ordinal t \<and> t_title t' = t_title t \<and> t_source_ref t' = t_source_ref t
     \<and> t_created_by t' = t_created_by t \<and> t_created_at t' = t_created_at t
     \<and> t_version t \<le> t_version t' \<and> (t_state t' \<noteq> t_state t \<longrightarrow> t_version t < t_version t')
     \<and> (is_terminal (t_state t) \<longrightarrow> t_state t' = t_state t)
     \<and> (t_kind t' = t_kind t \<or> t_kind t = K_Task \<and> t_kind t' = K_Leaf)"

lemma evolves_refl: "evolves t t"
  by (simp add: evolves_def)

lemma evolves_trans: "evolves t u \<Longrightarrow> evolves u v \<Longrightarrow> evolves t v"
  unfolding evolves_def by (elim conjE) (simp, metis task_kind.distinct less_le_trans le_less_trans)

definition frame :: "tx \<Rightarrow> tx \<Rightarrow> bool" where
  "frame s s' \<longleftrightarrow> tx_tenant s' = tx_tenant s \<and> tx_now s' = tx_now s
     \<and> other_rows (tx_tenant s) (st s') = other_rows (tx_tenant s) (st s)
     \<and> (\<forall>i t. task_at s i = Some t \<longrightarrow> (\<exists>t'. task_at s' i = Some t' \<and> evolves t t'))"

definition keyed :: "tx \<Rightarrow> bool" where
  "keyed s \<longleftrightarrow> keys_ok (st s) \<and> 0 \<le> next_task_id (st s)"

lemma moved_evolves:
  "allowed (t_state t) to k a \<Longrightarrow> evolves t (moved now to t)"
  using allowed_not_terminal[of "t_state t" to k a] by (simp add: evolves_def moved_def Let_def)

lemma row_move_evolves:
  assumes "row_move s t t'" "allowed (t_state t) (t_state t') k a"
  shows "evolves t t'"
  using assms
  by cases (auto dest!: moved_evolves[where now = "tx_now s"] simp: evolves_def leased_row_def
      set_superseded_def pr_fields_def)

lemma field_write_evolves: "field_write s t t' \<Longrightarrow> evolves t t'"
  by (cases rule: field_write.cases)
    (auto simp: evolves_def set_attempts_def set_goal_def extend_lease_def leaf_fields_def)

lemma evolves_id: "evolves t t' \<Longrightarrow> t_id t' = t_id t"
  by (simp add: evolves_def)

lemma frame_put:
  "task_at s i = Some t \<Longrightarrow> evolves t t' \<Longrightarrow> frame s (put_task i t' s)"
  by (auto simp: frame_def store_simps evolves_refl)

lemma frame_move:
  "task_at s i = Some t \<Longrightarrow> evolves t t' \<Longrightarrow> frame s (move_row i t t' a d s)"
  using other_rows_writes(2)[of "put_task i t' s"]
  by (auto simp: frame_def move_row_def store_simps evolves_refl)

lemma keyed_put:
  "keyed s \<Longrightarrow> task_at s i = Some t \<Longrightarrow> evolves t t' \<Longrightarrow> keyed (put_task i t' s)"
  by (auto simp: keyed_def store_simps intro: keys_ok_put dest: evolves_id)

lemma keyed_move:
  "keyed s \<Longrightarrow> task_at s i = Some t \<Longrightarrow> evolves t t' \<Longrightarrow> keyed (move_row i t t' a d s)"
  by (auto simp: keyed_def store_simps move_row_def keys_ok_log intro: keys_ok_put dest: evolves_id)

lemma frame_same_tasks:
  "tx_tenant s' = tx_tenant s \<Longrightarrow> tx_now s' = tx_now s \<Longrightarrow> task_at s' = task_at s \<Longrightarrow>
    other_rows (tx_tenant s) (st s') = other_rows (tx_tenant s) (st s) \<Longrightarrow> frame s s'"
  by (auto simp: frame_def evolves_refl)

lemma keyed_same_tasks:
  "keyed s \<Longrightarrow> tasks (st s') = tasks (st s) \<Longrightarrow> next_task_id (st s') = next_task_id (st s) \<Longrightarrow> keyed s'"
  using keys_ok_cong[of "st s'" "st s"] by (simp add: keyed_def)

lemma keyed_frame_same:
  "keyed s \<Longrightarrow> tasks (st s') = tasks (st s) \<Longrightarrow> next_task_id (st s') = next_task_id (st s) \<Longrightarrow>
   tx_tenant s' = tx_tenant s \<Longrightarrow> tx_now s' = tx_now s \<Longrightarrow> task_at s' = task_at s \<Longrightarrow>
   other_rows (tx_tenant s) (st s') = other_rows (tx_tenant s) (st s) \<Longrightarrow> keyed s' \<and> frame s s'"
  by (simp add: keyed_same_tasks frame_same_tasks)

interpretation evo: store_rel keyed frame
proof
  fix s s' s'' :: tx
  show "frame s s" by (simp add: frame_def evolves_refl)
  show "frame s s' \<Longrightarrow> frame s' s'' \<Longrightarrow> frame s s''"
    unfolding frame_def by (metis evolves_trans)
  show "keyed s \<Longrightarrow> keys_ok (st s)" by (simp add: keyed_def)
  show "keyed s \<Longrightarrow> keyed (add_tenant s) \<and> frame s (add_tenant s)"
    by (erule keyed_frame_same) (simp_all add: store_simps)
next
  fix s t a d
  assume k: "keyed s" and "new_row_ok s t"
  then have id: "t_id t = next_task_id (st s) + 1" by (simp add: new_row_ok_def)
  have "keyed (add_row t a d s)"
    using k id keys_ok_add_row[of s t a d] by (simp add: keyed_def store_simps)
  moreover have "task_at s (t_id t) = None" using keys_ok_fresh[of s] k id by (simp add: keyed_def)
  then have "frame s (add_row t a d s)"
    using other_rows_writes(2)[of "put_task (t_id t) t (s\<lparr>st := (st s)\<lparr>next_task_id := t_id t\<rparr>\<rparr>)"]
      other_rows_writes(1)[of "s\<lparr>st := (st s)\<lparr>next_task_id := t_id t\<rparr>\<rparr>"]
    by (auto simp: frame_def store_simps evolves_refl add_row_def)
  ultimately show "keyed (add_row t a d s) \<and> frame s (add_row t a d s)" by blast
next
  fix s i t t' a d
  assume "keyed s" "task_at s i = Some t" "allowed (t_state t) (t_state t') (t_kind t) (actor_class_of a)"
    "row_move s t t'"
  then show "keyed (move_row i t t' a d s) \<and> frame s (move_row i t t' a d s)"
    using row_move_evolves keyed_move frame_move by blast
next
  fix s i t t'
  assume "keyed s" "task_at s i = Some t" "field_write s t t'"
  then show "keyed (put_task i t' s) \<and> frame s (put_task i t' s)"
    using field_write_evolves keyed_put frame_put by blast
next
  fix s i t p a d
  assume "keyed s" "task_at s i = Some t"
  moreover have "evolves t (policy_row p (tx_now s) t)" by (simp add: evolves_def policy_row_def)
  ultimately show "keyed (move_row i t (policy_row p (tx_now s) t) a d s)
      \<and> frame s (move_row i t (policy_row p (tx_now s) t) a d s)"
    using keyed_move frame_move by blast
qed (erule keyed_frame_same; simp add: store_simps)+

section \<open>Reachable stores\<close>

lemma row_at_other:
  assumes "other_rows tn m' = other_rows tn m" "tn' \<noteq> tn"
  shows "row_at m' tn' i = row_at m tn' i"
proof -
  have f: "map_of (filter (\<lambda>e. fst (fst e) \<noteq> tn) xs) (tn', i) = map_of xs (tn', i)"
    for xs :: "(row_key \<times> task) list"
    using assms(2) by (induction xs) auto
  have "filter (\<lambda>e. fst (fst e) \<noteq> tn) (tasks m') = filter (\<lambda>e. fst (fst e) \<noteq> tn) (tasks m)"
    using assms(1) by (simp add: other_rows_def)
  then show ?thesis using f[of "tasks m'"] f[of "tasks m"] by (simp add: row_at_def)
qed

lemma keyed_start: "keys_ok m \<Longrightarrow> 0 \<le> next_task_id m \<Longrightarrow> keyed (tx_start m tn now)"
  by (simp add: keyed_def store_simps)

lemma reachable_keys: "reachable lower m \<Longrightarrow> keys_ok m \<and> 0 \<le> next_task_id m"
proof (induction rule: reachable.induct)
  case reach_init
  show ?case by (simp add: empty_state_def keys_ok_def row_at_def)
next
  case (reach_step m tn now c)
  show ?case
  proof (cases rule: step_cases[of lower c m tn now])
    case rolled_back
    then show ?thesis using reach_step by simp
  next
    case (committed u s')
    then show ?thesis
      using evo.exec_keeps[OF keyed_start committed(1)] reach_step by (simp add: keyed_def)
  qed
qed

lemma step_frame:
  assumes "reachable lower m"
  shows "other_rows tn (step lower tn now c m) = other_rows tn m
    \<and> (\<forall>i t. row_at m tn i = Some t \<longrightarrow>
          (\<exists>t'. row_at (step lower tn now c m) tn i = Some t' \<and> evolves t t'))"
proof (cases rule: step_cases[of lower c m tn now])
  case rolled_back
  then show ?thesis by (simp add: evolves_refl)
next
  case (committed u s')
  then have "frame (tx_start m tn now) s'"
    using evo.exec_keeps[OF keyed_start committed(1)] reachable_keys[OF assms] by blast
  then show ?thesis
    using committed(2) by (auto simp: frame_def store_simps task_at_row)
qed

text \<open>
  Property C7: a call by one tenant leaves every other tenant's tasks, events, attempts and
  idempotency keys exactly as they were, whatever ids it names.
\<close>

theorem tenant_isolation:
  assumes "reachable lower m"
  shows "other_rows tn (step lower tn now c m) = other_rows tn m"
  using step_frame[OF assms] by blast

text \<open>
  Property C12: no call ever removes a row or rewrites its identity, path or creation data;
  versions never decrease and grow with every state change, done, cancelled and superseded are
  never left, and the kind changes at most from task to leaf.
\<close>

theorem rows_only_evolve:
  assumes "reachable lower m" and "row_at m tn i = Some t"
  shows "\<exists>t'. row_at (step lower tn' now c m) tn i = Some t' \<and> evolves t t'"
proof (cases "tn = tn'")
  case True
  then show ?thesis using step_frame[OF assms(1)] assms(2) by blast
next
  case False
  have "row_at (step lower tn' now c m) tn i = row_at m tn i"
    using row_at_other[of tn' "step lower tn' now c m" m tn i] step_frame[OF assms(1)] False by blast
  then show ?thesis using assms(2) evolves_refl by auto
qed

text \<open>Witnesses on the first steps of the demonstration run.\<close>

definition demo_created :: mem_state where
  "demo_created = run ''acme'' (take 1 demo_plan)"

lemma demo_created_reachable: "reachable (\<lambda>s. s) demo_created"
  unfolding demo_created_def by (rule run_reachable)

theorem tenant_isolation_witness:
  "other_rows ''evil'' (step (\<lambda>s. s) ''evil'' 9 (Call_Cancel 1 (Ac_User ''eve'')) demo_created)
    = other_rows ''evil'' demo_created
   \<and> map_option t_state (row_at demo_created ''acme'' 1) = Some S_Ready"
proof
  show "map_option t_state (row_at demo_created ''acme'' 1) = Some S_Ready" by code_simp
qed (rule tenant_isolation[OF demo_created_reachable])

theorem rows_only_evolve_witness:
  "\<exists>t t'. row_at demo_created ''acme'' 1 = Some t \<and> t_state t = S_Ready
    \<and> row_at (step (\<lambda>s. s) ''acme'' 6 (Call_PlanStart 1) demo_created) ''acme'' 1 = Some t'
    \<and> evolves t t'"
proof -
  have "map_option t_state (row_at demo_created ''acme'' 1) = Some S_Ready" by code_simp
  then obtain t where t: "row_at demo_created ''acme'' 1 = Some t" "t_state t = S_Ready" by auto
  then show ?thesis using rows_only_evolve[OF demo_created_reachable t(1)] by blast
qed

end
