(* ===== verification/Store_Invariant.thy ===== *)
theory Store_Invariant
  imports Store_Evolution
begin

text \<open>
  The invariant of the campaign store, as a second interpretation of \<open>store_rel\<close>: what a single
  row must satisfy (kind and state agree, lease columns exactly on leased states, the schema's
  caps), how rows hang together (every child one segment below a non-leaf parent of its
  campaign, ordinals unique among siblings, dependencies among siblings), and that no leaf is
  claimed, running, in review or done before its dependencies are done. Every reachable store
  satisfies it.
\<close>

section \<open>A single row\<close>

definition kind_state_ok :: "task_kind \<Rightarrow> task_state \<Rightarrow> bool" where
  "kind_state_ok k s = (case k of
       K_Objective \<Rightarrow> s \<notin> {S_Claimed, S_Running, S_InReview, S_Failed, S_Superseded}
     | K_Task \<Rightarrow> s \<notin> {S_Draft, S_Claimed, S_Running, S_InReview, S_Failed}
     | K_Leaf \<Rightarrow> s \<notin> {S_Draft, S_Decomposing, S_Decomposed})"

definition lease_ok :: "task \<Rightarrow> bool" where
  "lease_ok t \<longleftrightarrow> (t_claimed_by t \<noteq> None) = is_leased (t_state t)
     \<and> (t_lease_until t \<noteq> None) = is_leased (t_state t)"

definition local_ok :: "task \<Rightarrow> bool" where
  "local_ok t \<longleftrightarrow> kind_state_ok (t_kind t) (t_state t) \<and> lease_ok t \<and> 1 \<le> t_version t
     \<and> (t_superseded_by t \<noteq> None) = (t_state t = S_Superseded)
     \<and> (t_state t = S_InReview \<longrightarrow> t_pr_number t \<noteq> None \<and> t_pr_url t \<noteq> None)
     \<and> (t_kind t = K_Leaf \<longrightarrow> (case t_est_size t of None \<Rightarrow> False | Some z \<Rightarrow> is_leaf_size z))
     \<and> (t_kind t = K_Objective \<longrightarrow> (case t_policy t of None \<Rightarrow> False | Some p \<Rightarrow> policy_ok p))"

lemma allowed_kind_state:
  "allowed f t k a \<Longrightarrow> kind_state_ok k f \<Longrightarrow> kind_state_ok k t"
  by (cases f; cases t; simp add: allowed_cases; cases k; simp add: kind_state_ok_def)

lemma local_ok_moved:
  "local_ok t \<Longrightarrow> kind_state_ok (t_kind t) to \<Longrightarrow> to \<noteq> S_Superseded \<Longrightarrow> to \<noteq> S_InReview \<Longrightarrow>
   t_state t \<noteq> S_Superseded \<Longrightarrow> (is_leased to \<Longrightarrow> is_leased (t_state t)) \<Longrightarrow> local_ok (moved now to t)"
  by (cases "is_leased to") (simp_all add: local_ok_def moved_def Let_def lease_ok_def)

lemma local_ok_move:
  assumes "row_move s t t'" "allowed (t_state t) (t_state t') (t_kind t) a" "local_ok t"
  shows "local_ok t'"
proof -
  have ks: "kind_state_ok (t_kind t) (t_state t')"
    using allowed_kind_state[OF assms(2)] assms(3) by (simp add: local_ok_def)
  show ?thesis using assms(1)
  proof cases
    case (plain_move to)
    have "is_leased to \<Longrightarrow> lease_ok t \<Longrightarrow> is_leased (t_state t)"
      using plain_move assms(2) into_running[of "t_state t" "t_kind t" a]
      by (cases to) (auto simp: is_leased_def)
    moreover have "lease_ok t" using assms(3) by (simp add: local_ok_def)
    moreover have "t_state t \<noteq> S_Superseded"
      using allowed_not_terminal[OF assms(2)] by (auto simp: is_terminal_def)
    moreover have "to \<notin> {S_Superseded, S_InReview}" using plain_move by auto
    ultimately show ?thesis
      using plain_move(1) ks assms(3) by (simp add: local_ok_moved)
  next
    case (claim_move secs own)
    then show ?thesis
      using ks assms(3) allowed_not_terminal[OF assms(2)]
      by (auto simp: local_ok_def moved_def Let_def lease_ok_def leased_row_def is_leased_def is_terminal_def)
  next
    case (supersede_move i)
    then show ?thesis
      using ks assms(3)
      by (auto simp: local_ok_def moved_def Let_def lease_ok_def set_superseded_def is_leased_def)
  next
    case (review_move pr)
    then show ?thesis
      using ks assms(3) allowed_not_terminal[OF assms(2)]
      by (auto simp: local_ok_def moved_def Let_def lease_ok_def pr_fields_def is_leased_def is_terminal_def)
  qed
qed

lemma local_ok_field:
  assumes "field_write s t t'" "local_ok t"
  shows "local_ok t'"
  using assms
  by cases (auto simp: local_ok_def lease_ok_def set_attempts_def set_goal_def extend_lease_def
      leaf_fields_def kind_state_ok_def)

section \<open>How rows hang together\<close>

definition position_ok :: "mem_state \<Rightarrow> tenant_id \<Rightarrow> task \<Rightarrow> bool" where
  "position_ok m tn t =
     (case t_parent t of
        None \<Rightarrow> t_kind t = K_Objective \<and> t_campaign t = t_id t \<and> t_depth t = 0
          \<and> root_path (t_id t) = Inr (t_path t)
      | Some p \<Rightarrow> t_kind t \<noteq> K_Objective \<and> p < t_id t
          \<and> (case row_at m tn p of None \<Rightarrow> False | Some u \<Rightarrow>
               t_kind u \<noteq> K_Leaf \<and> t_campaign t = t_campaign u \<and> t_depth t = Suc (t_depth u)
               \<and> child_of (t_path u) (t_ordinal t) = Inr (t_path t)))"

definition siblings_ok :: "mem_state \<Rightarrow> tenant_id \<Rightarrow> task \<Rightarrow> bool" where
  "siblings_ok m tn t \<longleftrightarrow> (\<forall>j u. row_at m tn j = Some u \<longrightarrow> t_parent u = t_parent t \<longrightarrow>
     t_parent t \<noteq> None \<longrightarrow> t_ordinal u = t_ordinal t \<longrightarrow> t_id u = t_id t)"

definition deps_ok :: "mem_state \<Rightarrow> tenant_id \<Rightarrow> task \<Rightarrow> bool" where
  "deps_ok m tn t \<longleftrightarrow> (\<forall>d \<in> set (t_depends_on t).
     case row_at m tn d of None \<Rightarrow> False | Some u \<Rightarrow> t_parent u = t_parent t)"

definition row_done :: "mem_state \<Rightarrow> tenant_id \<Rightarrow> task_id \<Rightarrow> bool" where
  "row_done m tn d = (case row_at m tn d of None \<Rightarrow> False | Some u \<Rightarrow> t_state u = S_Done)"

definition past_claim :: "task \<Rightarrow> bool" where
  "past_claim t \<longleftrightarrow> t_kind t = K_Leaf \<and> t_state t \<in> {S_Claimed, S_Running, S_InReview, S_Done}"

definition claims_ok :: "mem_state \<Rightarrow> tenant_id \<Rightarrow> task \<Rightarrow> bool" where
  "claims_ok m tn t \<longleftrightarrow> (past_claim t \<longrightarrow> (\<forall>d \<in> set (t_depends_on t). row_done m tn d))"

definition row_ok :: "mem_state \<Rightarrow> tenant_id \<Rightarrow> task \<Rightarrow> bool" where
  "row_ok m tn t \<longleftrightarrow> local_ok t \<and> position_ok m tn t \<and> siblings_ok m tn t \<and> deps_ok m tn t
     \<and> claims_ok m tn t"

definition store_ok :: "mem_state \<Rightarrow> bool" where
  "store_ok m \<longleftrightarrow> keys_ok m \<and> 0 \<le> next_task_id m
     \<and> (\<forall>tn i t. row_at m tn i = Some t \<longrightarrow> row_ok m tn t)"

definition stays :: "task \<Rightarrow> task \<Rightarrow> bool" where
  "stays t t' \<longleftrightarrow> t_id t' = t_id t \<and> t_parent t' = t_parent t \<and> t_campaign t' = t_campaign t
     \<and> t_depth t' = t_depth t \<and> t_path t' = t_path t \<and> t_ordinal t' = t_ordinal t
     \<and> (t_kind t' = t_kind t \<or> t_kind t = K_Task \<and> t_kind t' = K_Leaf)
     \<and> (t_state t = S_Done \<longrightarrow> t_state t' = S_Done)"

lemma evolves_stays: "evolves t t' \<Longrightarrow> stays t t'"
  by (auto simp: evolves_def stays_def is_terminal_def)

text \<open>Looking up rows after one of them has been replaced.\<close>

lemma row_ok_replaced:
  assumes same: "\<And>tn' j. row_at m' tn' j = (if tn' = tn \<and> j = i then Some t' else row_at m tn' j)"
    and t: "row_at m tn i = Some t" "stays t t'"
    and leaf: "t_kind t' = K_Leaf \<longrightarrow> t_kind t = K_Leaf \<or> (\<forall>j u. row_at m tn j = Some u \<longrightarrow> t_parent u \<noteq> Some i)"
    and ok: "row_ok m tn' u" and u: "row_at m tn' j = Some u" "j \<noteq> i \<or> tn' \<noteq> tn"
  shows "row_ok m' tn' u"
proof (cases "tn' = tn")
  case False
  then have eq: "row_at m' tn' = row_at m tn'" by (simp add: same fun_eq_iff)
  show ?thesis
    using ok unfolding row_ok_def position_ok_def siblings_ok_def deps_ok_def claims_ok_def
      row_done_def eq .
next
  case True
  have done': "row_done m' tn d" if "row_done m tn d" for d
    using that t by (auto simp: row_done_def same stays_def split: option.splits)
  have pos: "position_ok m' tn u"
  proof (cases "t_parent u")
    case None
    then show ?thesis using ok True by (simp add: row_ok_def position_ok_def)
  next
    case (Some p)
    then show ?thesis
      using ok True t leaf u by (auto simp: row_ok_def position_ok_def same stays_def split: option.splits if_splits)
  qed
  have sib: "siblings_ok m' tn u"
    using ok True t unfolding row_ok_def siblings_ok_def same stays_def
    by (auto split: if_splits)
  have dep: "deps_ok m' tn u"
    using ok True t by (auto simp: row_ok_def deps_ok_def same stays_def split: option.splits if_splits)
  have "claims_ok m' tn u" using ok True done' by (simp add: row_ok_def claims_ok_def)
  then show ?thesis using ok pos sib dep True by (simp add: row_ok_def)
qed


lemma own_row_ok:
  assumes same: "\<And>tn' j. row_at m' tn' j = (if tn' = tn \<and> j = i then Some t' else row_at m tn' j)"
    and t: "row_at m tn i = Some t" "t_id t = i" "stays t t'" "row_ok m tn t"
    and loc: "local_ok t'" and dep: "deps_ok m tn t'" and cl: "claims_ok m tn t'"
  shows "row_ok m' tn t'"
proof -
  have pos: "position_ok m' tn t'"
    using t by (auto simp: row_ok_def position_ok_def same stays_def split: option.splits)
  have sib: "siblings_ok m' tn t'"
    using t unfolding row_ok_def siblings_ok_def same stays_def by (auto split: if_splits)
  have "t_parent t' = t_parent t" using t by (simp add: stays_def)
  then have "deps_ok m' tn t'"
    using dep t by (auto simp: deps_ok_def same split: option.splits)
  moreover have "row_done m' tn d" if "row_done m tn d" for d
    using that t by (auto simp: row_done_def same stays_def split: option.splits)
  then have "claims_ok m' tn t'" using cl by (simp add: claims_ok_def)
  ultimately show ?thesis using pos sib loc by (simp add: row_ok_def)
qed

lemma store_ok_cong:
  "tasks m' = tasks m \<Longrightarrow> next_task_id m' = next_task_id m \<Longrightarrow> store_ok m' = store_ok m"
proof -
  assume a: "tasks m' = tasks m" "next_task_id m' = next_task_id m"
  then have eq: "row_at m' = row_at m" by (simp add: row_at_def fun_eq_iff)
  have "row_ok m' tn t = row_ok m tn t" for tn t
    unfolding row_ok_def position_ok_def siblings_ok_def deps_ok_def claims_ok_def row_done_def eq ..
  then show ?thesis
    using a keys_ok_cong[OF a] eq by (simp add: store_ok_def)
qed

lemma store_okD:
  "store_ok m \<Longrightarrow> row_at m tn i = Some t \<Longrightarrow> row_ok m tn t \<and> t_id t = i"
  by (auto simp: store_ok_def keys_ok_def)

lemma store_ok_put:
  assumes ok: "store_ok (st s)" and t: "task_at s i = Some t" "stays t t'"
    and leaf: "t_kind t' = K_Leaf \<longrightarrow> t_kind t = K_Leaf
      \<or> (\<forall>j u. task_at s j = Some u \<longrightarrow> t_parent u \<noteq> Some i)"
    and own: "local_ok t'" "deps_ok (st s) (tx_tenant s) t'" "claims_ok (st s) (tx_tenant s) t'"
  shows "store_ok (st (put_task i t' s))"
proof -
  note same = put_task_simps(11)[of i t' s]
  have r: "row_at (st s) (tx_tenant s) i = Some t" using t(1) by (simp add: task_at_row)
  note rt = store_okD[OF ok r]
  have "keys_ok (st (put_task i t' s))"
    using ok t by (auto simp: store_ok_def stays_def intro: keys_ok_put)
  moreover have "row_ok (st (put_task i t' s)) tn u"
    if "row_at (st (put_task i t' s)) tn j = Some u" for tn j u
  proof (cases "tn = tx_tenant s \<and> j = i")
    case True
    then have "u = t'" using that by (simp add: same)
    then show ?thesis using own_row_ok[OF same r] rt t(2) own True by simp
  next
    case False
    then have u: "row_at (st s) tn j = Some u" using that same by metis
    show ?thesis
    proof (rule row_ok_replaced[OF same r t(2)])
      show "row_ok (st s) tn u" using store_okD[OF ok u] by simp
    qed (use leaf u False in \<open>auto simp: task_at_row\<close>)
  qed
  ultimately show ?thesis using ok by (simp add: store_ok_def store_simps)
qed

lemma store_ok_log: "store_ok (st (log_event i f to a v d s)) = store_ok (st s)"
  by (rule store_ok_cong) (simp_all add: store_simps)

lemma store_ok_move_row:
  "store_ok (st (put_task i t' s)) \<Longrightarrow> store_ok (st (move_row i t t' a d s))"
  by (simp add: move_row_def store_ok_log)


section \<open>Every elementary write keeps the invariant\<close>

lemma deps_ok_same:
  "deps_ok m tn t \<Longrightarrow> t_depends_on t' = t_depends_on t \<Longrightarrow> t_parent t' = t_parent t \<Longrightarrow> deps_ok m tn t'"
  by (simp add: deps_ok_def cong: option.case_cong)

lemma claims_ok_same:
  "claims_ok m tn t \<Longrightarrow> t_depends_on t' = t_depends_on t \<Longrightarrow> (past_claim t' \<Longrightarrow> past_claim t) \<Longrightarrow> claims_ok m tn t'"
  by (auto simp: claims_ok_def)

lemma moved_kept [simp]:
  "t_kind (moved now to t) = t_kind t" "t_depends_on (moved now to t) = t_depends_on t"
  "t_parent (moved now to t) = t_parent t"
  by (simp_all add: moved_def Let_def)

lemma row_move_past_claim:
  assumes "row_move s t t'" "allowed (t_state t) (t_state t') (t_kind t) a" "past_claim t'"
  shows "past_claim t \<or> list_all (dep_done s) (t_depends_on t')"
  using assms
proof cases
  case (plain_move to)
  then have k: "t_kind t = K_Leaf" "t_state t' = to"
    using assms(3) by (simp_all add: past_claim_def)
  then have "to \<in> {S_Running, S_Done}" using plain_move assms(3) by (auto simp: past_claim_def)
  then have "t_state t \<in> {S_Claimed, S_InReview}"
    using assms(2) k into_running into_done_leaf by auto
  then show ?thesis using k by (auto simp: past_claim_def)
next
  case (review_move pr)
  then have "t_kind t = K_Leaf" "t_state t' = S_InReview"
    using assms(3) by (simp_all add: past_claim_def pr_fields_def)
  then show ?thesis using assms(2) into_in_review by (fastforce simp: past_claim_def)
qed (simp_all add: past_claim_def leased_row_def set_superseded_def)

lemma row_done_dep_done: "dep_done s d = row_done (st s) (tx_tenant s) d"
  by (simp add: dep_done_def row_done_def task_at_row)

lemma row_move_kept:
  "row_move s t t' \<Longrightarrow> t_kind t' = t_kind t \<and> t_depends_on t' = t_depends_on t \<and> t_parent t' = t_parent t"
  by (cases rule: row_move.cases)
    (auto simp: leased_row_def set_superseded_def pr_fields_def)

lemma store_ok_move:
  assumes ok: "store_ok (st s)" and t: "task_at s i = Some t" "row_move s t t'"
    and al: "allowed (t_state t) (t_state t') (t_kind t) ac"
  shows "store_ok (st (move_row i t t' a d s))"
proof (rule store_ok_move_row, rule store_ok_put[OF ok t(1)])
  have "row_ok (st s) (tx_tenant s) t" using store_okD[OF ok] t(1) by (simp add: task_at_row)
  then have r: "local_ok t" "deps_ok (st s) (tx_tenant s) t" "claims_ok (st s) (tx_tenant s) t"
    by (simp_all add: row_ok_def)
  note kept = row_move_kept[OF t(2)]
  show "stays t t'" by (rule evolves_stays[OF row_move_evolves[OF t(2) al]])
  show "t_kind t' = K_Leaf \<longrightarrow> t_kind t = K_Leaf
      \<or> (\<forall>j u. task_at s j = Some u \<longrightarrow> t_parent u \<noteq> Some i)" using kept by simp
  show "local_ok t'" by (rule local_ok_move[OF t(2) al r(1)])
  show "deps_ok (st s) (tx_tenant s) t'" using deps_ok_same[OF r(2)] kept by simp
  show "claims_ok (st s) (tx_tenant s) t'"
    using r(3) kept row_move_past_claim[OF t(2) al]
    by (auto simp: claims_ok_def list_all_iff row_done_dep_done)
qed

lemma field_write_kept:
  "field_write s t t' \<Longrightarrow> t_state t' = t_state t \<and> t_parent t' = t_parent t"
  by (cases rule: field_write.cases)
    (auto simp: set_attempts_def set_goal_def extend_lease_def leaf_fields_def)

lemma store_ok_field:
  assumes ok: "store_ok (st s)" and t: "task_at s i = Some t" "field_write s t t'"
  shows "store_ok (st (put_task i t' s))"
proof (rule store_ok_put[OF ok t(1)])
  have row: "row_ok (st s) (tx_tenant s) t" "t_id t = i"
    using store_okD[OF ok] t(1) by (simp_all add: task_at_row)
  then have r: "local_ok t" "deps_ok (st s) (tx_tenant s) t" "claims_ok (st s) (tx_tenant s) t"
    by (simp_all add: row_ok_def)
  show "stays t t'" by (rule evolves_stays[OF field_write_evolves[OF t(2)]])
  show "t_kind t' = K_Leaf \<longrightarrow> t_kind t = K_Leaf
      \<or> (\<forall>j u. task_at s j = Some u \<longrightarrow> t_parent u \<noteq> Some i)"
    using t(2) row(2) by cases (auto simp: set_attempts_def set_goal_def extend_lease_def)
  show "local_ok t'" by (rule local_ok_field[OF t(2) r(1)])
  show "deps_ok (st s) (tx_tenant s) t'"
    using t(2) r(2)
    by cases (auto simp: deps_ok_def set_attempts_def set_goal_def extend_lease_def leaf_fields_def
        task_at_row split: option.splits)
  show "claims_ok (st s) (tx_tenant s) t'"
    using t(2)
  proof cases
    case (write_deps ds)
    then show ?thesis by (simp add: claims_ok_def past_claim_def)
  next
    case (write_leaf req)
    then have "\<not> past_claim t'" by (auto simp: past_claim_def leaf_fields_def)
    then show ?thesis by (simp add: claims_ok_def)
  qed (rule claims_ok_same[OF r(3)]; simp add: past_claim_def set_attempts_def set_goal_def extend_lease_def)+
qed

lemma store_ok_policy:
  assumes ok: "store_ok (st s)" and t: "task_at s i = Some t" and p: "policy_ok p"
  shows "store_ok (st (move_row i t (policy_row p (tx_now s) t) a d s))"
proof (rule store_ok_move_row, rule store_ok_put[OF ok t])
  have row: "row_ok (st s) (tx_tenant s) t" using store_okD[OF ok] t by (simp add: task_at_row)
  show "stays t (policy_row p (tx_now s) t)" by (simp add: stays_def policy_row_def)
  show "local_ok (policy_row p (tx_now s) t)"
    using row p by (simp add: row_ok_def local_ok_def policy_row_def lease_ok_def)
  show "deps_ok (st s) (tx_tenant s) (policy_row p (tx_now s) t)"
    by (rule deps_ok_same[of _ _ t]) (use row in \<open>simp_all add: row_ok_def policy_row_def\<close>)
  show "claims_ok (st s) (tx_tenant s) (policy_row p (tx_now s) t)"
    using row by (simp add: row_ok_def claims_ok_def past_claim_def policy_row_def)
qed (simp add: policy_row_def)


text \<open>A new row.\<close>

lemma new_row_facts:
  assumes ok: "store_ok (st s)" and n: "new_row_ok s t"
  shows "local_ok t \<and> t_depends_on t = [] \<and> \<not> past_claim t
    \<and> position_ok (st (add_row t a d s)) (tx_tenant s) t
    \<and> (\<forall>j u. task_at s j = Some u \<longrightarrow> t_parent u = t_parent t \<longrightarrow> t_parent t \<noteq> None \<longrightarrow>
          t_ordinal u \<noteq> t_ordinal t)"
  using n unfolding new_row_ok_def
proof (elim conjE disjE)
  assume id: "t_id t = next_task_id (st s) + 1" and "root_row_ok s t"
  then obtain req p pol u where t: "t = new_root req (t_id t) p pol u (tx_now s)"
    and p: "root_path (t_id t) = Inr p" "policy_ok pol"
    unfolding root_row_ok_def by blast
  have f: "t_kind t = K_Objective" "t_parent t = None" "t_campaign t = t_id t" "t_depth t = 0"
    "t_path t = p" "t_depends_on t = []" "t_claimed_by t = None" "t_lease_until t = None"
    "t_version t = 1" "t_superseded_by t = None" "t_policy t = Some pol"
    "t_state t = S_Draft \<or> t_state t = S_Ready"
    by (subst t, simp add: new_root_def)+
  show ?thesis
    using f p by (auto simp: local_ok_def kind_state_ok_def lease_ok_def is_leased_def past_claim_def
        position_ok_def)
next
  assume id: "t_id t = next_task_id (st s) + 1" and "child_row_ok s t"
  then obtain pa state ac c path ord where pa: "task_at s (t_id pa) = Some pa" "t_kind pa \<noteq> K_Leaf"
    and st: "state \<in> {S_Ready, S_AwaitingApproval}" and path: "child_of (t_path pa) ord = Inr path"
    and fresh: "\<forall>j u. task_at s j = Some u \<longrightarrow> t_parent u = Some (t_id pa) \<longrightarrow> t_ordinal u \<noteq> ord"
    and t: "t = child_row pa (t_depth pa + 1) state ac c (t_id t) path ord (tx_now s)"
    unfolding child_row_ok_def by blast
  have f: "t_kind t = K_Task" "t_parent t = Some (t_id pa)" "t_campaign t = t_campaign pa"
    "t_depth t = Suc (t_depth pa)" "t_path t = path" "t_depends_on t = []" "t_claimed_by t = None"
    "t_lease_until t = None" "t_version t = 1" "t_superseded_by t = None" "t_state t = state"
    "t_ordinal t = ord"
    by (subst t, simp add: child_row_def)+
  have "t_id pa < t_id t"
    using keys_okD[of "st s" "tx_tenant s" "t_id pa" pa] ok pa(1) id
    by (simp add: store_ok_def task_at_row)
  then show ?thesis
    using f st pa path fresh
    by (auto simp: local_ok_def kind_state_ok_def lease_ok_def is_leased_def past_claim_def
        position_ok_def store_simps task_at_row)
qed

lemma store_ok_add_row:
  assumes ok: "store_ok (st s)" and n: "new_row_ok s t"
  shows "store_ok (st (add_row t a d s))"
proof -
  let ?m = "st s" and ?m' = "st (add_row t a d s)" and ?tn = "tx_tenant s"
  note new = new_row_facts[OF ok n]
  have id: "t_id t = next_task_id ?m + 1" using n by (simp add: new_row_ok_def)
  have k: "keys_ok ?m" "0 \<le> next_task_id ?m" using ok by (simp_all add: store_ok_def)
  have free: "row_at ?m ?tn (t_id t) = None"
    using keys_ok_fresh[OF k(1)] id by (simp add: task_at_row)
  note same = add_row_simps(4)[of t a d s]
  have old: "row_at ?m' tn j = Some u" if "row_at ?m tn j = Some u" for tn j u
    using that free by (auto simp: same)
  have "row_ok ?m' tn u" if u: "row_at ?m' tn j = Some u" for tn j u
  proof (cases "tn = ?tn \<and> j = t_id t")
    case True
    then have "u = t" "tn = ?tn" using u by (simp_all add: same)
    moreover have "siblings_ok ?m' ?tn t"
      using new by (auto simp: siblings_ok_def same task_at_row split: if_splits)
    ultimately show ?thesis using new by (simp add: row_ok_def deps_ok_def claims_ok_def)
  next
    case False
    then have u0: "row_at ?m tn j = Some u" using u by (auto simp: same split: if_splits)
    then have r: "row_ok ?m tn u" using store_okD[OF ok] by blast
    have "position_ok ?m' tn u"
      using r old by (auto simp: row_ok_def position_ok_def split: option.splits)
    moreover have "siblings_ok ?m' tn u"
      unfolding siblings_ok_def
    proof (intro allI impI)
      fix k v
      assume v: "row_at ?m' tn k = Some v" "t_parent v = t_parent u" "t_parent u \<noteq> None"
        "t_ordinal v = t_ordinal u"
      show "t_id v = t_id u"
      proof (cases "tn = ?tn \<and> k = t_id t")
        case True
        then have "v = t" "tn = ?tn" using v(1) by (simp_all add: same)
        then show ?thesis using new u0 v unfolding task_at_row by metis
      next
        case False
        then have "row_at ?m tn k = Some v" using v(1) same by metis
        then show ?thesis using r v(2-4) unfolding row_ok_def siblings_ok_def by blast
      qed
    qed
    moreover have "deps_ok ?m' tn u"
      using r old by (auto simp: row_ok_def deps_ok_def dest!: bspec split: option.splits)
    moreover have "row_done ?m' tn x" if "row_done ?m tn x" for x
      using that old by (auto simp: row_done_def split: option.splits)
    then have "claims_ok ?m' tn u" using r by (simp add: row_ok_def claims_ok_def)
    ultimately show ?thesis using r by (simp add: row_ok_def)
  qed
  then show ?thesis
    using keys_ok_add_row[OF k(1) id k(2), of a d] k id by (simp add: store_ok_def store_simps)
qed

interpretation inv: store_rel "\<lambda>s. store_ok (st s)" "\<lambda>_ _. True"
proof
  fix s :: tx
  show "store_ok (st s) \<Longrightarrow> keys_ok (st s)" by (simp add: store_ok_def)
next
  fix s t a d
  assume "store_ok (st s)" "new_row_ok s t"
  then show "store_ok (st (add_row t a d s)) \<and> True" by (simp add: store_ok_add_row)
next
  fix s i t t' a d
  assume "store_ok (st s)" "task_at s i = Some t" "allowed (t_state t) (t_state t') (t_kind t) (actor_class_of a)"
    "row_move s t t'"
  then show "store_ok (st (move_row i t t' a d s)) \<and> True" by (simp add: store_ok_move)
next
  fix s i t t'
  assume "store_ok (st s)" "task_at s i = Some t" "field_write s t t'"
  then show "store_ok (st (put_task i t' s)) \<and> True" by (simp add: store_ok_field)
next
  fix s i t p a d
  assume "store_ok (st s)" "task_at s i = Some t" "policy_ok p"
  then show "store_ok (st (move_row i t (policy_row p (tx_now s) t) a d s)) \<and> True"
    by (simp add: store_ok_policy)
qed (auto simp: store_simps elim: back_subst[OF _ store_ok_cong])


section \<open>Reachable stores\<close>

lemma reachable_store_ok: "reachable lower m \<Longrightarrow> store_ok m"
proof (induction rule: reachable.induct)
  case reach_init
  show ?case by (simp add: store_ok_def keys_ok_def empty_state_def row_at_def)
next
  case (reach_step m tn now c)
  show ?case
  proof (cases rule: step_cases[of lower c m tn now])
    case rolled_back
    then show ?thesis using reach_step by simp
  next
    case (committed u s')
    then show ?thesis
      using inv.exec_keeps[OF _ committed(1)] reach_step by (simp add: store_simps)
  qed
qed

lemma reachable_row: "reachable lower m \<Longrightarrow> row_at m tn i = Some t \<Longrightarrow> row_ok m tn t \<and> t_id t = i"
  by (rule store_okD[OF reachable_store_ok])

lemma positioned_path:
  assumes "store_ok m"
  shows "row_at m tn i = Some t \<Longrightarrow>
    \<exists>os. path_shape (t_campaign t) os \<and> t_path t = path_of (t_campaign t) os \<and> length os = t_depth t"
proof (induction "t_depth t" arbitrary: i t)
  case 0
  then have "position_ok m tn t" using store_okD[OF assms] by (auto simp: row_ok_def)
  then have "t_campaign t = t_id t" "root_path (t_id t) = Inr (t_path t)"
    using 0 by (auto simp: position_ok_def split: option.splits)
  then show ?case using 0 by (auto simp: root_path_view)
next
  case (Suc n)
  then have "position_ok m tn t" using store_okD[OF assms] by (auto simp: row_ok_def)
  then obtain p u where u: "row_at m tn p = Some u" "t_depth t = Suc (t_depth u)"
    "t_campaign t = t_campaign u" "child_of (t_path u) (t_ordinal t) = Inr (t_path t)"
    using Suc(2) by (auto simp: position_ok_def split: option.splits)
  then obtain os where os: "path_shape (t_campaign u) os" "t_path u = path_of (t_campaign u) os"
    "length os = t_depth u" using Suc by fastforce
  then show ?case using u child_of_view[OF os(1)] by (intro exI[of _ "os @ [t_ordinal t]"]) auto
qed

lemma depth_bound: "store_ok m \<Longrightarrow> row_at m tn i = Some t \<Longrightarrow> t_depth t \<le> max_depth"
  by (drule (1) positioned_path) (auto simp: path_shape_def)


text \<open>
  Property C1: no leaf is claimed, running, in review or done while one of its dependencies is
  not done: every dependency is a row of the same parent in state done.
\<close>

theorem past_claim_deps_done:
  assumes "reachable lower m" and "row_at m tn i = Some t" and "t_kind t = K_Leaf"
    and "t_state t \<in> {S_Claimed, S_Running, S_InReview, S_Done}" and "d \<in> set (t_depends_on t)"
  shows "\<exists>u. row_at m tn d = Some u \<and> t_parent u = t_parent t \<and> t_state u = S_Done"
proof -
  have "deps_ok m tn t" "claims_ok m tn t" "past_claim t"
    using reachable_row[OF assms(1,2)] assms(3,4) by (simp_all add: row_ok_def past_claim_def)
  then show ?thesis
    using assms(5) by (auto simp: deps_ok_def claims_ok_def row_done_def dest!: bspec split: option.splits)
qed

lemmas demo_row = view_rowD[folded row_at_def]

lemma demo_rows:
  "\<exists>t. row_at demo_store ''acme'' 1 = Some t \<and> t_state t = S_Decomposed \<and> t_path t = \<lparr>raw = ''1''\<rparr>"
  "\<exists>t. row_at demo_store ''acme'' 3 = Some t \<and> t_kind t = K_Leaf \<and> t_state t = S_Claimed
     \<and> t_depends_on t = [2] \<and> t_path t = \<lparr>raw = ''1.2''\<rparr> \<and> t_claimed_by t = Some ''w1''
     \<and> t_lease_until t = Some 60012"
  "\<exists>t. row_at demo_review ''acme'' 2 = Some t \<and> t_state t = S_InReview \<and> t_parent t = Some 1"
  "\<exists>t. row_at demo_review ''acme'' 3 = Some t \<and> t_state t = S_Ready \<and> t_parent t = Some 1
     \<and> t_depends_on t = [2]"
  using demo_store_rows demo_review_rows by (auto dest!: demo_row)


theorem past_claim_deps_done_witness:
  "\<exists>t u. row_at demo_store ''acme'' 3 = Some t \<and> row_at demo_store ''acme'' 2 = Some u
     \<and> t_parent u = t_parent t \<and> t_state u = S_Done"
proof -
  obtain t where t: "row_at demo_store ''acme'' 3 = Some t"
    "t_kind t = K_Leaf" "t_state t = S_Claimed" "t_depends_on t = [2]"
    using demo_rows(2) by auto
  then show ?thesis
    using past_claim_deps_done[OF demo_store_reachable t(1,2), of 2] by auto
qed

end
