(* ===== verification/Store_Audit.thy ===== *)
theory Store_Audit
  imports Store_Invariant
begin

text \<open>
  The audit log, as a third interpretation of \<open>store_rel\<close>: replaying the events recorded for a
  task, in order, is always possible (each event starts where the last one ended, moves along
  the transition table and counts the version) and yields exactly the state and version of the
  row; a task that does not exist has no events.
\<close>

section \<open>Replaying a history\<close>

definition some_actor_may :: "task_state \<Rightarrow> task_state \<Rightarrow> bool" where
  "some_actor_may f to \<longleftrightarrow> list_ex (\<lambda>k. list_ex (allowed f to k) all_actors) all_kinds"

fun event_fits :: "(task_state \<times> nat) option \<Rightarrow> task_event \<Rightarrow> bool" where
  "event_fits None e = (ev_from e = None \<and> ev_version e = 1)"
| "event_fits (Some (s, v)) e = (ev_from e = Some s
     \<and> (ev_to e = s \<and> ev_version e = v \<or> (ev_to e = s \<or> some_actor_may s (ev_to e)) \<and> ev_version e = v + 1))"

fun replay :: "(task_state \<times> nat) option \<Rightarrow> task_event list \<Rightarrow> (task_state \<times> nat) option option" where
  "replay c [] = Some c"
| "replay c (e # es) = (if event_fits c e then replay (Some (ev_to e, ev_version e)) es else None)"

lemma replay_append: "replay c (es @ fs) = Option.bind (replay c es) (\<lambda>d. replay d fs)"
  by (induction c es rule: replay.induct) auto

lemma some_actor_mayI: "allowed f to k a \<Longrightarrow> some_actor_may f to"
proof -
  have "k \<in> set all_kinds" "a \<in> set all_actors"
    by (cases k; simp add: all_kinds_def) (cases a; simp add: all_actors_def)
  then show "allowed f to k a \<Longrightarrow> some_actor_may f to"
    by (auto simp: some_actor_may_def list_ex_iff)
qed

definition history :: "mem_state \<Rightarrow> tenant_id \<Rightarrow> task_id \<Rightarrow> task_event list" where
  "history m tn i = map snd (filter (\<lambda>e. ev_task (snd e) = i) (filter (\<lambda>e. fst (fst e) = tn) (events m)))"

definition head_of :: "mem_state \<Rightarrow> tenant_id \<Rightarrow> task_id \<Rightarrow> (task_state \<times> nat) option" where
  "head_of m tn i = map_option (\<lambda>t. (t_state t, t_version t)) (row_at m tn i)"

definition audit_ok :: "mem_state \<Rightarrow> bool" where
  "audit_ok m \<longleftrightarrow> bt_wf (events m) \<and> (\<forall>k \<in> fst ` set (events m). snd k \<le> next_event_id m)
     \<and> (\<forall>tn i. replay None (history m tn i) = Some (head_of m tn i))"

section \<open>The history after an event\<close>

lemma filter_bt_insert_last:
  assumes "bt_wf m" "P k" "\<And>k'. k' \<in> fst ` set m \<Longrightarrow> P k' \<Longrightarrow> k' < k"
  shows "filter (\<lambda>e. P (fst e)) (bt_insert k v m) = filter (\<lambda>e. P (fst e)) m @ [(k, v)]"
  using assms
proof (induction k v m rule: bt_insert.induct)
  case (2 k v k' v' m)
  show ?case
  proof (cases "k < k'")
    case True
    have "\<not> P x" if x: "x \<in> fst ` set ((k', v') # m)" for x
    proof
      assume "P x"
      then have "x < k" using 2(4) x by blast
      moreover have "k' \<le> x" using 2(2) x by (auto simp: bt_wf_Cons intro: less_imp_le)
      ultimately show False using True by simp
    qed
    then have "filter (\<lambda>e. P (fst e)) ((k', v') # m) = []" by (auto simp: filter_empty_conv)
    then show ?thesis using True 2(3) by simp
  next
    case False
    have "k \<noteq> k'" using 2(3) 2(4)[of k'] by auto
    then show ?thesis using 2 False by (simp add: bt_wf_Cons)
  qed
qed simp

lemma history_log:
  assumes "audit_ok (st s)"
  shows "history (st (log_event i f to a v d s)) tn j = history (st s) tn j @
    (if tn = tx_tenant s \<and> j = i
     then [\<lparr>ev_id = next_event_id (st s) + 1, ev_task = i, ev_from = f, ev_to = to,
            ev_actor = actor_render a, ev_version = v, ev_detail = d, ev_at = tx_now s\<rparr>] else [])"
    (is "_ = _ @ (if _ then [?e] else [])")
proof -
  let ?k = "(tx_tenant s, next_event_id (st s) + 1)" and ?es = "events (st s)"
  have ev: "events (st (log_event i f to a v d s)) = bt_insert ?k ?e ?es"
    by (simp add: log_event_def Let_def)
  show ?thesis
  proof (cases "tn = tx_tenant s")
    case True
    have less: "k < ?k" if "k \<in> fst ` set ?es" "fst k = tn" for k
    proof -
      have "snd k < next_event_id (st s) + 1" using assms that by (force simp: audit_ok_def)
      then show ?thesis using that(2) True by (cases k) (simp add: less_prod_def)
    qed
    have "bt_wf ?es" using assms by (simp add: audit_ok_def)
    then have "filter (\<lambda>e. fst (fst e) = tn) (bt_insert ?k ?e ?es)
        = filter (\<lambda>e. fst (fst e) = tn) ?es @ [(?k, ?e)]"
      by (rule filter_bt_insert_last[where P = "\<lambda>k. fst k = tn"]) (use True less in auto)
    then show ?thesis using True by (simp add: history_def ev)
  next
    case False
    then show ?thesis
      using filter_bt_insert[of "\<lambda>k. fst k = tn" ?k ?e ?es] by (simp add: history_def ev)
  qed
qed

lemma history_cong: "events m' = events m \<Longrightarrow> history m' = history m"
  by (simp add: history_def fun_eq_iff)

lemma audit_ok_cong:
  assumes "events m' = events m" "next_event_id m' = next_event_id m" "head_of m' = head_of m"
  shows "audit_ok m' = audit_ok m"
  using assms history_cong[OF assms(1)] by (simp add: audit_ok_def)

lemma audit_ok_log:
  assumes ok: "audit_ok (st s)"
    and head: "\<And>tn j. head_of m' tn j = (if tn = tx_tenant s \<and> j = i then Some (to, v) else head_of (st s) tn j)"
    and m': "events m' = events (st (log_event i f to a v d s))" "next_event_id m' = next_event_id (st s) + 1"
    and fits: "\<And>e. ev_from e = f \<Longrightarrow> ev_to e = to \<Longrightarrow> ev_version e = v \<Longrightarrow>
      event_fits (head_of (st s) (tx_tenant s) i) e"
  shows "audit_ok m'"
proof -
  have "replay None (history m' tn j) = Some (head_of m' tn j)" for tn j
    using ok fits unfolding history_cong[OF m'(1)] history_log[OF ok] head
    by (simp add: audit_ok_def replay_append)
  moreover have "bt_wf (events m')"
    using ok m'(1) by (simp add: audit_ok_def log_event_def Let_def bt_wf_insert)
  moreover have "\<forall>k \<in> fst ` set (events m'). snd k \<le> next_event_id m'"
    using ok m' by (auto simp: audit_ok_def log_event_def Let_def keys_bt_insert dest!: bspec)
  ultimately show ?thesis by (simp add: audit_ok_def)
qed


section \<open>Every elementary write keeps the log complete\<close>

definition audited :: "tx \<Rightarrow> bool" where
  "audited s \<longleftrightarrow> keys_ok (st s) \<and> 0 \<le> next_task_id (st s) \<and> audit_ok (st s)"

lemma head_of_row: "row_at m tn i = Some t \<Longrightarrow> head_of m tn i = Some (t_state t, t_version t)"
  by (simp add: head_of_def)

lemma events_move_row:
  "events (st (move_row i t t' a d s)) = events (st (log_event i (Some (t_state t)) (t_state t') a (t_version t') d s))"
  "next_event_id (st (move_row i t t' a d s)) = next_event_id (st s) + 1"
  by (simp_all add: move_row_def log_event_def Let_def put_task_def key_def)

lemma audit_ok_move_row:
  assumes "audit_ok (st s)" "task_at s i = Some t"
    and "t_state t' = t_state t \<or> some_actor_may (t_state t) (t_state t')" "t_version t' = t_version t + 1"
  shows "audit_ok (st (move_row i t t' a d s))"
  using assms(1)
proof (rule audit_ok_log[OF _ _ events_move_row])
  show "head_of (st (move_row i t t' a d s)) tn j = (if tn = tx_tenant s \<and> j = i
      then Some (t_state t', t_version t') else head_of (st s) tn j)" for tn j
    by (simp add: head_of_def store_simps)
qed (use assms(2-4) in \<open>auto simp: task_at_row head_of_row\<close>)

lemma row_move_version: "row_move s t t' \<Longrightarrow> t_version t' = t_version t + 1"
  by (cases rule: row_move.cases)
    (auto simp: moved_def Let_def leased_row_def set_superseded_def pr_fields_def)

lemma audited_put:
  assumes "audited s" "task_at s i = Some t" "t_state t' = t_state t" "t_version t' = t_version t" "t_id t' = t_id t"
  shows "audited (put_task i t' s)"
proof -
  have "head_of (st (put_task i t' s)) = head_of (st s)"
    using assms(2-4) by (auto simp: head_of_def store_simps task_at_row fun_eq_iff)
  then have "audit_ok (st (put_task i t' s)) = audit_ok (st s)"
    by (intro audit_ok_cong) (simp_all add: store_simps)
  then show ?thesis
    using assms keys_ok_put[of s i t t'] by (simp add: audited_def store_simps)
qed

lemma field_write_version:
  "field_write s t t' \<Longrightarrow> t_version t' = t_version t \<and> t_id t' = t_id t"
  by (cases rule: field_write.cases)
    (auto simp: set_attempts_def set_goal_def extend_lease_def leaf_fields_def)

lemma audited_add_row:
  assumes "audited s" "new_row_ok s t"
  shows "audited (add_row t a d s)"
proof -
  have id: "t_id t = next_task_id (st s) + 1" using assms(2) by (simp add: new_row_ok_def)
  have k: "keys_ok (st s)" "0 \<le> next_task_id (st s)" "audit_ok (st s)"
    using assms(1) by (simp_all add: audited_def)
  have free: "row_at (st s) (tx_tenant s) (t_id t) = None"
    using keys_ok_fresh[OF k(1)] id by (simp add: task_at_row)
  have v: "t_version t = 1"
    using assms(2) unfolding new_row_ok_def root_row_ok_def child_row_ok_def
    by (elim conjE disjE exE) (erule ssubst, simp add: new_root_def child_row_def)+
  have ev: "events (st (add_row t a d s)) = events (st (log_event (t_id t) None (t_state t) a 1 d s))"
    "next_event_id (st (add_row t a d s)) = next_event_id (st s) + 1"
    by (simp_all add: add_row_def log_event_def Let_def put_task_def key_def)
  have "audit_ok (st (add_row t a d s))"
    using k(3)
  proof (rule audit_ok_log[OF _ _ ev])
    show "head_of (st (add_row t a d s)) tn j = (if tn = tx_tenant s \<and> j = t_id t
        then Some (t_state t, 1) else head_of (st s) tn j)" for tn j
      using v by (simp add: head_of_def store_simps)
  qed (simp add: head_of_def free)
  then show ?thesis
    using keys_ok_add_row[OF k(1) id k(2)] k(2) id by (simp add: audited_def store_simps)
qed

lemma audited_cong:
  assumes "audited s" "tasks (st s') = tasks (st s)" "events (st s') = events (st s)"
    "next_task_id (st s') = next_task_id (st s)" "next_event_id (st s') = next_event_id (st s)"
  shows "audited s'"
proof -
  have "head_of (st s') = head_of (st s)" using assms by (simp add: head_of_def row_at_def fun_eq_iff)
  then have "audit_ok (st s') = audit_ok (st s)" using assms by (intro audit_ok_cong) simp_all
  then show ?thesis using assms keys_ok_cong[of "st s'" "st s"] by (simp add: audited_def)
qed

lemma audited_moved:
  assumes "audited s" "task_at s i = Some t" "t_id t' = t_id t"
    and "t_state t' = t_state t \<or> some_actor_may (t_state t) (t_state t')" "t_version t' = t_version t + 1"
  shows "audited (move_row i t t' a d s)"
  using assms audit_ok_move_row[OF _ assms(2,4,5), of a d] keys_ok_put[of s i t t']
  by (simp add: audited_def store_simps move_row_def keys_ok_log)

lemma audited_note:
  assumes a: "audited s" and t: "task_at s i = Some t"
  shows "audited (log_event i (Some (t_state t)) (t_state t) a (t_version t) d s)"
proof -
  let ?s' = "log_event i (Some (t_state t)) (t_state t) a (t_version t) d s"
  have ok: "audit_ok (st s)" using a by (simp add: audited_def)
  have h: "head_of (st s) (tx_tenant s) i = Some (t_state t, t_version t)"
    using t by (simp add: task_at_row head_of_row)
  have "audit_ok (st ?s')"
  proof (rule audit_ok_log[OF ok])
    show "head_of (st ?s') tn j = (if tn = tx_tenant s \<and> j = i
        then Some (t_state t, t_version t) else head_of (st s) tn j)" for tn j
      using h by (auto simp: head_of_def store_simps)
  qed (simp_all add: h log_event_simps)
  then show ?thesis using a by (simp add: audited_def keys_ok_log log_event_simps)
qed

interpretation aud: store_rel audited "\<lambda>_ _. True"
proof
  fix s :: tx
  show "audited s \<Longrightarrow> keys_ok (st s)" by (simp add: audited_def)
next
  fix s t a d
  assume "audited s" "new_row_ok s t"
  then show "audited (add_row t a d s) \<and> True" by (simp add: audited_add_row)
next
  fix s i t t' a d
  assume m: "audited s" "task_at s i = Some t" "row_move s t t'"
    and al: "allowed (t_state t) (t_state t') (t_kind t) (actor_class_of a)"
  have "audited (move_row i t t' a d s)"
    using audited_moved[OF m(1,2)] some_actor_mayI[OF al] row_move_version[OF m(3)]
      evolves_id[OF row_move_evolves[OF m(3) al]] by blast
  then show "audited (move_row i t t' a d s) \<and> True" by simp
next
  fix s i t t'
  assume "audited s" "task_at s i = Some t" "field_write s t t'"
  then show "audited (put_task i t' s) \<and> True"
    using audited_put field_write_kept field_write_version by blast
next
  fix s i t p a d
  assume "audited s" "task_at s i = Some t"
  then show "audited (move_row i t (policy_row p (tx_now s) t) a d s) \<and> True"
    by (simp add: audited_moved policy_row_def)
next
  fix s i t a d
  assume "audited s" "task_at s i = Some t"
  then show "audited (log_event i (Some (t_state t)) (t_state t) a (t_version t) d s) \<and> True"
    by (simp add: audited_note)
qed (auto simp: store_simps elim: audited_cong)

lemma reachable_audited: "reachable lower m \<Longrightarrow> audited (tx_start m tn now)"
proof (induction arbitrary: tn now rule: reachable.induct)
  case reach_init
  show ?case
    by (simp add: audited_def audit_ok_def keys_ok_def row_at_def head_of_def history_def empty_state_def
        store_simps)
next
  case (reach_step m tn' now' c)
  show ?case
  proof (cases rule: step_cases[of lower c m tn' now'])
    case rolled_back
    then show ?thesis using reach_step by simp
  next
    case (committed u s')
    then show ?thesis
      using aud.exec_keeps[OF reach_step(2) committed(1)] by (simp add: audited_def store_simps)
  qed
qed

text \<open>
  Property C3: the audit log is complete and lawful. In every reachable store the events of any
  task id replay without a gap: the first creates the row at version 1, each later one starts in
  the state the last one left, moves only where the transition table lets some actor move some
  kind (or stays), raises the version by one with every move, and the last one carries the state
  and version the row has now. An id without a row has no events.
\<close>

theorem audit_log_complete:
  assumes "reachable lower m"
  shows "replay None (history m tn i) = Some (head_of m tn i)"
  using reachable_audited[OF assms] by (simp add: audited_def audit_ok_def store_simps)

theorem audit_log_complete_witness:
  "replay None (history demo_store ''acme'' 2) = Some (Some (S_Done, 7))"
  using audit_log_complete[OF demo_store_reachable, of "''acme''" 2] demo_store_rows
  by (auto simp: head_of_def dest!: demo_row)

end
