(* ===== verification/Store_Progress.thy ===== *)
theory Store_Progress
  imports Store_Audit
begin

text \<open>
  The store's sweeps always complete. On a reachable store the rollup loop reaches a root before
  its fuel is used up and every move it makes is in the transition table; cancelling, reaping,
  replanning and recording a review verdict are sequences of moves each of which the table
  allows on the row as the sweep finds it, so none of them is ever rolled back half way.
\<close>

section \<open>Rollup\<close>

lemma rollup_runs:
  assumes "store_ok (st s)"
    and "case p of None \<Rightarrow> True | Some i \<Rightarrow>
      (\<exists>t. task_at s i = Some t \<and> t_kind t \<noteq> K_Leaf \<and> t_depth t < fuel)"
  shows "\<exists>s'. rollup_from fuel p s = Inr ((), s') \<and> store_ok (st s')
    \<and> (\<forall>j. (\<forall>i. p = Some i \<longrightarrow> i < j) \<longrightarrow> task_at s' j = task_at s j)"
  using assms
proof (induction fuel p arbitrary: s rule: rollup_from.induct)
  case (1 fuel)
  then show ?case by (simp add: retM_def)
next
  case (2 i)
  then show ?case by simp
next
  case (3 fuel i)
  then obtain t where t: "task_at s i = Some t" "t_kind t \<noteq> K_Leaf" "t_depth t < Suc fuel"
    by auto
  define states where "states = map t_state (children_of s i)"
  show ?case
  proof (cases "rollup (t_state t) states")
    case None
    then show ?thesis
      using t 3(2) by (simp add: bindM_def get_task_def getsM_def retM_def states_def)
  next
    case (Some nxt)
    define s1 where "s1 = move_row i t (moved (tx_now s) nxt t) Ac_Rollup (json_obj []) s"
    have al: "allowed (t_state t) nxt (t_kind t) (actor_class_of Ac_Rollup)"
      using rollup_move_allowed[OF Some t(2)] by simp
    have tr: "transition i nxt Ac_Rollup (json_obj []) s = Inr (moved (tx_now s) nxt t, s1)"
      using t(1) al by (simp add: transition_Inr s1_def)
    have "nxt \<notin> {S_Claimed, S_Superseded, S_InReview}" using rollup_result[OF Some] by auto
    then have ok1: "store_ok (st s1)"
      using inv.plain_transition[OF 3(2) _ tr] by simp
    have "row_ok (st s) (tx_tenant s) t \<and> t_id t = i"
      using store_okD[OF 3(2)] t(1) by (simp add: task_at_row)
    then have "position_ok (st s) (tx_tenant s) t" "t_id t = i" by (simp_all add: row_ok_def)
    then have "case t_parent t of None \<Rightarrow> True | Some j \<Rightarrow>
        (\<exists>u. task_at s1 j = Some u \<and> t_kind u \<noteq> K_Leaf \<and> t_depth u < fuel)"
      using t(2,3) by (auto simp: position_ok_def s1_def store_simps task_at_row split: option.splits)
    then obtain s' where s': "rollup_from fuel (t_parent t) s1 = Inr ((), s')" "store_ok (st s')"
      "\<forall>j. (\<forall>q. t_parent t = Some q \<longrightarrow> q < j) \<longrightarrow> task_at s' j = task_at s1 j"
      using 3(1)[OF Some ok1] by blast
    have "task_at s' j = task_at s j" if "i < j" for j
    proof -
      have "q < j" if "t_parent t = Some q" for q
        using \<open>position_ok (st s) (tx_tenant s) t\<close> \<open>t_id t = i\<close> \<open>i < j\<close> that by (simp add: position_ok_def)
      then show ?thesis using s'(3) that by (simp add: s1_def store_simps)
    qed
    moreover have "rollup_from (Suc fuel) (Some i) s = Inr ((), s')"
      using t(1) Some tr s'(1) by (simp add: bindM_def get_task_def getsM_def states_def)
    ultimately show ?thesis using s'(2) by auto
  qed
qed

lemma rollup_up_runs:
  assumes ok: "store_ok (st s)" and t: "task_at s i = Some t"
  shows "\<exists>s'. rollup_up (t_parent t) s = Inr ((), s') \<and> store_ok (st s')
    \<and> (\<forall>j. (\<forall>p. t_parent t = Some p \<longrightarrow> p < j) \<longrightarrow> task_at s' j = task_at s j)"
proof -
  have "position_ok (st s) (tx_tenant s) t"
    using store_okD[OF ok] t by (simp add: task_at_row row_ok_def)
  moreover have "t_depth u < rollup_fuel" if "task_at s j = Some u" for j u
    using depth_bound[OF ok] that by (fastforce simp: task_at_row rollup_fuel_def max_depth_def)
  ultimately show ?thesis
    unfolding rollup_up_def
    by (intro rollup_runs ok) (auto simp: position_ok_def task_at_row split: option.splits)
qed

section \<open>Sweeps over distinct rows\<close>

lemma mapM_sweep:
  assumes "distinct (map t_id ns)" "store_ok (st s)" "\<forall>n \<in> set ns. task_at s (t_id n) = Some n"
    and step: "\<And>s n. store_ok (st s) \<Longrightarrow> n \<in> set ns \<Longrightarrow> task_at s (t_id n) = Some n \<Longrightarrow>
      \<exists>a s'. f n s = Inr (a, s') \<and> store_ok (st s') \<and> (\<forall>j. j \<noteq> t_id n \<longrightarrow> task_at s' j = task_at s j)
        \<and> (\<exists>n'. task_at s' (t_id n) = Some n' \<and> Q n n')"
  shows "\<exists>as s'. mapM f ns s = Inr (as, s') \<and> store_ok (st s')
    \<and> (\<forall>j. j \<notin> t_id ` set ns \<longrightarrow> task_at s' j = task_at s j)
    \<and> (\<forall>n \<in> set ns. \<exists>n'. task_at s' (t_id n) = Some n' \<and> Q n n')"
  using assms
proof (induction ns arbitrary: s)
  case Nil
  then show ?case by (simp add: retM_def)
next
  case (Cons n ns)
  obtain a s1 where a: "f n s = Inr (a, s1)" "store_ok (st s1)"
    "\<forall>j. j \<noteq> t_id n \<longrightarrow> task_at s1 j = task_at s j" "\<exists>n'. task_at s1 (t_id n) = Some n' \<and> Q n n'"
    using Cons(5)[OF Cons(3), of n] Cons(4) by auto
  have "t_id m \<noteq> t_id n" if "m \<in> set ns" for m
    using Cons(2) imageI[OF that, of t_id] by auto
  then have "\<forall>m \<in> set ns. task_at s1 (t_id m) = Some m" using Cons(4) a(3) by auto
  then obtain as s' where r: "mapM f ns s1 = Inr (as, s')" "store_ok (st s')"
    "\<forall>j. j \<notin> t_id ` set ns \<longrightarrow> task_at s' j = task_at s1 j"
    "\<forall>n \<in> set ns. \<exists>n'. task_at s' (t_id n) = Some n' \<and> Q n n'"
    using Cons(1)[of s1] Cons(2,5) a(2) by auto
  have "task_at s' (t_id n) = task_at s1 (t_id n)" using r(3) Cons(2) by auto
  then have "\<exists>as s'. mapM f (n # ns) s = Inr (as, s') \<and> store_ok (st s')
    \<and> (\<forall>j. j \<notin> t_id ` set (n # ns) \<longrightarrow> task_at s' j = task_at s j)
    \<and> (\<forall>m \<in> set (n # ns). \<exists>n'. task_at s' (t_id m) = Some n' \<and> Q m n')"
    using a r by (intro exI[of _ "a # as"] exI[of _ s']) (simp add: bindM_def retM_def)
  then show ?case .
qed

lemma filter_rows:
  assumes "keys_ok (st s)"
  shows "distinct (map t_id (filter P (tenant_tasks s)))"
    "\<forall>n \<in> set (filter P (tenant_tasks s)). task_at s (t_id n) = Some n"
  using tenant_tasks_distinct[OF assms] tenant_tasks_iff[OF assms] by (simp_all add: distinct_map_filter)

lemma sorted_rows:
  assumes "keys_ok (st s)"
  shows "distinct (map t_id (filter Q (sort_key f (filter P (tenant_tasks s)))))"
    "\<forall>n \<in> set (filter Q (sort_key f (filter P (tenant_tasks s)))). task_at s (t_id n) = Some n"
proof -
  have "distinct (map t_id (sort_key f (filter P (tenant_tasks s))))"
    using filter_rows(1)[OF assms, of P] by (simp add: distinct_map)
  then show "distinct (map t_id (filter Q (sort_key f (filter P (tenant_tasks s)))))"
    by (rule distinct_map_filter)
qed (use tenant_tasks_iff[OF assms] in simp)

text \<open>One move of a sweep, followed by closing the row's open work.\<close>

lemma store_ok_close: "store_ok (st (close_state i own oc p s)) = store_ok (st s)"
  by (rule store_ok_cong) (simp_all add: store_simps)

lemma move_runs:
  assumes ok: "store_ok (st s)" and n: "task_at s i = Some n" "t_id n = i"
    and al: "allowed (t_state n) to (t_kind n) (actor_class_of a)" and to: "to \<notin> {S_Claimed, S_Superseded, S_InReview}"
  shows "\<exists>s'. transition i to a d s = Inr (moved (tx_now s) to n, s') \<and> store_ok (st s')
    \<and> (\<forall>j. j \<noteq> i \<longrightarrow> task_at s' j = task_at s j) \<and> task_at s' i = Some (moved (tx_now s) to n)
    \<and> tx_tenant s' = tx_tenant s \<and> tx_now s' = tx_now s"
proof -
  let ?s' = "move_row i n (moved (tx_now s) to n) a d s"
  have tr: "transition i to a d s = Inr (moved (tx_now s) to n, ?s')"
    using n al by (simp add: transition_Inr)
  then show ?thesis
    using inv.plain_transition[OF ok to tr] by (intro exI[of _ ?s']) (simp add: store_simps)
qed


lemma closed_rows: "task_at (close_state i own oc p s) = task_at s"
  by (simp add: store_simps)

lemma close_work_runs: "close_work i own oc p s = Inr ((), close_state i own oc p s)"
  by (simp add: close_work_def modM_def close_state_def)

lemma placed: "store_ok (st s) \<Longrightarrow> task_at s i = Some t \<Longrightarrow> position_ok (st s) (tx_tenant s) t \<and> t_id t = i"
  using store_okD[of "st s" "tx_tenant s" i t] by (simp add: task_at_row row_ok_def)

lemma open_terminal:
  assumes "store_ok (st s)" "task_at s i = Some n"
  shows "kind_state_ok (t_kind n) (t_state n)" "lease_ok n" "t_id n = i"
  using store_okD[OF assms(1)] assms(2) by (simp_all add: task_at_row row_ok_def local_ok_def)

section \<open>Cancelling\<close>

lemma user_may_cancel:
  "kind_state_ok k f \<Longrightarrow> \<not> is_terminal f \<Longrightarrow> allowed f S_Cancelled k A_User"
  by (cases f; cases k; simp add: allowed_cases kind_state_ok_def)

lemma cancel_one_runs:
  assumes ok: "store_ok (st s)" and n: "task_at s (t_id n) = Some n" "\<not> is_terminal (t_state n)"
  shows "\<exists>a s'. cancel_one u n s = Inr (a, s') \<and> store_ok (st s')
    \<and> (\<forall>j. j \<noteq> t_id n \<longrightarrow> task_at s' j = task_at s j)
    \<and> (\<exists>n'. task_at s' (t_id n) = Some n' \<and> t_state n' = S_Cancelled)"
proof -
  have "allowed (t_state n) S_Cancelled (t_kind n) (actor_class_of (Ac_User u))"
    using user_may_cancel[OF open_terminal(1)[OF ok n(1)] n(2)] by simp
  from move_runs[OF ok n(1) refl this, of "json_obj []"] obtain s1 where
    s1: "transition (t_id n) S_Cancelled (Ac_User u) (json_obj []) s = Inr (moved (tx_now s) S_Cancelled n, s1)"
      "store_ok (st s1)" "\<forall>j. j \<noteq> t_id n \<longrightarrow> task_at s1 j = task_at s j"
      "task_at s1 (t_id n) = Some (moved (tx_now s) S_Cancelled n)" by auto
  then show ?thesis
    by (auto simp: cancel_one_def bindM_def close_work_runs retM_def store_ok_close closed_rows)
qed

lemma cancel_runs:
  assumes ok: "store_ok (st s)" and t: "task_at s i = Some t" "\<not> is_terminal (t_state t)"
  shows "\<exists>out s'. cancel i (Ac_User u) s = Inr (out, s') \<and> store_ok (st s')
    \<and> (\<forall>n \<in> set (subtree_of s t). \<exists>n'. task_at s' (t_id n) = Some n' \<and> is_terminal (t_state n'))"
proof -
  define ns where "ns = filter (\<lambda>n. \<not> is_terminal (t_state n)) (subtree_of s t)"
  have k: "keys_ok (st s)" using ok by (simp add: store_ok_def)
  have "distinct (map t_id ns)" "\<forall>n \<in> set ns. task_at s (t_id n) = Some n"
    using sorted_rows[OF k] by (simp_all add: ns_def subtree_of_def)
  then obtain out s1 where s1: "mapM (cancel_one u) ns s = Inr (out, s1)" "store_ok (st s1)"
    "\<forall>j. j \<notin> t_id ` set ns \<longrightarrow> task_at s1 j = task_at s j"
    "\<forall>n \<in> set ns. \<exists>n'. task_at s1 (t_id n) = Some n' \<and> t_state n' = S_Cancelled"
    using mapM_sweep[OF _ ok, of ns "cancel_one u" "\<lambda>_ n'. t_state n' = S_Cancelled"] cancel_one_runs
    by (auto simp: ns_def)
  have one: "\<exists>n'. task_at s1 (t_id n) = Some n' \<and> is_terminal (t_state n')"
    if n: "n \<in> set (subtree_of s t)" for n
  proof (cases "is_terminal (t_state n)")
    case True
    have here: "task_at s (t_id n) = Some n"
      using n tenant_tasks_iff[OF k] by (simp add: subtree_of_def)
    have "t_id n \<notin> t_id ` set ns"
    proof
      assume "t_id n \<in> t_id ` set ns"
      then obtain m where "m \<in> set ns" "t_id m = t_id n" by auto
      then have "m = n" using \<open>\<forall>n \<in> set ns. task_at s (t_id n) = Some n\<close> here by auto
      then show False using \<open>m \<in> set ns\<close> True by (simp add: ns_def)
    qed
    then show ?thesis using s1(3) here True by simp
  next
    case False
    then have "n \<in> set ns" using n by (simp add: ns_def)
    then show ?thesis using s1(4) by (fastforce simp: is_terminal_def)
  qed
  have kd: "keyed s1" using s1(2) by (simp add: keyed_def store_ok_def)
  have kp: "evo.keeps (mapM (cancel_one u) ns)"
    unfolding cancel_one_def by (intro evo.keeps_intros evo.keeps_close evo.patch_id) simp_all
  have fr: "frame s s1"
    using evo.keepsD[OF kp _ s1(1)] ok by (simp add: keyed_def store_ok_def)
  then obtain t1 where t1: "task_at s1 i = Some t1" "t_parent t1 = t_parent t"
    using t(1) by (fastforce simp: frame_def evolves_def)
  then obtain s' where s': "rollup_up (t_parent t) s1 = Inr ((), s')" "store_ok (st s')"
    using rollup_up_runs[OF s1(2) t1(1)] by auto
  have fr': "frame s1 s'" using evo.keepsD[OF evo.keeps_rollup_up kd s'(1)] by simp
  have "cancel i (Ac_User u) s = Inr (out, s')"
    using t s1(1) s'(1) unfolding ns_def
    by (simp add: cancel_def bindM_def liftM_def human_def get_task_def getsM_def retM_def)
  moreover have "\<exists>n'. task_at s' (t_id n) = Some n' \<and> is_terminal (t_state n')"
    if "n \<in> set (subtree_of s t)" for n
    using one[OF that] fr' by (fastforce simp: frame_def evolves_def)
  ultimately show ?thesis using s'(2) by blast
qed


lemma exec_ignore: "m s = Inr (a, s') \<Longrightarrow> ignore m s = Inr ((), s')"
  by (simp add: ignore_def bindM_def retM_def)

lemma step_committed: "exec lower c (tx_start m tn now) = Inr (u, s') \<Longrightarrow> step lower tn now c m = st s'"
  by (simp add: step_def run_tx_def)

lemma subtree_of_iff:
  "keys_ok (st s) \<Longrightarrow> n \<in> set (subtree_of s t) \<longleftrightarrow>
    task_at s (t_id n) = Some n \<and> (t_id n = t_id t \<or> is_ancestor_of (t_path t) (t_path n))"
  by (auto simp: subtree_of_def tenant_tasks_iff)

text \<open>
  Property C8: a user's cancel of a node that has not ended always commits, and afterwards the
  node and every row below it are in a terminal state.
\<close>

theorem cancel_completes:
  assumes "reachable lower m" and "row_at m tn i = Some t" and "\<not> is_terminal (t_state t)"
    and "row_at m tn j = Some n" and "j = i \<or> is_ancestor_of (t_path t) (t_path n)"
  shows "is_ok (exec lower (Call_Cancel i (Ac_User u)) (tx_start m tn now))
    \<and> (\<exists>n'. row_at (step lower tn now (Call_Cancel i (Ac_User u)) m) tn j = Some n'
         \<and> is_terminal (t_state n'))"
proof -
  let ?s = "tx_start m tn now"
  have ok: "store_ok (st ?s)" using reachable_store_ok[OF assms(1)] by (simp add: store_simps)
  have t: "task_at ?s i = Some t" "task_at ?s j = Some n"
    using assms(2,4) by (simp_all add: task_at_row store_simps)
  obtain out s' where s': "cancel i (Ac_User u) ?s = Inr (out, s')"
    "\<forall>n \<in> set (subtree_of ?s t). \<exists>n'. task_at s' (t_id n) = Some n' \<and> is_terminal (t_state n')"
    using cancel_runs[OF ok t(1) assms(3)] by blast
  have ids: "t_id t = i" "t_id n = j" using open_terminal(3)[OF ok] t by auto
  have k: "keyed ?s" using ok by (simp add: keyed_def store_ok_def)
  have "n \<in> set (subtree_of ?s t)"
    using subtree_of_iff[of ?s n t] k t ids assms(5) by (simp add: keyed_def)
  moreover have e: "exec lower (Call_Cancel i (Ac_User u)) ?s = Inr ((), s')"
    using s'(1) by (simp add: exec_ignore)
  moreover have "tx_tenant s' = tn"
    using evo.exec_keeps[OF k e] by (simp add: frame_def store_simps)
  ultimately show ?thesis
    using s'(2) ids step_committed[OF e] by (auto simp: task_at_row)
qed

section \<open>Reaping expired leases\<close>

lemma reaper_may_take: "kind_state_ok k f \<Longrightarrow> is_leased f \<Longrightarrow> allowed f S_Ready k A_Reaper"
  by (cases f; cases k; simp add: allowed_cases kind_state_ok_def is_leased_def)

lemma reap_one_runs:
  assumes ok: "store_ok (st s)" and n: "task_at s (t_id n) = Some n" "t_claimed_by n \<noteq> None"
  shows "\<exists>a s'. reap_one n s = Inr (a, s') \<and> store_ok (st s')
    \<and> (\<forall>j. j \<noteq> t_id n \<longrightarrow> task_at s' j = task_at s j)
    \<and> (\<exists>n'. task_at s' (t_id n) = Some n' \<and> t_state n' = S_Ready \<and> t_claimed_by n' = None)"
proof -
  have "is_leased (t_state n)" using open_terminal(2)[OF ok n(1)] n(2) by (simp add: lease_ok_def)
  then have "allowed (t_state n) S_Ready (t_kind n) (actor_class_of Ac_Reaper)"
    using reaper_may_take[OF open_terminal(1)[OF ok n(1)]] by simp
  from move_runs[OF ok n(1) refl this] obtain s1 where
    s1: "transition (t_id n) S_Ready Ac_Reaper (json_obj [(''lost_owner'', J_Str (the (t_claimed_by n)))]) s
      = Inr (moved (tx_now s) S_Ready n, s1)"
      "store_ok (st s1)" "\<forall>j. j \<noteq> t_id n \<longrightarrow> task_at s1 j = task_at s j"
      "task_at s1 (t_id n) = Some (moved (tx_now s) S_Ready n)" by auto
  moreover have "t_claimed_by (moved (tx_now s) S_Ready n) = None"
    by (simp add: moved_def is_leased_def)
  ultimately show ?thesis
    by (auto simp: reap_one_def Let_def bindM_def close_work_runs retM_def store_ok_close closed_rows)
qed

lemma lease_expired_owner: "lease_expired now n \<Longrightarrow> t_claimed_by n \<noteq> None"
  by (simp add: lease_expired_def)

text \<open>
  Property C9: the reaper always commits; afterwards every row whose lease had run out is ready
  and unowned again, and every other row is exactly as it was.
\<close>

theorem reap_completes:
  assumes "reachable lower m" and "row_at m tn i = Some t"
  shows "is_ok (exec lower Call_Reap (tx_start m tn now))
    \<and> (if lease_expired now t
       then \<exists>t'. row_at (step lower tn now Call_Reap m) tn i = Some t'
          \<and> t_state t' = S_Ready \<and> t_claimed_by t' = None
       else row_at (step lower tn now Call_Reap m) tn i = Some t)"
proof -
  let ?s = "tx_start m tn now"
  define ns where "ns = filter (lease_expired now) (tenant_tasks ?s)"
  have ok: "store_ok (st ?s)" using reachable_store_ok[OF assms(1)] by (simp add: store_simps)
  then have k: "keys_ok (st ?s)" by (simp add: store_ok_def)
  have kd: "keyed ?s" using ok by (simp add: keyed_def store_ok_def)
  note rows = filter_rows[OF k, of "lease_expired now", folded ns_def]
  have "\<exists>out s'. mapM reap_one ns ?s = Inr (out, s') \<and> store_ok (st s')
    \<and> (\<forall>j. j \<notin> t_id ` set ns \<longrightarrow> task_at s' j = task_at ?s j)
    \<and> (\<forall>n \<in> set ns. \<exists>n'. task_at s' (t_id n) = Some n' \<and> t_state n' = S_Ready \<and> t_claimed_by n' = None)"
  proof (rule mapM_sweep[OF rows(1) ok rows(2)])
    fix s n assume "store_ok (st s)" "n \<in> set ns" "task_at s (t_id n) = Some n"
    then show "\<exists>a s'. reap_one n s = Inr (a, s') \<and> store_ok (st s')
      \<and> (\<forall>j. j \<noteq> t_id n \<longrightarrow> task_at s' j = task_at s j)
      \<and> (\<exists>n'. task_at s' (t_id n) = Some n' \<and> t_state n' = S_Ready \<and> t_claimed_by n' = None)"
      by (intro reap_one_runs lease_expired_owner[of now]) (simp_all add: ns_def)
  qed
  then obtain out s' where s': "mapM reap_one ns ?s = Inr (out, s')"
    "\<forall>j. j \<notin> t_id ` set ns \<longrightarrow> task_at s' j = task_at ?s j"
    "\<forall>n \<in> set ns. \<exists>n'. task_at s' (t_id n) = Some n' \<and> t_state n' = S_Ready \<and> t_claimed_by n' = None"
    by blast
  have e: "exec lower Call_Reap ?s = Inr ((), s')"
    using s'(1) by (simp add: reap_def ignore_def bindM_def getsM_def retM_def ns_def store_simps)
  have tn: "tx_tenant s' = tn" using evo.exec_keeps[OF kd e] by (simp add: frame_def store_simps)
  have t: "task_at ?s i = Some t" using assms(2) by (simp add: task_at_row store_simps)
  have id: "t_id t = i" using open_terminal(3)[OF ok t] .
  have "t \<in> set ns \<longleftrightarrow> lease_expired now t"
    using tenant_tasks_iff[OF k, of t] t id by (simp add: ns_def)
  moreover have "i \<in> t_id ` set ns \<longleftrightarrow> t \<in> set ns"
    using rows(2) t id unfolding image_iff by (metis option.inject)
  ultimately have in_ns: "i \<in> t_id ` set ns \<longleftrightarrow> lease_expired now t" "t \<in> set ns \<longleftrightarrow> lease_expired now t"
    by simp_all
  have rows': "row_at (step lower tn now Call_Reap m) tn i = task_at s' i"
    using step_committed[OF e] tn by (simp add: task_at_row)
  show ?thesis
  proof (cases "lease_expired now t")
    case True
    then show ?thesis using s'(3) in_ns(2) id rows' e by auto
  next
    case False
    then show ?thesis using s'(2) in_ns(1) t rows' e by simp
  qed
qed


section \<open>Recording a review verdict\<close>

lemma rollup_may_block: "k \<noteq> K_Objective \<Longrightarrow> allowed S_Ready S_Blocked k A_Rollup"
  by (cases k) (simp_all add: allowed_cases)

lemma block_dependents_runs:
  assumes ok: "store_ok (st s)" and p: "t_parent leaf = Some p"
  shows "\<exists>s'. block_dependents leaf s = Inr ((), s') \<and> store_ok (st s')
    \<and> (\<forall>j n. task_at s j = Some n \<longrightarrow>
         (if t_parent n = Some p \<and> t_state n = S_Ready \<and> t_id leaf \<in> set (t_depends_on n)
          then \<exists>n'. task_at s' j = Some n' \<and> t_state n' = S_Blocked
          else task_at s' j = Some n))"
proof -
  define hit :: "task \<Rightarrow> bool" where "hit n \<longleftrightarrow> t_state n = S_Ready \<and> t_id leaf \<in> set (t_depends_on n)" for n
  define ns where "ns = filter hit (children_of s p)"
  define act :: "task \<Rightarrow> task op" where "act = (\<lambda>sib. transition (t_id sib) S_Blocked Ac_Rollup
    (json_obj [(''reason'', J_Str (block_reason_str B_DependencyFailed)), (''dependency'', J_Int (t_id leaf))]))"
  have k: "keys_ok (st s)" using ok by (simp add: store_ok_def)
  note rows = sorted_rows[OF k, of hit t_ordinal "\<lambda>t. t_parent t = Some p", folded children_of_def ns_def]
  have "\<exists>out s'. mapM act ns s = Inr (out, s') \<and> store_ok (st s')
    \<and> (\<forall>j. j \<notin> t_id ` set ns \<longrightarrow> task_at s' j = task_at s j)
    \<and> (\<forall>n \<in> set ns. \<exists>n'. task_at s' (t_id n) = Some n' \<and> t_state n' = S_Blocked)"
  proof (rule mapM_sweep[OF rows(1) ok rows(2)])
    fix s n assume s: "store_ok (st s)" "n \<in> set ns" "task_at s (t_id n) = Some n"
    have "position_ok (st s) (tx_tenant s) n" using placed[OF s(1,3)] by simp
    then have "t_kind n \<noteq> K_Objective"
      using s(2) by (auto simp: ns_def children_of_def position_ok_def)
    then have "allowed (t_state n) S_Blocked (t_kind n) (actor_class_of Ac_Rollup)"
      using s(2) rollup_may_block by (simp add: ns_def hit_def)
    from move_runs[OF s(1,3) refl this] show "\<exists>a s'. act n s = Inr (a, s') \<and> store_ok (st s')
      \<and> (\<forall>j. j \<noteq> t_id n \<longrightarrow> task_at s' j = task_at s j)
      \<and> (\<exists>n'. task_at s' (t_id n) = Some n' \<and> t_state n' = S_Blocked)"
      unfolding act_def by fastforce
  qed
  then obtain out s' where s': "mapM act ns s = Inr (out, s')" "store_ok (st s')"
    "\<forall>j. j \<notin> t_id ` set ns \<longrightarrow> task_at s' j = task_at s j"
    "\<forall>n \<in> set ns. \<exists>n'. task_at s' (t_id n) = Some n' \<and> t_state n' = S_Blocked" by blast
  have "block_dependents leaf s = Inr ((), s')"
    using s'(1) by (simp add: block_dependents_def p bindM_def getsM_def retM_def ns_def hit_def[abs_def] act_def)
  moreover have "if t_parent n = Some p \<and> hit n
      then \<exists>n'. task_at s' j = Some n' \<and> t_state n' = S_Blocked else task_at s' j = Some n"
    if n: "task_at s j = Some n" for j n
  proof -
    have id: "t_id n = j" by (rule keys_ok_task[OF k n])
    have "n \<in> set ns \<longleftrightarrow> t_parent n = Some p \<and> hit n"
      using children_of_iff[OF k, of n p] n id by (auto simp: ns_def)
    moreover have "j \<in> t_id ` set ns \<longleftrightarrow> n \<in> set ns"
      using rows(2) n id unfolding image_iff by (metis option.inject)
    ultimately show ?thesis using s'(3,4) n id by auto
  qed
  ultimately show ?thesis using s'(2) by (auto simp: hit_def)
qed

lemma poller_may_close: "kind_state_ok k S_InReview \<Longrightarrow> allowed S_InReview (fst (verdict r)) k A_Poller"
  by (cases k; cases r; simp add: kind_state_ok_def allowed_cases)


lemma resolve_runs:
  assumes ok: "store_ok (st s)" and t: "task_at s i = Some t" "t_state t = S_InReview"
  shows "\<exists>r s'. resolve_review i oc s = Inr (r, s') \<and> t_state r = fst (verdict oc)
    \<and> task_at s' i = Some r
    \<and> (oc = RO_Closed \<longrightarrow> (\<forall>j n. task_at s j = Some n \<longrightarrow> t_parent n = t_parent t \<longrightarrow>
         t_state n = S_Ready \<longrightarrow> i \<in> set (t_depends_on n) \<longrightarrow>
         (\<exists>n'. task_at s' j = Some n' \<and> t_state n' = S_Blocked)))"
proof -
  let ?to = "fst (verdict oc)"
  have f: "kind_state_ok (t_kind t) S_InReview" "t_id t = i" using open_terminal[OF ok t(1)] t(2) by auto
  have al: "allowed (t_state t) ?to (t_kind t) (actor_class_of Ac_Poller)"
    using poller_may_close[OF f(1)] t(2) by simp
  have to: "?to \<notin> {S_Claimed, S_Superseded, S_InReview}" by (cases oc) simp_all
  have "t_kind t = K_Leaf" using f(1) by (cases "t_kind t") (simp_all add: kind_state_ok_def)
  then obtain p where p: "t_parent t = Some p" "p < i"
    using placed[OF ok t(1)] by (auto simp: position_ok_def split: option.splits)
  obtain s1 where s1: "transition i ?to Ac_Poller (json_obj [(''review'', J_Str (snd (verdict oc)))]) s
      = Inr (moved (tx_now s) ?to t, s1)" "store_ok (st s1)"
    "\<forall>j. j \<noteq> i \<longrightarrow> task_at s1 j = task_at s j" "task_at s1 i = Some (moved (tx_now s) ?to t)"
    using move_runs[OF ok t(1) f(2) al to] by blast
  obtain s2 where s2: "whenM (?to = S_Failed) (block_dependents t) s1 = Inr ((), s2)" "store_ok (st s2)"
    "\<forall>j n. task_at s1 j = Some n \<longrightarrow> (if ?to = S_Failed \<and> t_parent n = Some p \<and> t_state n = S_Ready
       \<and> i \<in> set (t_depends_on n) then \<exists>n'. task_at s2 j = Some n' \<and> t_state n' = S_Blocked
       else task_at s2 j = Some n)"
    using block_dependents_runs[OF s1(2) p(1)] s1(2) f(2)
    by (cases "?to = S_Failed") (auto simp: whenM_def retM_def)
  have t2: "task_at s2 i = Some (moved (tx_now s) ?to t)"
    using s2(3) s1(4) by (cases oc) (auto dest!: spec[of _ i])
  obtain s3 where s3: "rollup_up (t_parent (moved (tx_now s) ?to t)) s2 = Inr ((), s3)"
    "\<forall>j. p < j \<longrightarrow> task_at s3 j = task_at s2 j"
    using rollup_up_runs[OF s2(2) t2] p by auto
  have "resolve_review i oc s = Inr (moved (tx_now s) ?to t, s3)"
    using t s1(1) s2(1) s3 t2 p
    by (cases oc) (simp_all add: resolve_review_def bindM_def get_task_def require_state_def retM_def)
  moreover have "\<exists>n'. task_at s3 j = Some n' \<and> t_state n' = S_Blocked"
    if h: "oc = RO_Closed" "task_at s j = Some n" "t_parent n = t_parent t" "t_state n = S_Ready"
      "i \<in> set (t_depends_on n)" for j n
  proof -
    have "j \<noteq> i" using h(2,4) t by auto
    then have "task_at s1 j = Some n" using s1(3) h(2) by simp
    then obtain n' where n': "task_at s2 j = Some n'" "t_state n' = S_Blocked"
      using s2(3) h p(1) by fastforce
    have "t_id n = j \<and> p < t_id n"
      using placed[OF ok h(2)] h(3) p(1) by (simp add: position_ok_def)
    then show ?thesis using s3(2) n' by auto
  qed
  ultimately show ?thesis using s3(2) t2 p(2) by auto
qed



section \<open>Witnesses\<close>

theorem cancel_completes_witness:
  "\<exists>n'. row_at (step (\<lambda>s. s) ''acme'' 20 (Call_Cancel 1 (Ac_User ''ann'')) demo_store) ''acme'' 3 = Some n'
    \<and> is_terminal (t_state n')"
proof -
  obtain t n where r: "row_at demo_store ''acme'' 1 = Some t" "row_at demo_store ''acme'' 3 = Some n"
    "t_state t = S_Decomposed" "t_path t = \<lparr>raw = ''1''\<rparr>" "t_path n = \<lparr>raw = ''1.2''\<rparr>"
    using demo_rows(1,2) by blast
  have "is_ancestor_of \<lparr>raw = ''1''\<rparr> \<lparr>raw = ''1.2''\<rparr>" by code_simp
  then show ?thesis
    using cancel_completes[OF demo_store_reachable r(1) _ r(2)] r(3-5) by (simp add: is_terminal_def)
qed

theorem reap_completes_witness:
  "\<exists>t'. row_at (step (\<lambda>s. s) ''acme'' 100000 Call_Reap demo_store) ''acme'' 3 = Some t'
    \<and> t_state t' = S_Ready \<and> t_claimed_by t' = None"
proof -
  obtain n where n: "row_at demo_store ''acme'' 3 = Some n" "t_claimed_by n = Some ''w1''"
    "t_lease_until n = Some 60012" using demo_rows(2) by blast
  then show ?thesis
    using reap_completes[OF demo_store_reachable n(1), of 100000] by (simp add: lease_expired_def)
qed


end
