(* ===== verification/Store_Idempotence.thy ===== *)
theory Store_Idempotence
  imports Store_Progress
begin

text \<open>
  Exactly-once planning and owner fencing. Every committed call only adds idempotency keys, and a
  committed plan call records its own; so a plan call that repeats a recorded key is refused
  with \<open>AlreadyApplied\<close> and changes nothing, however many calls lie in between. A worker whose
  lease has been taken over can no longer move the leaf.
\<close>

section \<open>Keys are never dropped\<close>

definition grows :: "'a op \<Rightarrow> bool" where
  "grows m \<longleftrightarrow> (\<forall>s a s'. m s = Inr (a, s') \<longrightarrow> tx_tenant s' = tx_tenant s \<and> idem (st s) \<subseteq> idem (st s'))"

lemma growsI:
  "(\<And>s a s'. m s = Inr (a, s') \<Longrightarrow> tx_tenant s' = tx_tenant s \<and> idem (st s) \<subseteq> idem (st s')) \<Longrightarrow> grows m"
  by (auto simp: grows_def)

lemma growsD: "grows m \<Longrightarrow> m s = Inr (a, s') \<Longrightarrow> tx_tenant s' = tx_tenant s \<and> idem (st s) \<subseteq> idem (st s')"
  by (auto simp: grows_def)

lemma grows_bind: "grows m \<Longrightarrow> (\<And>a. grows (f a)) \<Longrightarrow> grows (bindM m f)"
  unfolding grows_def bindM_Inr by (metis subset_trans)

lemma grows_basic:
  "grows (retM a)" "grows (failM e)" "grows (getsM g)" "grows (liftM r)" "grows (get_task i)"
  "grows (policy_of c)" "grows (require_state t x)" "grows (cas t v x)" "grows (require_owner t own)"
  "grows (idem_fresh ik)" "grows (lift_path q)" "grows (fresh_task_id)" "grows (mod_task i h)"
  "grows (transition i to ac d)" "grows (emit_event i ev to ac v d)" "grows (close_work i w oc p)"
  "grows (insert_attempt i k ik w oc)"
  by (rule growsI; auto simp: op_Inr store_simps add_attempt_def)+

lemma grows_put: "grows (modM (put_task i t))"
  by (rule growsI) (auto simp: op_Inr store_simps)

lemma grows_tenant: "grows (modM (\<lambda>s. s\<lparr>st := (st s)\<lparr>tenants := h s\<rparr>\<rparr>))"
  by (rule growsI) (auto simp: op_Inr)

lemma grows_attempts:
  "grows (modM (\<lambda>s. case g s of None \<Rightarrow> s | Some row \<Rightarrow> s\<lparr>st := (st s)\<lparr>attempts := h s row\<rparr>\<rparr>))"
  by (rule growsI) (auto simp: op_Inr split: option.splits)

lemma grows_mapM: "(\<And>x. x \<in> set xs \<Longrightarrow> grows (f x)) \<Longrightarrow> grows (mapM f xs)"
proof (induction xs)
  case (Cons x xs)
  then show ?case by (auto intro!: grows_bind grows_basic)
qed (simp add: grows_basic)

lemma grows_rollup: "grows (rollup_from n p)"
proof (induction n p rule: rollup_from.induct)
  case (3 n i)
  show ?case
    unfolding rollup_from.simps
    by (intro grows_bind grows_basic) (use 3 in \<open>auto split: option.split intro!: grows_bind grows_basic\<close>)
qed (simp_all add: grows_basic)

lemma grows_plan_attempt: "grows (plan_attempt_row i pa oc err)"
  unfolding plan_attempt_row_def Let_def case_prod_beta
  by (intro grows_bind grows_basic grows_attempts)

lemma grows_if: "(c \<Longrightarrow> grows m) \<Longrightarrow> (\<not> c \<Longrightarrow> grows m') \<Longrightarrow> grows (if c then m else m')"
  by simp

lemma grows_block: "grows (block_dependents leaf)"
  unfolding block_dependents_def
  by (cases "t_parent leaf") (auto intro!: grows_bind grows_basic grows_mapM)

lemma grows_heartbeat: "grows (heartbeat i w n)"
  by (rule growsI) (auto simp: heartbeat_def store_simps split: option.splits if_splits)

lemmas grows_intros = grows_bind grows_basic grows_put grows_tenant grows_mapM grows_rollup
  grows_plan_attempt grows_block grows_heartbeat grows_if

lemma grows_create: "grows (create lower r a)"
  unfolding create_def Let_def case_prod_beta
  by (auto intro!: grows_intros split: option.split plan_close_outcome.split)

lemma grows_plan_start: "grows (plan_start i)"
  unfolding plan_start_def rollup_up_def Let_def case_prod_beta
  by (auto intro!: grows_intros split: option.split plan_close_outcome.split)

lemma grows_decompose: "grows (decompose lower r)"
  unfolding decompose_def insert_child_def link_child_def Let_def case_prod_beta
  by (auto intro!: grows_intros split: option.split plan_close_outcome.split)

lemma grows_mark_leaf: "grows (mark_leaf lower r)"
  unfolding mark_leaf_def Let_def case_prod_beta
  by (auto intro!: grows_intros split: option.split plan_close_outcome.split)

lemma grows_plan_close: "grows (plan_close lower r)"
  unfolding plan_close_def close_node_def rollup_up_def Let_def case_prod_beta
  by (auto intro!: grows_intros split: option.split plan_close_outcome.split)

lemma grows_claim: "grows (claim r)"
  unfolding claim_def claim_one_def Let_def case_prod_beta
  by (auto intro!: grows_intros split: option.split plan_close_outcome.split)

lemma grows_reap: "grows reap"
  unfolding reap_def reap_one_def Let_def case_prod_beta
  by (auto intro!: grows_intros split: option.split plan_close_outcome.split)

lemma grows_reap_decomposing: "grows (reap_decomposing n)"
  unfolding reap_decomposing_def Let_def case_prod_beta
  by (auto intro!: grows_intros split: option.split plan_close_outcome.split)

lemma grows_start: "grows (start i w)"
  unfolding start_def Let_def case_prod_beta
  by (auto intro!: grows_intros split: option.split plan_close_outcome.split)

lemma grows_complete: "grows (complete r)"
  unfolding complete_def Let_def case_prod_beta
  by (auto intro!: grows_intros split: option.split plan_close_outcome.split)

lemma grows_fail_leaf: "grows (fail_leaf r)"
  unfolding fail_leaf_def rollup_up_def Let_def case_prod_beta
  by (auto intro!: grows_intros split: option.split plan_close_outcome.split)

lemma grows_resolve_review: "grows (resolve_review i oc)"
  unfolding resolve_review_def rollup_up_def whenM_def Let_def case_prod_beta
  by (auto intro!: grows_intros split: option.split plan_close_outcome.split)

lemma grows_review_note: "grows (review_note i n)"
  unfolding review_note_def Let_def case_prod_beta
  by (auto intro!: grows_intros split: option.split plan_close_outcome.split)

lemma grows_approve: "grows (approve i v a)"
  unfolding approve_def Let_def case_prod_beta
  by (auto intro!: grows_intros split: option.split plan_close_outcome.split)

lemma grows_approve_children: "grows (approve_children i a)"
  unfolding approve_children_def Let_def case_prod_beta
  by (auto intro!: grows_intros split: option.split plan_close_outcome.split)

lemma grows_answer: "grows (answer lower i v g a)"
  unfolding answer_def Let_def case_prod_beta
  by (auto intro!: grows_intros split: option.split plan_close_outcome.split)

lemma grows_retry: "grows (retry i a)"
  unfolding retry_def rollup_up_def Let_def case_prod_beta
  by (auto intro!: grows_intros split: option.split plan_close_outcome.split)

lemma grows_update_policy: "grows (update_policy i p a)"
  unfolding update_policy_def Let_def case_prod_beta
  by (auto intro!: grows_intros split: option.split plan_close_outcome.split)

lemma grows_cancel: "grows (cancel i a)"
  unfolding cancel_def cancel_one_def rollup_up_def Let_def case_prod_beta
  by (auto intro!: grows_intros split: option.split plan_close_outcome.split)

lemma grows_replan: "grows (replan i a)"
  unfolding replan_def supersede_one_def Let_def case_prod_beta
  by (auto intro!: grows_intros split: option.split plan_close_outcome.split)

lemmas grows_ops = grows_create grows_plan_start grows_decompose grows_mark_leaf grows_plan_close grows_claim grows_reap grows_reap_decomposing grows_start grows_complete grows_fail_leaf grows_resolve_review grows_review_note grows_approve grows_approve_children grows_answer grows_retry grows_update_policy grows_cancel grows_replan

lemma grows_exec: "grows (exec lower c)"
  by (cases c) (simp_all add: ignore_def grows_bind grows_basic grows_ops grows_heartbeat)

section \<open>Plan calls record their key\<close>

definition records :: "idem_key \<Rightarrow> 'a op \<Rightarrow> bool" where
  "records k m \<longleftrightarrow> (\<forall>s a s'. m s = Inr (a, s') \<longrightarrow> (tx_tenant s, k) \<in> idem (st s'))"

lemma records_then: "records k m \<Longrightarrow> (\<And>a. grows (f a)) \<Longrightarrow> records k (bindM m f)"
  unfolding records_def bindM_Inr by (metis growsD subsetD)

lemma records_after: "grows m \<Longrightarrow> (\<And>a. records k (f a)) \<Longrightarrow> records k (bindM m f)"
  unfolding records_def bindM_Inr by (metis growsD)

lemma records_attempt: "records (pa_idem pa) (plan_attempt_row i pa oc err)"
proof -
  have "records k (insert_attempt i T_Decompose k w oc)" for k w
    by (auto simp: records_def op_Inr add_attempt_def)
  then show ?thesis
    unfolding plan_attempt_row_def Let_def case_prod_beta
    by (intro records_after[OF grows_basic(4)] records_then grows_bind grows_basic grows_attempts)
qed

lemma records_fail: "records k (failM e)"
  by (simp add: records_def failM_def)

lemma records_if: "(c \<Longrightarrow> records k m) \<Longrightarrow> (\<not> c \<Longrightarrow> records k m') \<Longrightarrow> records k (if c then m else m')"
  by simp

fun plan_key :: "call \<Rightarrow> idem_key option" where
  "plan_key (Call_Decompose r) = Some (pa_idem (dc_attempt r))"
| "plan_key (Call_MarkLeaf r) = Some (pa_idem (ml_attempt r))"
| "plan_key (Call_PlanClose r) = Some (pa_idem (pc_attempt r))"
| "plan_key _ = None"

lemma records_decompose: "records (pa_idem (dc_attempt r)) (decompose lower r)"
  unfolding decompose_def Let_def
  by (intro records_if records_fail records_after[OF grows_basic(10)] records_after[OF grows_basic(5)]
      records_after[OF grows_basic(8)] records_after[OF grows_basic(4)] records_after[OF grows_basic(6)]
      records_after[OF grows_basic(3)] records_then[OF records_attempt])
    (auto simp: insert_child_def link_child_def Let_def intro!: grows_intros)

lemma records_mark_leaf: "records (pa_idem (ml_attempt r)) (mark_leaf lower r)"
  unfolding mark_leaf_def Let_def
  by (intro records_if records_fail records_after[OF grows_basic(10)] records_after[OF grows_basic(5)]
      records_after[OF grows_basic(8)] records_after[OF grows_basic(4)] records_after[OF grows_basic(6)]
      records_after[OF grows_basic(3)] records_then[OF records_attempt])
    (auto intro!: grows_intros)

lemma records_close_node: "records (pa_idem (pc_attempt r)) (close_node lower r t)"
  unfolding close_node_def Let_def
  by (cases "pc_outcome r"; simp only: plan_close_outcome.case;
      intro records_after[OF grows_basic(4)] records_then[OF records_attempt];
      auto simp: rollup_up_def intro!: grows_intros)

lemma records_plan_close: "records (pa_idem (pc_attempt r)) (plan_close lower r)"
  unfolding plan_close_def
  by (intro records_if records_fail records_after[OF grows_basic(10)] records_after[OF grows_basic(5)]
      records_after[OF grows_basic(8)] records_close_node)

lemma exec_records: "plan_key c = Some k \<Longrightarrow> records k (exec lower c)"
  by (cases c)
    (auto simp: ignore_def intro!: records_then grows_basic records_decompose records_mark_leaf records_plan_close)

lemma exec_replay:
  "plan_key c = Some k \<Longrightarrow> (tx_tenant s, k) \<in> idem (st s) \<Longrightarrow> exec lower c s = Inl E_AlreadyApplied"
  by (cases c) (auto simp: ignore_def bindM_def decompose_def mark_leaf_def plan_close_def idem_fresh_def)

definition calls :: "(rstr \<Rightarrow> rstr) \<Rightarrow> (tenant_id \<times> nat \<times> call) list \<Rightarrow> mem_state \<Rightarrow> mem_state" where
  "calls lower cs m = fold (\<lambda>(tn, now, c). step lower tn now c) cs m"

lemma step_idem: "idem m \<subseteq> idem (step lower tn now c m)"
  by (rule step_cases[of lower c m tn now])
    (use growsD[OF grows_exec, of lower c "tx_start m tn now"] in \<open>auto simp: store_simps\<close>)

lemma calls_idem: "idem m \<subseteq> idem (calls lower cs m)"
  unfolding calls_def
proof (induction cs arbitrary: m)
  case (Cons c cs)
  then show ?case using step_idem by (cases c) fastforce
qed simp

text \<open>
  Property C6: a plan is applied exactly once. Once a decompose, mark-leaf or plan-close call has
  committed, every later plan call of that tenant carrying the same idempotency key answers
  \<open>AlreadyApplied\<close> and leaves the store untouched, whatever calls by whomever came in between.
\<close>

theorem plan_applied_once:
  assumes "exec lower c (tx_start m tn now) = Inr (u, s')"
    and "plan_key c = Some k" and "plan_key c' = Some k"
  shows "exec lower c' (tx_start (calls lower cs (st s')) tn now') = Inl E_AlreadyApplied
    \<and> step lower tn now' c' (calls lower cs (st s')) = calls lower cs (st s')"
proof -
  have "(tn, k) \<in> idem (st s')"
    using exec_records[OF assms(2), of lower] assms(1) unfolding records_def
    by (metis tx_start_simps(2))
  then have "(tn, k) \<in> idem (calls lower cs (st s'))" using calls_idem by blast
  then have "exec lower c' (tx_start (calls lower cs (st s')) tn now') = Inl E_AlreadyApplied"
    by (intro exec_replay[OF assms(3)]) (simp add: store_simps)
  then show ?thesis by (simp add: step_def run_tx_def)
qed

section \<open>Owner fencing\<close>

definition worker_calls :: "task_id \<Rightarrow> owner \<Rightarrow> complete_req \<Rightarrow> fail_req \<Rightarrow> int \<Rightarrow> call list" where
  "worker_calls i own cr fr n =
     [Call_Start i own, Call_Complete (cr\<lparr>cp_task := i, cp_owner := own\<rparr>),
      Call_Fail (fr\<lparr>fl_task := i, fl_owner := own\<rparr>), Call_Heartbeat i own n]"

lemma stranger_rejected:
  assumes "task_at s i = Some t" "t_claimed_by t \<noteq> Some own" "c \<in> set (worker_calls i own cr fr n)"
  shows "exec lower c s = Inl E_LeaseLost"
  using assms(3,1,2)
  by (auto simp: worker_calls_def ignore_def bindM_def start_def complete_def fail_leaf_def heartbeat_def
      get_task_def require_owner_def failM_def)

text \<open>
  Property C11: a worker whose lease ran out is fenced off. Once the reaper has run, its start,
  completion, failure report and heartbeat for that leaf are all refused with \<open>LeaseLost\<close>, and
  the store does not change.
\<close>

theorem reaped_worker_fenced:
  assumes "reachable lower m" and "row_at m tn i = Some t" and "lease_expired now t"
    and "c \<in> set (worker_calls i own cr fr n)"
  defines "m' \<equiv> step lower tn now Call_Reap m"
  shows "exec lower c (tx_start m' tn now') = Inl E_LeaseLost \<and> step lower tn now' c m' = m'"
proof -
  obtain t' where "row_at m' tn i = Some t'" "t_claimed_by t' = None"
    using reap_completes[OF assms(1,2), of now] assms(3) by (auto simp: m'_def)
  then have "exec lower c (tx_start m' tn now') = Inl E_LeaseLost"
    by (intro stranger_rejected[of _ i t', OF _ _ assms(4)]) (simp_all add: task_at_row store_simps)
  then show ?thesis by (simp add: step_def run_tx_def)
qed

theorem plan_applied_once_witness:
  "step (\<lambda>s. s) ''acme'' 9 (Call_Decompose demo_split) (run ''acme'' (take 3 demo_plan))
    = run ''acme'' (take 3 demo_plan)"
proof -
  define m where "m = run ''acme'' (take 2 demo_plan)"
  have "is_ok (exec (\<lambda>s. s) (Call_Decompose demo_split) (tx_start m ''acme'' 3))"
    unfolding m_def by code_simp
  then obtain u s' where c: "exec (\<lambda>s. s) (Call_Decompose demo_split) (tx_start m ''acme'' 3) = Inr (u, s')"
    by (cases "exec (\<lambda>s. s) (Call_Decompose demo_split) (tx_start m ''acme'' 3)") auto
  have "run ''acme'' (take 3 demo_plan) = st s'"
    using step_committed[OF c] by (simp add: m_def run_def demo_plan_def)
  then show ?thesis
    using plan_applied_once[OF c, of _ "Call_Decompose demo_split" "[]"] by (simp add: calls_def)
qed

theorem reaped_worker_fenced_witness:
  "exec (\<lambda>s. s) (Call_Heartbeat 3 ''w1'' 60)
     (tx_start (step (\<lambda>s. s) ''acme'' 100000 Call_Reap demo_store) ''acme'' 100001) = Inl E_LeaseLost"
proof -
  obtain n where n: "row_at demo_store ''acme'' 3 = Some n" "lease_expired 100000 n"
    using demo_rows(2) by (auto simp: lease_expired_def)
  then show ?thesis
    using reaped_worker_fenced[OF demo_store_reachable n, of "Call_Heartbeat 3 ''w1'' 60" "''w1''" _ _ 60]
    by (simp add: worker_calls_def)
qed

end
