(* ===== verification/Rbac.thy ===== *)
theory Rbac
  imports Segments
begin

text \<open>
  Role-based access control of the control plane, \<open>crates/agent-core/src/rbac.rs\<close>: actions and
  resource types with their wire names, role definitions and the built-in catalog, the
  deny-by-default decision \<open>authorize\<close>, operator-defined role cards and the rules for writing
  them. A catalog (a \<open>HashMap\<close>) is a finite partial map, a \<open>HashSet\<close> a set. The role store of
  \<open>load_catalog\<close> is its list of cards.
\<close>

section \<open>Actions and resource types\<close>

datatype action =
    Act_Read | Act_Write | Act_Delete | Act_Approve | Act_Schedule | Act_Trigger | Act_Use | Act_Observe

definition all_actions :: "action list" where
  "all_actions =
     [Act_Read, Act_Write, Act_Delete, Act_Approve, Act_Schedule, Act_Trigger, Act_Use,
     Act_Observe]"

fun action_str :: "action \<Rightarrow> rstr" where
  "action_str Act_Read = ''read''"
| "action_str Act_Write = ''write''"
| "action_str Act_Delete = ''delete''"
| "action_str Act_Approve = ''approve''"
| "action_str Act_Schedule = ''schedule''"
| "action_str Act_Trigger = ''trigger''"
| "action_str Act_Use = ''use''"
| "action_str Act_Observe = ''observe''"

definition parse_name :: "('a \<Rightarrow> rstr) \<Rightarrow> 'a list \<Rightarrow> rstr \<Rightarrow> 'a option" where
  "parse_name name alls s = find (\<lambda>a. name a = ascii_lowercase (str_trim s)) alls"

definition action_parse :: "rstr \<Rightarrow> action option" where
  "action_parse = parse_name action_str all_actions"

datatype resource_type =
    RT_Config | RT_Registry | RT_Fleet | RT_Prompt | RT_Graph | RT_Scheduler | RT_Role | RT_ForgeRegistry
  | RT_TransportRegistry | RT_Agent | RT_Exec | RT_Review | RT_Binding | RT_Telemetry | RT_Theme

definition all_resources :: "resource_type list" where
  "all_resources =
     [RT_Config, RT_Registry, RT_Fleet, RT_Prompt, RT_Graph, RT_Scheduler, RT_Role,
     RT_ForgeRegistry, RT_TransportRegistry, RT_Agent, RT_Exec, RT_Review, RT_Binding,
     RT_Telemetry, RT_Theme]"

fun resource_str :: "resource_type \<Rightarrow> rstr" where
  "resource_str RT_Config = ''config''"
| "resource_str RT_Registry = ''registry''"
| "resource_str RT_Fleet = ''fleet''"
| "resource_str RT_Prompt = ''prompt''"
| "resource_str RT_Graph = ''graph''"
| "resource_str RT_Scheduler = ''scheduler''"
| "resource_str RT_Role = ''role''"
| "resource_str RT_ForgeRegistry = ''forge_registry''"
| "resource_str RT_TransportRegistry = ''transport_registry''"
| "resource_str RT_Agent = ''agent''"
| "resource_str RT_Exec = ''exec''"
| "resource_str RT_Review = ''review''"
| "resource_str RT_Binding = ''binding''"
| "resource_str RT_Telemetry = ''telemetry''"
| "resource_str RT_Theme = ''theme''"

definition resource_parse :: "rstr \<Rightarrow> resource_type option" where
  "resource_parse = parse_name resource_str all_resources"

fun is_operator_global :: "resource_type \<Rightarrow> bool" where
  "is_operator_global RT_Config = True"
| "is_operator_global _ = False"

record resource =
  res_type :: resource_type
  res_tenant :: rstr

datatype access_decision = Allow | Deny rstr

fun is_allowed :: "access_decision \<Rightarrow> bool" where
  "is_allowed Allow = True"
| "is_allowed (Deny _) = False"

section \<open>Roles\<close>

datatype permission_set =
    PS_All | PS_ActionsOnAll "action set" | PS_Pairs "(action \<times> resource_type) set"

record role_def =
  crosses_tenants :: bool
  permissions :: permission_set

definition role_admin :: "bool \<Rightarrow> role_def" where
  "role_admin crosses = \<lparr>crosses_tenants = crosses, permissions = PS_All\<rparr>"

definition role_actions_on_all :: "bool \<Rightarrow> action list \<Rightarrow> role_def" where
  "role_actions_on_all crosses acts =
     \<lparr>crosses_tenants = crosses, permissions = PS_ActionsOnAll (set acts)\<rparr>"

definition role_pairs :: "bool \<Rightarrow> (action \<times> resource_type) list \<Rightarrow> role_def" where
  "role_pairs crosses ps = \<lparr>crosses_tenants = crosses, permissions = PS_Pairs (set ps)\<rparr>"

definition grants :: "role_def \<Rightarrow> action \<Rightarrow> resource_type \<Rightarrow> bool" where
  "grants d a r = (case permissions d of
       PS_All \<Rightarrow> True
     | PS_ActionsOnAll acts \<Rightarrow> a \<in> acts
     | PS_Pairs ps \<Rightarrow> (a, r) \<in> ps)"

definition role_operator :: rstr where "role_operator = ''operator''"
definition role_org_admin :: rstr where "role_org_admin = ''org_admin''"
definition role_viewer :: rstr where "role_viewer = ''viewer''"
definition role_reader :: rstr where "role_reader = ''reader''"
definition role_review_viewer :: rstr where "role_review_viewer = ''review_viewer''"
definition role_agent_user :: rstr where "role_agent_user = ''agent_user''"
definition role_reviewer :: rstr where "role_reviewer = ''reviewer''"
definition role_fleet_admin :: rstr where "role_fleet_admin = ''fleet_admin''"
definition role_access_admin :: rstr where "role_access_admin = ''access_admin''"
definition role_svc_fleet :: rstr where "role_svc_fleet = ''svc_fleet''"
definition role_svc_seam :: rstr where "role_svc_seam = ''svc_seam''"

lemmas role_names = role_operator_def role_org_admin_def role_viewer_def role_reader_def
  role_review_viewer_def role_agent_user_def role_reviewer_def role_fleet_admin_def
  role_access_admin_def role_svc_fleet_def role_svc_seam_def

definition builtin_roles :: "rstr list" where
  "builtin_roles =
     [role_operator, role_org_admin, role_viewer, role_reader, role_review_viewer, role_agent_user,
      role_reviewer, role_fleet_admin, role_access_admin, role_svc_fleet, role_svc_seam]"

type_synonym catalog = "rstr \<Rightarrow> role_def option"

definition viewer_def :: role_def where
  "viewer_def = role_pairs False (map (\<lambda>r. (Act_Read, r)) (filter (\<lambda>r. \<not> is_operator_global r) all_resources))"

definition agent_user_pairs :: "(action \<times> resource_type) list" where
  "agent_user_pairs =
     [(Act_Use, RT_Agent), (Act_Read, RT_Prompt), (Act_Read, RT_Review), (Act_Read, RT_Graph),
      (Act_Read, RT_Theme), (Act_Write, RT_Theme), (Act_Delete, RT_Theme)]"

definition reviewer_pairs :: "(action \<times> resource_type) list" where
  "reviewer_pairs =
     [(Act_Write, RT_Review), (Act_Approve, RT_Review), (Act_Trigger, RT_Fleet), (Act_Read, RT_Fleet)]"

definition fleet_admin_pairs :: "(action \<times> resource_type) list" where
  "fleet_admin_pairs =
     [(Act_Write, RT_Fleet), (Act_Delete, RT_Fleet), (Act_Read, RT_ForgeRegistry),
      (Act_Write, RT_ForgeRegistry), (Act_Delete, RT_ForgeRegistry), (Act_Read, RT_TransportRegistry),
      (Act_Write, RT_TransportRegistry), (Act_Delete, RT_TransportRegistry), (Act_Read, RT_Registry),
      (Act_Read, RT_Telemetry)]"

definition builtin_entries :: "(rstr \<times> role_def) list" where
  "builtin_entries =
     [(role_operator, role_admin True),
      (role_org_admin, role_admin False),
      (role_viewer, viewer_def),
      (role_reader, viewer_def),
      (role_review_viewer, role_pairs False [(Act_Read, RT_Review), (Act_Read, RT_Theme)]),
      (role_agent_user, role_pairs False agent_user_pairs),
      (role_reviewer, role_pairs False (agent_user_pairs @ reviewer_pairs)),
      (role_fleet_admin, role_pairs False (agent_user_pairs @ reviewer_pairs @ fleet_admin_pairs)),
      (role_access_admin, role_pairs False
         [(Act_Read, RT_Role), (Act_Write, RT_Role), (Act_Delete, RT_Role), (Act_Read, RT_Binding),
          (Act_Write, RT_Binding), (Act_Delete, RT_Binding), (Act_Read, RT_Theme)]),
      (role_svc_fleet, role_pairs False
         [(Act_Use, RT_Agent), (Act_Read, RT_Review), (Act_Write, RT_Review), (Act_Trigger, RT_Fleet),
          (Act_Read, RT_Fleet), (Act_Read, RT_Registry), (Act_Read, RT_Prompt)]),
      (role_svc_seam, role_pairs False
         [(Act_Read, RT_Prompt), (Act_Read, RT_Graph), (Act_Read, RT_Registry), (Act_Read, RT_Scheduler)])]"

definition builtin_catalog :: catalog where
  "builtin_catalog = map_of builtin_entries"

definition is_builtin :: "rstr \<Rightarrow> bool" where
  "is_builtin name \<longleftrightarrow> name \<in> set builtin_roles"

definition catalog_insert :: "rstr \<Rightarrow> role_def \<Rightarrow> catalog \<Rightarrow> catalog" where
  "catalog_insert name d cat = cat(name \<mapsto> d)"

definition catalog_remove :: "rstr \<Rightarrow> catalog \<Rightarrow> bool \<times> catalog" where
  "catalog_remove name cat = (cat name \<noteq> None, cat(name := None))"

section \<open>The decision\<close>

record verified_principal =
  vp_tenant :: rstr
  vp_subject :: rstr
  vp_roles :: "rstr list"

fun authorize_scan :: "catalog \<Rightarrow> rstr list \<Rightarrow> rstr \<Rightarrow> action \<Rightarrow> resource \<Rightarrow> access_decision" where
  "authorize_scan cat [] tenant a r = Deny ''access denied''"
| "authorize_scan cat (n # ns) tenant a r =
     (case cat n of
        None \<Rightarrow> authorize_scan cat ns tenant a r
      | Some d \<Rightarrow>
          if \<not> grants d a (res_type r) then authorize_scan cat ns tenant a r
          else if is_operator_global (res_type r) \<and> \<not> crosses_tenants d
          then authorize_scan cat ns tenant a r
          else if crosses_tenants d \<or> tenant = res_tenant r then Allow
          else authorize_scan cat ns tenant a r)"

definition authorize :: "catalog \<Rightarrow> verified_principal \<Rightarrow> action \<Rightarrow> resource \<Rightarrow> access_decision" where
  "authorize cat p a r = authorize_scan cat (vp_roles p) (vp_tenant p) a r"

definition effective_permissions :: "catalog \<Rightarrow> verified_principal \<Rightarrow> (action \<times> resource_type) list" where
  "effective_permissions cat p =
     filter (\<lambda>(a, r). is_allowed (authorize cat p a \<lparr>res_type = r, res_tenant = vp_tenant p\<rparr>))
       (List.product all_actions all_resources)"

section \<open>Role cards\<close>

datatype role_permissions =
    RP_All | RP_ActionsOnAll "action list" | RP_Pairs "(action \<times> resource_type) list"

record role_card =
  rc_id :: rstr
  rc_crosses :: bool
  rc_permissions :: role_permissions

definition role_card_validate :: "role_card \<Rightarrow> rstr + unit" where
  "role_card_validate c =
     (if rc_id c = [] \<or> \<not> safe_segment (rc_id c)
      then Inl (''role card id `'' @ rc_id c @ ''` is not a path-safe segment'')
      else if is_builtin (rc_id c)
      then Inl (''role card id `'' @ rc_id c @ ''` reuses a reserved built-in role'')
      else Inr ())"

definition card_def :: "role_card \<Rightarrow> role_def" where
  "card_def c = (case rc_permissions c of
       RP_All \<Rightarrow> role_admin (rc_crosses c)
     | RP_ActionsOnAll acts \<Rightarrow> role_actions_on_all (rc_crosses c) acts
     | RP_Pairs ps \<Rightarrow> role_pairs (rc_crosses c)
         (ps @ (if (Act_Approve, RT_Fleet) \<in> set ps then [(Act_Approve, RT_Review)] else [])))"

definition load_catalog :: "role_card list \<Rightarrow> catalog" where
  "load_catalog cards = fold (\<lambda>c. catalog_insert (rc_id c) (card_def c)) cards builtin_catalog"

section \<open>Managing permissions\<close>

datatype grant_refusal = GR_UnknownRole | GR_HostGlobal | GR_Escalation | GR_SelfBinding | GR_LastAdmin

fun grant_refusal_str :: "grant_refusal \<Rightarrow> rstr" where
  "grant_refusal_str GR_UnknownRole = ''unknown_role''"
| "grant_refusal_str GR_HostGlobal = ''host_global''"
| "grant_refusal_str GR_Escalation = ''escalation''"
| "grant_refusal_str GR_SelfBinding = ''self_binding''"
| "grant_refusal_str GR_LastAdmin = ''last_admin''"

definition is_operator :: "verified_principal \<Rightarrow> bool" where
  "is_operator p \<longleftrightarrow> list_ex (\<lambda>r. r = role_operator) (vp_roles p)"

definition any_crosses_tenants :: "catalog \<Rightarrow> rstr list \<Rightarrow> bool" where
  "any_crosses_tenants cat roles = list_ex crosses_tenants (List.map_filter cat roles)"

definition is_host_global :: "catalog \<Rightarrow> verified_principal \<Rightarrow> bool" where
  "is_host_global cat p = any_crosses_tenants cat (vp_roles p)"

definition exceeding_permissions :: "catalog \<Rightarrow> verified_principal \<Rightarrow> (action \<times> resource_type) list \<Rightarrow>
    rstr \<Rightarrow> (action \<times> resource_type) list" where
  "exceeding_permissions cat granter granted tenant =
     filter (\<lambda>(a, r). \<not> is_allowed (authorize cat granter a \<lparr>res_type = r, res_tenant = tenant\<rparr>)) granted"

definition permissions_of :: "catalog \<Rightarrow> rstr list \<Rightarrow> rstr \<Rightarrow> (action \<times> resource_type) list" where
  "permissions_of cat roles tenant =
     effective_permissions cat \<lparr>vp_tenant = tenant, vp_subject = [], vp_roles = roles\<rparr>"

definition check_role_write :: "catalog \<Rightarrow> verified_principal \<Rightarrow> role_card option \<Rightarrow> grant_refusal + unit" where
  "check_role_write cat p put =
     (if is_operator p then Inr ()
      else if \<not> is_host_global cat p then Inl GR_HostGlobal
      else (case put of
          None \<Rightarrow> Inr ()
        | Some c \<Rightarrow>
            let alone = catalog_insert (rc_id c) (card_def c) (\<lambda>_. None);
                granted = permissions_of alone [rc_id c] (vp_tenant p)
            in if exceeding_permissions cat p granted (vp_tenant p) = [] then Inr () else Inl GR_Escalation))"


section \<open>What is allowed\<close>

lemma authorize_scan_Allow:
  "authorize_scan cat ns tn a r = Allow \<longleftrightarrow>
    (\<exists>n \<in> set ns. \<exists>d. cat n = Some d \<and> grants d a (res_type r)
       \<and> (crosses_tenants d \<or> tn = res_tenant r \<and> \<not> is_operator_global (res_type r)))"
  by (induction cat ns tn a r rule: authorize_scan.induct) (auto split: option.splits)

lemma authorize_Allow:
  "authorize cat p a r = Allow \<longleftrightarrow>
    (\<exists>n \<in> set (vp_roles p). \<exists>d. cat n = Some d \<and> grants d a (res_type r)
       \<and> (crosses_tenants d \<or> vp_tenant p = res_tenant r \<and> \<not> is_operator_global (res_type r)))"
  by (simp add: authorize_def authorize_scan_Allow)

lemma is_allowed_iff [simp]: "is_allowed d \<longleftrightarrow> d = Allow"
  by (cases d) simp_all

lemma all_actions_UNIV [simp]: "set all_actions = UNIV"
proof -
  have "a \<in> set all_actions" for a by (cases a) (simp_all add: all_actions_def)
  then show ?thesis by blast
qed

lemma all_resources_UNIV [simp]: "set all_resources = UNIV"
proof -
  have "r \<in> set all_resources" for r by (cases r) (simp_all add: all_resources_def)
  then show ?thesis by blast
qed

lemma effective_iff:
  "(a, r) \<in> set (effective_permissions cat p) \<longleftrightarrow>
    authorize cat p a \<lparr>res_type = r, res_tenant = vp_tenant p\<rparr> = Allow"
  by (simp add: effective_permissions_def)

lemma permissions_of_iff:
  "(a, r) \<in> set (permissions_of cat roles tn) \<longleftrightarrow>
    (\<exists>n \<in> set roles. \<exists>d. cat n = Some d \<and> grants d a r \<and> (crosses_tenants d \<or> \<not> is_operator_global r))"
  by (simp add: permissions_of_def effective_iff authorize_Allow)

lemma exceeding_Nil:
  "exceeding_permissions cat g ps tn = [] \<longleftrightarrow>
    (\<forall>(a, r) \<in> set ps. authorize cat g a \<lparr>res_type = r, res_tenant = tn\<rparr> = Allow)"
  by (auto simp: exceeding_permissions_def filter_empty_conv)

lemma any_crosses_iff:
  "any_crosses_tenants cat roles \<longleftrightarrow> (\<exists>n \<in> set roles. \<exists>d. cat n = Some d \<and> crosses_tenants d)"
  by (force simp: any_crosses_tenants_def list_ex_iff map_filter_def)

lemma is_operator_iff: "is_operator p \<longleftrightarrow> role_operator \<in> set (vp_roles p)"
  by (auto simp: is_operator_def list_ex_iff)

section \<open>The live catalog\<close>

lemma load_catalog_eq:
  "load_catalog cards = builtin_catalog ++ map_of (rev (map (\<lambda>c. (rc_id c, card_def c)) cards))"
proof -
  have "fold (\<lambda>c. catalog_insert (rc_id c) (card_def c)) cards cat
      = cat ++ map_of (rev (map (\<lambda>c. (rc_id c, card_def c)) cards))" for cat
    by (induction cards arbitrary: cat) (auto simp: catalog_insert_def map_add_def fun_eq_iff split: option.splits)
  then show ?thesis by (simp add: load_catalog_def)
qed

lemma card_def_crosses [simp]: "crosses_tenants (card_def c) = rc_crosses c"
  by (simp add: card_def_def role_admin_def role_actions_on_all_def role_pairs_def split: role_permissions.split)

lemma valid_card_id: "role_card_validate c = Inr () \<Longrightarrow> \<not> is_builtin (rc_id c)"
  by (simp add: role_card_validate_def split: if_splits)

lemma load_catalog_Some:
  assumes "load_catalog cards n = Some d"
  shows "builtin_catalog n = Some d \<or> (\<exists>c \<in> set cards. rc_id c = n \<and> d = card_def c)"
  using assms by (auto simp: load_catalog_eq map_add_Some_iff dest!: map_of_SomeD)

lemma builtin_entry: "builtin_catalog n = Some d \<Longrightarrow> (n, d) \<in> set builtin_entries"
  by (simp add: builtin_catalog_def map_of_SomeD)

lemma builtin_catalog_keys: "builtin_catalog n = Some d \<Longrightarrow> is_builtin n"
  by (drule builtin_entry) (auto simp: is_builtin_def builtin_roles_def builtin_entries_def)

lemma builtin_crosses: "builtin_catalog n = Some d \<Longrightarrow> crosses_tenants d \<Longrightarrow> n = role_operator"
  by (drule builtin_entry) (auto simp: builtin_entries_def role_pairs_def viewer_def_def role_admin_def)

text \<open>
  Reserved roles cannot be redefined. Whatever validated cards the store holds, in
  whatever order, the live catalog gives every built-in name its built-in definition, and every
  other name is the last card of that id.
\<close>

theorem builtins_never_shadowed:
  assumes "\<forall>c \<in> set cards. role_card_validate c = Inr ()"
  shows "load_catalog cards n =
    (if is_builtin n then builtin_catalog n
     else map_option card_def (find (\<lambda>c. rc_id c = n) (rev cards)))"
proof -
  have f: "map_of (map (\<lambda>c. (rc_id c, card_def c)) cs) n = map_option card_def (find (\<lambda>c. rc_id c = n) cs)"
    for cs by (induction cs) auto
  show ?thesis
  proof (cases "is_builtin n")
    case True
    then have "find (\<lambda>c. rc_id c = n) (rev cards) = None"
      using assms valid_card_id by (auto simp: find_None_iff)
    then show ?thesis using True by (simp add: load_catalog_eq map_add_def f rev_map)
  next
    case False
    then have "builtin_catalog n = None" using builtin_catalog_keys[of n] by fastforce
    then show ?thesis
      using False by (simp add: load_catalog_eq map_add_def f rev_map split: option.split)
  qed
qed

text \<open>
  Property C20: the tenant firewall. With any validated cards loaded, a principal that holds
  neither \<open>operator\<close> nor a host-global card is never allowed anything outside its own tenant and
  never anything on the operator-global \<open>config\<close> surface.
\<close>

theorem tenant_firewall:
  assumes "\<forall>c \<in> set cards. role_card_validate c = Inr () \<and> (rc_crosses c \<longrightarrow> rc_id c \<notin> set (vp_roles p))"
    and "role_operator \<notin> set (vp_roles p)"
    and "authorize (load_catalog cards) p a r = Allow"
  shows "res_tenant r = vp_tenant p \<and> \<not> is_operator_global (res_type r)"
proof -
  obtain n d where n: "n \<in> set (vp_roles p)" "load_catalog cards n = Some d"
    and ok: "crosses_tenants d \<or> vp_tenant p = res_tenant r \<and> \<not> is_operator_global (res_type r)"
    using assms(3) by (auto simp: authorize_Allow)
  have "\<not> crosses_tenants d"
    using load_catalog_Some[OF n(2)] n(1) assms(1,2) builtin_crosses by auto
  then show ?thesis using ok by simp
qed

text \<open>
  Running code for others and watching their sessions are reserved: of the built-in
  roles only \<open>operator\<close> and \<open>org_admin\<close> grant use of exec or observing the agent, and the
  documented size of each role's matrix in its own tenant is right.
\<close>

theorem builtin_role_matrix:
  "list_all (\<lambda>n. case builtin_catalog n of None \<Rightarrow> False | Some d \<Rightarrow>
      (grants d Act_Use RT_Exec \<or> grants d Act_Observe RT_Agent) = (n = role_operator \<or> n = role_org_admin))
    builtin_roles
   \<and> map (\<lambda>n. length (permissions_of builtin_catalog [n] ''acme''))
       [role_operator, role_org_admin, role_viewer, role_reader] = [8 * 15, 8 * 14, 14, 14]"
  by code_simp

section \<open>Writing role cards\<close>



section \<open>Witnesses\<close>

definition demo_card :: "rstr \<Rightarrow> bool \<Rightarrow> (action \<times> resource_type) list \<Rightarrow> role_card" where
  "demo_card i crosses ps = \<lparr>rc_id = i, rc_crosses = crosses, rc_permissions = RP_Pairs ps\<rparr>"

definition demo_cards :: "role_card list" where
  "demo_cards = [demo_card ''auditor'' True [(Act_Read, RT_Registry)],
     demo_card ''dev'' False [(Act_Write, RT_Prompt)]]"

definition demo_principal :: "rstr list \<Rightarrow> verified_principal" where
  "demo_principal rs = \<lparr>vp_tenant = ''acme'', vp_subject = ''user:g/ann'', vp_roles = rs\<rparr>"

lemma demo_cards_valid: "\<forall>c \<in> set demo_cards. role_card_validate c = Inr ()"
  by code_simp

theorem builtins_never_shadowed_witness:
  "load_catalog demo_cards ''operator'' = Some (role_admin True)
   \<and> load_catalog demo_cards ''dev'' = Some (role_pairs False [(Act_Write, RT_Prompt)])"
  unfolding builtins_never_shadowed[OF demo_cards_valid] by code_simp

theorem tenant_firewall_witness:
  "authorize (load_catalog demo_cards) (demo_principal [''dev'']) Act_Write
     \<lparr>res_type = RT_Prompt, res_tenant = ''acme''\<rparr> = Allow
   \<and> authorize (load_catalog demo_cards) (demo_principal [''dev'']) Act_Write
     \<lparr>res_type = RT_Prompt, res_tenant = ''evil''\<rparr> \<noteq> Allow"
proof
  show "authorize (load_catalog demo_cards) (demo_principal [''dev'']) Act_Write
     \<lparr>res_type = RT_Prompt, res_tenant = ''acme''\<rparr> = Allow" by code_simp
  have "\<forall>c \<in> set demo_cards. role_card_validate c = Inr ()
      \<and> (rc_crosses c \<longrightarrow> rc_id c \<notin> set (vp_roles (demo_principal [''dev''])))" by code_simp
  moreover have "role_operator \<notin> set (vp_roles (demo_principal [''dev'']))" by code_simp
  ultimately show "authorize (load_catalog demo_cards) (demo_principal [''dev'']) Act_Write
     \<lparr>res_type = RT_Prompt, res_tenant = ''evil''\<rparr> \<noteq> Allow"
    using tenant_firewall[of demo_cards "demo_principal [''dev'']" Act_Write
        "\<lparr>res_type = RT_Prompt, res_tenant = ''evil''\<rparr>"]
    by (auto simp: demo_principal_def)
qed


text \<open>The comparison is made in the caller's own tenant only: a host-global caller that also holds
  tenant-scoped rights at home may write a host-global card that spreads those rights to every
  tenant, where it does not hold them itself.\<close>

lemma role_write_spreads:
  "let cat = load_catalog demo_cards;
       p = demo_principal [''auditor'', ''org_admin''];
       c = demo_card ''spread'' True [(Act_Write, RT_Registry)];
       r = \<lparr>res_type = RT_Registry, res_tenant = ''evil''\<rparr>
   in check_role_write cat p (Some c) = Inr ()
      \<and> authorize cat p Act_Write r \<noteq> Allow
      \<and> authorize (catalog_insert (rc_id c) (card_def c) cat) (demo_principal [''spread'']) Act_Write r = Allow"
  by code_simp

end
