(* ===== verification/Bindings.thy ===== *)
theory Bindings
  imports Rbac
begin

text \<open>
  Role bindings, \<open>crates/agent-grpc/src/server/auth/binding.rs\<close> and the two handlers of
  \<open>auth/service.rs\<close> that write them: what a binding names, how the roles of a token are resolved,
  and the permission-management rules. The bindings of a tenant are the list the config store
  returns; the store itself, the revocation of sessions and the audit records are not modelled.
\<close>

section \<open>Subjects\<close>

definition max_roles_per_binding :: nat where "max_roles_per_binding = 32"
definition max_subject_bytes :: nat where "max_subject_bytes = 320"
definition max_granted_by_bytes :: nat where "max_granted_by_bytes = 512"
definition max_operator_subjects :: nat where "max_operator_subjects = 64"

datatype subject_kind = SK_Sub | SK_Email | SK_Domain | SK_MtlsSan

fun subject_kind_str :: "subject_kind \<Rightarrow> rstr" where
  "subject_kind_str SK_Sub = ''sub''"
| "subject_kind_str SK_Email = ''email''"
| "subject_kind_str SK_Domain = ''domain''"
| "subject_kind_str SK_MtlsSan = ''mtls_san''"

definition subject_kind_parse :: "rstr \<Rightarrow> subject_kind option" where
  "subject_kind_parse s =
     find (\<lambda>k. subject_kind_str k = s) [SK_Sub, SK_Email, SK_Domain, SK_MtlsSan]"

record who =
  wh_tenant :: rstr
  wh_subject :: rstr
  wh_email :: "rstr option"
  wh_verified :: bool
  wh_san :: "rstr option"

definition verified_email :: "who \<Rightarrow> rstr option" where
  "verified_email w = (if wh_verified w then wh_email w else None)"

record role_binding =
  rb_id :: rstr
  rb_tenant :: rstr
  rb_kind :: subject_kind
  rb_subject :: rstr
  rb_roles :: "rstr list"
  rb_granted_by :: rstr
  rb_granted_at :: nat
  rb_expires_at :: nat

definition binding_active :: "nat \<Rightarrow> role_binding \<Rightarrow> bool" where
  "binding_active now b \<longleftrightarrow> rb_expires_at b = 0 \<or> now < rb_expires_at b"

definition login_subject :: "who \<Rightarrow> rstr option" where
  "login_subject w = strip_prefix ''user:'' (wh_subject w)"

definition binding_names :: "role_binding \<Rightarrow> who \<Rightarrow> bool" where
  "binding_names b w = (case rb_kind b of
       SK_Sub \<Rightarrow> login_subject w = Some (rb_subject b)
     | SK_Email \<Rightarrow> verified_email w = Some (rb_subject b)
     | SK_Domain \<Rightarrow> (case verified_email w of None \<Rightarrow> False
         | Some e \<Rightarrow> (case rsplit_once CHR ''@'' e of None \<Rightarrow> False | Some (_, d) \<Rightarrow> d = rb_subject b))
     | SK_MtlsSan \<Rightarrow> wh_san w = Some (rb_subject b))"

definition binding_applies :: "role_binding \<Rightarrow> who \<Rightarrow> nat \<Rightarrow> bool" where
  "binding_applies b w now \<longleftrightarrow> rb_tenant b = wh_tenant w \<and> binding_active now b \<and> binding_names b w"

definition printable :: "rstr \<Rightarrow> bool" where
  "printable s \<longleftrightarrow> s \<noteq> [] \<and> \<not> list_ex (\<lambda>c. is_control c \<or> is_whitespace c) (chars s)"

definition ends_with_char :: "rstr \<Rightarrow> char \<Rightarrow> bool" where
  "ends_with_char s c \<longleftrightarrow> s \<noteq> [] \<and> last s = c"

definition valid_domain :: "rstr \<Rightarrow> bool" where
  "valid_domain d \<longleftrightarrow> CHR ''.'' \<in> set d
     \<and> \<not> (starts_with ''.'' d \<or> starts_with ''-'' d)
     \<and> \<not> (ends_with_char d CHR ''.'' \<or> ends_with_char d CHR ''-'')
     \<and> \<not> contains ''..'' d
     \<and> list_all (\<lambda>b. is_ascii_lower b \<or> is_ascii_digit b \<or> b = CHR ''.'' \<or> b = CHR ''-'') d"

definition valid_email :: "rstr \<Rightarrow> bool" where
  "valid_email e = (case split_once CHR ''@'' e of
       Some (local, domain) \<Rightarrow> printable local \<and> CHR ''@'' \<notin> set domain \<and> valid_domain domain
     | None \<Rightarrow> False)"

definition max_uri_bytes :: nat where "max_uri_bytes = 2048"
definition san_scheme :: rstr where "san_scheme = ''spiffe://''"

definition is_ascii_graphic :: "char \<Rightarrow> bool" where
  "is_ascii_graphic b \<longleftrightarrow> CHR ''!'' \<le> b \<and> b \<le> CHR ''~''"

definition valid_san :: "rstr \<Rightarrow> bool" where
  "valid_san san \<longleftrightarrow> length san \<le> max_uri_bytes \<and> length san > length san_scheme
     \<and> starts_with san_scheme san \<and> list_all is_ascii_graphic san"

definition valid_subject :: "subject_kind \<Rightarrow> rstr \<Rightarrow> bool" where
  "valid_subject k subject =
     (if length subject > max_subject_bytes \<or> \<not> printable subject then False
      else (case k of
          SK_Sub \<Rightarrow> (case split_once CHR ''/'' subject of
              Some (issuer, sub) \<Rightarrow> safe_segment issuer \<and> sub \<noteq> [] | None \<Rightarrow> False)
        | SK_Email \<Rightarrow> valid_email subject
        | SK_Domain \<Rightarrow> valid_domain subject
        | SK_MtlsSan \<Rightarrow> valid_san subject))"

section \<open>The card\<close>

text \<open>\<open>sort\<close> then \<open>dedup\<close> on strings, compared byte by byte.\<close>

definition sort_dedup :: "rstr list \<Rightarrow> rstr list" where
  "sort_dedup rs = remdups_adj (sort rs)"

text \<open>The longest prefix of at most \<open>n\<close> bytes that ends on a character boundary.\<close>

fun char_prefix :: "nat \<Rightarrow> rstr list \<Rightarrow> rstr" where
  "char_prefix n [] = []"
| "char_prefix n (c # cs) = (if length c \<le> n then c @ char_prefix (n - length c) cs else [])"

definition binding_sanitize :: "role_binding \<Rightarrow> role_binding" where
  "binding_sanitize b =
     (let subject = str_trim (rb_subject b);
          subject = (if rb_kind b = SK_Email \<or> rb_kind b = SK_Domain then ascii_lowercase subject else subject)
      in b\<lparr>rb_subject := subject, rb_roles := sort_dedup (map str_trim (rb_roles b)),
           rb_granted_by := char_prefix max_granted_by_bytes (str_chars (rb_granted_by b))\<rparr>)"

definition binding_validate :: "role_binding \<Rightarrow> rstr + unit" where
  "binding_validate b =
     (if \<not> safe_segment (rb_id b) \<or> \<not> safe_segment (rb_tenant b) then Inl ''invalid role binding: id''
      else if \<not> valid_subject (rb_kind b) (rb_subject b) then Inl ''invalid role binding: subject''
      else if rb_roles b = [] \<or> length (rb_roles b) > max_roles_per_binding
        \<or> \<not> list_all safe_segment (rb_roles b) then Inl ''invalid role binding: roles''
      else Inr ())"

section \<open>Bootstrap operators\<close>

record operator_subjects =
  os_emails :: "rstr list"
  os_subs :: "rstr list"

definition parse_operator_entry :: "operator_subjects \<Rightarrow> rstr \<Rightarrow> operator_subjects option" where
  "parse_operator_entry out entry =
     (case split_once CHR '':'' entry of
        Some (kind, v) \<Rightarrow>
          if kind = ''email''
          then let e = ascii_lowercase (str_trim v)
               in if valid_subject SK_Email e then Some (out\<lparr>os_emails := os_emails out @ [e]\<rparr>) else None
          else if kind = ''sub''
          then let s = str_trim v
               in if valid_subject SK_Sub s then Some (out\<lparr>os_subs := os_subs out @ [s]\<rparr>) else None
          else None
      | None \<Rightarrow> None)"

fun parse_operator_entries :: "operator_subjects \<Rightarrow> rstr list \<Rightarrow> rstr + operator_subjects" where
  "parse_operator_entries out [] = Inr out"
| "parse_operator_entries out (r # rs) =
     (let entry = str_trim r
      in case parse_operator_entry out entry of
           Some out' \<Rightarrow> parse_operator_entries out' rs
         | None \<Rightarrow> Inl (''`[auth] operator_subjects` entry `'' @ entry
             @ ''` is not `email:<address>` or `sub:<issuer>/<sub>`''))"

definition operator_subjects_parse :: "rstr list \<Rightarrow> rstr + operator_subjects" where
  "operator_subjects_parse entries =
     (if length entries > max_operator_subjects
      then Inl (''`[auth] operator_subjects` has more than '' @ show_nat max_operator_subjects @ '' entries'')
      else parse_operator_entries \<lparr>os_emails = [], os_subs = []\<rparr> entries)"

definition operators_contain :: "operator_subjects \<Rightarrow> who \<Rightarrow> bool" where
  "operators_contain o' w \<longleftrightarrow>
     (case verified_email w of Some e \<Rightarrow> e \<in> set (os_emails o') | None \<Rightarrow> False)
     \<or> (case login_subject w of Some s \<Rightarrow> s \<in> set (os_subs o') | None \<Rightarrow> False)"

section \<open>Roles of a token\<close>

definition resolve_roles :: "rstr list \<Rightarrow> role_binding list \<Rightarrow> operator_subjects \<Rightarrow> who \<Rightarrow> nat \<Rightarrow> rstr list" where
  "resolve_roles claim_roles bindings operators w now =
     (let roles = claim_roles @ concat (map rb_roles (filter (\<lambda>b. binding_applies b w now) bindings));
          roles = (if operators_contain operators w then roles @ [role_operator] else roles)
      in sort_dedup roles)"

section \<open>Writing bindings\<close>

definition manages_bindings :: "catalog \<Rightarrow> rstr list \<Rightarrow> rstr \<Rightarrow> bool" where
  "manages_bindings cat roles tenant =
     is_allowed (authorize cat \<lparr>vp_tenant = tenant, vp_subject = [], vp_roles = roles\<rparr> Act_Write
       \<lparr>res_type = RT_Binding, res_tenant = tenant\<rparr>)"

definition any_admin :: "catalog \<Rightarrow> rstr \<Rightarrow> nat \<Rightarrow> role_binding list \<Rightarrow> bool" where
  "any_admin cat tenant now bs =
     list_ex (\<lambda>b. binding_active now b \<and> manages_bindings cat (rb_roles b) tenant) bs"

definition removes_last_admin :: "catalog \<Rightarrow> role_binding list \<Rightarrow> role_binding list \<Rightarrow> rstr \<Rightarrow> nat \<Rightarrow> bool" where
  "removes_last_admin cat before after tenant now \<longleftrightarrow>
     any_admin cat tenant now before \<and> \<not> any_admin cat tenant now after"

record granter =
  gr_principal :: verified_principal
  gr_email :: "rstr option"

definition check_binding_write :: "catalog \<Rightarrow> granter \<Rightarrow> role_binding \<Rightarrow> bool \<Rightarrow> grant_refusal + unit" where
  "check_binding_write cat g b granting =
     (let p = gr_principal g in
      if list_ex (\<lambda>r. cat r = None) (rb_roles b) \<and> granting then Inl GR_UnknownRole
      else if is_operator p then Inr ()
      else if (any_crosses_tenants cat (rb_roles b) \<or> rb_tenant b \<noteq> vp_tenant p) \<and> \<not> is_host_global cat p
      then Inl GR_HostGlobal
      else if exceeding_permissions cat p (permissions_of cat (rb_roles b) (rb_tenant b)) (rb_tenant b) \<noteq> []
      then Inl GR_Escalation
      else
        (let me = \<lparr>wh_tenant = rb_tenant b, wh_subject = vp_subject p, wh_email = gr_email g,
                   wh_verified = True, wh_san = None\<rparr>
         in if granting \<and> binding_names b me then Inl GR_SelfBinding else Inr ()))"

text \<open>The tail of \<open>put_binding\<close> and \<open>delete_binding\<close>, under the write lock: the checks against the
  tenant's bindings before, and the bindings after. \<open>put_binding\<close> has sanitized and validated
  \<open>new\<close> and set its tenant.\<close>

datatype binding_error = BE_Refused grant_refusal | BE_Invalid rstr

definition lift_refusal :: "grant_refusal + unit \<Rightarrow> binding_error + unit" where
  "lift_refusal r = (case r of Inl e \<Rightarrow> Inl (BE_Refused e) | Inr u \<Rightarrow> Inr u)"

definition put_binding :: "catalog \<Rightarrow> granter \<Rightarrow> rstr \<Rightarrow> nat \<Rightarrow> role_binding \<Rightarrow> role_binding list \<Rightarrow>
    binding_error + role_binding list" where
  "put_binding cat g tenant now wire before =
     (let new = binding_sanitize (wire\<lparr>rb_tenant := tenant, rb_granted_by := vp_subject (gr_principal g),
                  rb_granted_at := now\<rparr>) in
      bindR (case binding_validate new of Inl e \<Rightarrow> Inl (BE_Invalid ''invalid role binding'') | Inr u \<Rightarrow> Inr u) (\<lambda>_.
      if rb_expires_at new \<noteq> 0 \<and> rb_expires_at new \<le> now then Inl (BE_Invalid ''expires_at is in the past'')
      else
        let old = find (\<lambda>b. rb_id b = rb_id new) before in
        bindR (lift_refusal (check_binding_write cat g new True)) (\<lambda>_.
        bindR (case old of Some ob \<Rightarrow> lift_refusal (check_binding_write cat g ob False) | None \<Rightarrow> Inr ()) (\<lambda>_.
        let after = filter (\<lambda>b. rb_id b \<noteq> rb_id new) before @ [new] in
        if removes_last_admin cat before after tenant now then Inl (BE_Refused GR_LastAdmin)
        else Inr after))))"

definition delete_binding :: "catalog \<Rightarrow> granter \<Rightarrow> rstr \<Rightarrow> nat \<Rightarrow> rstr \<Rightarrow> role_binding list \<Rightarrow>
    binding_error + role_binding list" where
  "delete_binding cat g tenant now i before =
     (case find (\<lambda>b. rb_id b = i) before of
        None \<Rightarrow> Inr before
      | Some old \<Rightarrow>
          bindR (lift_refusal (check_binding_write cat g old False)) (\<lambda>_.
          let after = filter (\<lambda>b. rb_id b \<noteq> rb_id old) before in
          if removes_last_admin cat before after tenant now then Inl (BE_Refused GR_LastAdmin)
          else Inr after))"

definition narrows :: "role_binding \<Rightarrow> role_binding \<Rightarrow> bool" where
  "narrows old new \<longleftrightarrow> (rb_kind old, rb_subject old) \<noteq> (rb_kind new, rb_subject new)
     \<or> list_ex (\<lambda>r. r \<notin> set (rb_roles new)) (rb_roles old)
     \<or> (rb_expires_at new \<noteq> 0 \<and> (rb_expires_at old = 0 \<or> rb_expires_at new < rb_expires_at old))"


section \<open>What tokens carry\<close>

lemma set_sort_dedup [simp]: "set (sort_dedup rs) = set rs"
  by (simp add: sort_dedup_def)

lemma distinct_remdups_adj: "sorted xs \<Longrightarrow> distinct (remdups_adj xs)"
  by (induction xs rule: remdups_adj.induct) auto

lemma sort_dedup_sorted: "sorted (sort_dedup rs) \<and> distinct (sort_dedup rs)"
  by (simp add: sort_dedup_def sorted_remdups_adj distinct_remdups_adj)

lemma resolve_roles_set:
  "set (resolve_roles cl bs ops w now) = set cl
    \<union> (\<Union>b \<in> {b \<in> set bs. binding_applies b w now}. set (rb_roles b))
    \<union> (if operators_contain ops w then {role_operator} else {})"
  by (auto simp: resolve_roles_def Let_def)

text \<open>
  A token's roles are exactly those of the login's trusted claim, of the active
  bindings of its own tenant that name the caller, and \<open>operator\<close> for a bootstrap operator, each
  once and in order; an unverified email contributes nothing.
\<close>

theorem resolve_roles_exact:
  "(r \<in> set (resolve_roles cl bs ops w now) \<longleftrightarrow>
      r \<in> set cl \<or> list_ex (\<lambda>b. binding_applies b w now \<and> r \<in> set (rb_roles b)) bs
      \<or> r = role_operator \<and> operators_contain ops w)
   \<and> sorted (resolve_roles cl bs ops w now) \<and> distinct (resolve_roles cl bs ops w now)
   \<and> (wh_verified w
      \<or> resolve_roles cl (filter (\<lambda>b. rb_kind b \<notin> {SK_Email, SK_Domain}) bs) (ops\<lparr>os_emails := []\<rparr>) w now
        = resolve_roles cl bs ops w now)"
proof -
  let ?keep = "\<lambda>b. rb_kind b \<notin> {SK_Email, SK_Domain}"
  have 3: "wh_verified w \<or> resolve_roles cl (filter ?keep bs) (ops\<lparr>os_emails := []\<rparr>) w now
      = resolve_roles cl bs ops w now"
  proof (cases "wh_verified w")
    case False
    then have v: "verified_email w = None" by (simp add: verified_email_def)
    then have "\<not> (rb_kind b = SK_Email \<or> rb_kind b = SK_Domain)" if "binding_applies b w now" for b
      using that by (auto simp: binding_applies_def binding_names_def split: subject_kind.splits)
    then have "filter (\<lambda>b. binding_applies b w now) (filter ?keep bs) = filter (\<lambda>b. binding_applies b w now) bs"
      unfolding filter_filter by (intro filter_cong) auto
    moreover have "operators_contain (ops\<lparr>os_emails := []\<rparr>) w = operators_contain ops w"
      using v by (simp add: operators_contain_def cong: option.case_cong)
    ultimately show ?thesis by (simp only: resolve_roles_def Let_def simp_thms)
  qed simp
  show ?thesis
    using 3 sort_dedup_sorted by (auto simp: resolve_roles_set list_ex_iff resolve_roles_def Let_def)
qed

section \<open>No escalation\<close>

lemma check_binding_ok:
  assumes "check_binding_write cat g b granting = Inr ()" "\<not> is_operator (gr_principal g)"
    and "\<not> is_host_global cat (gr_principal g)"
  shows "rb_tenant b = vp_tenant (gr_principal g) \<and> \<not> any_crosses_tenants cat (rb_roles b)
    \<and> exceeding_permissions cat (gr_principal g) (permissions_of cat (rb_roles b) (rb_tenant b)) (rb_tenant b) = []
    \<and> (granting \<longrightarrow> list_all (\<lambda>r. cat r \<noteq> None) (rb_roles b)
        \<and> \<not> binding_names b \<lparr>wh_tenant = rb_tenant b, wh_subject = vp_subject (gr_principal g),
              wh_email = gr_email g, wh_verified = True, wh_san = None\<rparr>)"
  using assms by (auto simp: check_binding_write_def Let_def list_ex_iff list_all_iff split: if_splits)

lemma bound_roles_within:
  assumes "check_binding_write cat g b granting = Inr ()" "\<not> is_operator (gr_principal g)"
    and "\<not> is_host_global cat (gr_principal g)"
    and "n \<in> set (rb_roles b)" "cat n = Some d" "grants d a (res_type r)"
    and "crosses_tenants d \<or> rb_tenant b = res_tenant r \<and> \<not> is_operator_global (res_type r)"
  shows "authorize cat (gr_principal g) a r = Allow"
proof -
  note ok = check_binding_ok[OF assms(1-3)]
  then have "\<not> crosses_tenants d" using assms(4,5) by (auto simp: any_crosses_iff)
  then have t: "rb_tenant b = res_tenant r" "\<not> is_operator_global (res_type r)" using assms(7) by simp_all
  have "(a, res_type r) \<in> set (permissions_of cat (rb_roles b) (rb_tenant b))"
    unfolding permissions_of_iff using assms(4-6) t by blast
  then have "authorize cat (gr_principal g) a \<lparr>res_type = res_type r, res_tenant = rb_tenant b\<rparr> = Allow"
    using ok by (auto simp: exceeding_Nil)
  then show ?thesis using t by (cases r) simp
qed

lemma put_binding_Inr:
  assumes "put_binding cat g tenant now wire before = Inr after"
  obtains new where "check_binding_write cat g new True = Inr ()" "rb_tenant new = tenant"
    "after = filter (\<lambda>b. rb_id b \<noteq> rb_id new) before @ [new]"
    "\<not> removes_last_admin cat before after tenant now"
proof -
  let ?new = "binding_sanitize (wire\<lparr>rb_tenant := tenant, rb_granted_by := vp_subject (gr_principal g),
    rb_granted_at := now\<rparr>)"
  have "rb_tenant ?new = tenant" by (simp add: binding_sanitize_def Let_def)
  then show ?thesis
    using assms that[of ?new]
    by (auto simp: put_binding_def Let_def bindR_Inr lift_refusal_def split: if_splits sum.splits option.splits)
qed



text \<open>A binding of an mTLS peer is never recognized as the granter's own.\<close>

lemma mtls_binding_never_self:
  "rb_kind b = SK_MtlsSan \<Longrightarrow> check_binding_write cat g b granting \<noteq> Inl GR_SelfBinding"
  by (simp add: check_binding_write_def Let_def binding_names_def)

section \<open>Witnesses\<close>

definition demo_granter :: granter where
  "demo_granter = \<lparr>gr_principal = demo_principal [''org_admin''], gr_email = None\<rparr>"

definition demo_binding :: "rstr \<Rightarrow> rstr \<Rightarrow> rstr list \<Rightarrow> role_binding" where
  "demo_binding i who roles = \<lparr>rb_id = i, rb_tenant = ''acme'', rb_kind = SK_Sub, rb_subject = who,
     rb_roles = roles, rb_granted_by = [], rb_granted_at = 0, rb_expires_at = 0\<rparr>"

definition demo_before :: "role_binding list" where
  "demo_before = [demo_binding ''b1'' ''g/ann'' [''org_admin'']]"

definition demo_after :: "role_binding list" where
  "demo_after = demo_before @ [(demo_binding ''b2'' ''g/bob'' [''reviewer''])
     \<lparr>rb_granted_by := ''user:g/ann'', rb_granted_at := 5\<rparr>]"

definition demo_bob :: who where
  "demo_bob = \<lparr>wh_tenant = ''acme'', wh_subject = ''user:g/bob'', wh_email = None, wh_verified = False,
     wh_san = None\<rparr>"

lemma demo_put:
  "put_binding builtin_catalog demo_granter ''acme'' 5 (demo_binding ''b2'' ''g/bob'' [''reviewer'']) demo_before
    = Inr demo_after"
  by code_simp



end
