(* ===== verification/Retry.thy ===== *)
theory Retry
  imports Prelude
begin

text \<open>
  The retry schedule of \<open>crates/agent-retry/src/lib.rs\<close> and the reading of HTTP hints in
  \<open>http.rs\<close>. Durations and points in time are nanoseconds. The driver runs an operation given
  as the sequence of its outcomes and reports the waits it made. The jitter computation in
  \<open>f64\<close> is the parameter \<open>jitter\<close>, the third-party \<open>httpdate\<close> parser the parameter \<open>http_date\<close>.
\<close>

section \<open>Durations\<close>

definition from_secs :: "nat \<Rightarrow> nat" where "from_secs n = n * 1000000000"
definition from_millis :: "nat \<Rightarrow> nat" where "from_millis n = n * 1000000"
definition as_millis :: "nat \<Rightarrow> nat" where "as_millis d = d div 1000000"

section \<open>The schedule\<close>

datatype jitter = Jit_None | Jit_Full | Jit_Equal

record retry_policy =
  max_retries :: nat
  base_delay :: nat
  max_delay :: nat
  rp_jitter :: jitter

definition default_base :: nat where "default_base = from_millis 500"
definition default_max :: nat where "default_max = from_secs 20"

definition retry_policy_new :: "nat \<Rightarrow> retry_policy" where
  "retry_policy_new n = \<lparr>max_retries = n, base_delay = default_base, max_delay = default_max, rp_jitter = Jit_Full\<rparr>"

definition shl_factor :: "nat \<Rightarrow> nat" where
  "shl_factor attempt = (if attempt < 64 then 2 ^ attempt else u64_max)"

definition ceiling :: "retry_policy \<Rightarrow> nat \<Rightarrow> nat" where
  "ceiling p attempt =
     min (from_millis (sat_mul64 (as_millis (base_delay p) mod 2 ^ 64) (shl_factor attempt))) (max_delay p)"

text \<open>The milliseconds \<open>jit\<close> makes of the ceiling, truncated to \<open>u64\<close>, are the parameter.\<close>

definition delay :: "(jitter \<Rightarrow> nat \<Rightarrow> nat) \<Rightarrow> retry_policy \<Rightarrow> nat \<Rightarrow> nat" where
  "delay jit p attempt = from_millis (jit (rp_jitter p) (as_millis (ceiling p attempt)))"

definition clamp_hint :: "retry_policy \<Rightarrow> nat \<Rightarrow> nat" where
  "clamp_hint p hint = min hint (max_delay p)"

definition backoff_wait :: "(jitter \<Rightarrow> nat \<Rightarrow> nat) \<Rightarrow> retry_policy \<Rightarrow> nat \<Rightarrow> nat option \<Rightarrow> nat" where
  "backoff_wait jit p attempt after = (case after of Some hint \<Rightarrow> clamp_hint p hint | None \<Rightarrow> delay jit p attempt)"

section \<open>The driver\<close>

datatype ('t, 'e) attempt = At_Done 't | At_Retry 'e "nat option" | At_Fail 'e

text \<open>\<open>op n\<close> is the outcome of the \<open>n\<close>-th call. The result comes with the waits made.\<close>

function run_from :: "(jitter \<Rightarrow> nat \<Rightarrow> nat) \<Rightarrow> retry_policy \<Rightarrow> (nat \<Rightarrow> ('t, 'e) attempt) \<Rightarrow> nat \<Rightarrow>
    ('e + 't) \<times> nat list" where
  "run_from jit p op attempt =
     (case op attempt of
        At_Done v \<Rightarrow> (Inr v, [])
      | At_Fail e \<Rightarrow> (Inl e, [])
      | At_Retry err after \<Rightarrow>
          if attempt \<ge> max_retries p then (Inl err, [])
          else (let (r, ws) = run_from jit p op (attempt + 1)
                in (r, backoff_wait jit p attempt after # ws)))"
  by pat_completeness auto
termination
  by (relation "measure (\<lambda>(_, p, _, attempt). max_retries p - attempt)") auto

declare run_from.simps [simp del]

definition retry_run :: "(jitter \<Rightarrow> nat \<Rightarrow> nat) \<Rightarrow> retry_policy \<Rightarrow> (nat \<Rightarrow> ('t, 'e) attempt) \<Rightarrow>
    ('e + 't) \<times> nat list" where
  "retry_run jit p op = run_from jit p op 0"

text \<open>\<open>retry\<close>: the same driver over a \<open>Result\<close> and a classifier of errors.\<close>

definition classified :: "('e \<Rightarrow> nat option option) \<Rightarrow> 'e + 't \<Rightarrow> ('t, 'e) attempt" where
  "classified classify r = (case r of Inr v \<Rightarrow> At_Done v
     | Inl e \<Rightarrow> (case classify e of None \<Rightarrow> At_Fail e | Some after \<Rightarrow> At_Retry e after))"

definition retry_results :: "(jitter \<Rightarrow> nat \<Rightarrow> nat) \<Rightarrow> retry_policy \<Rightarrow> ('e \<Rightarrow> nat option option) \<Rightarrow>
    (nat \<Rightarrow> 'e + 't) \<Rightarrow> ('e + 't) \<times> nat list" where
  "retry_results jit p classify op = retry_run jit p (\<lambda>n. classified classify (op n))"

section \<open>HTTP hints\<close>

definition retryable_status :: "nat \<Rightarrow> bool" where
  "retryable_status status \<longleftrightarrow> status = 429 \<or> 500 \<le> status \<and> status \<le> 599"

definition parse_retry_after_at :: "(rstr \<Rightarrow> nat option) \<Rightarrow> rstr \<Rightarrow> nat \<Rightarrow> nat option" where
  "parse_retry_after_at http_date value now =
     (let value = str_trim value in
      case parse_uint u64_max value of
        Some secs \<Rightarrow> Some (from_secs secs)
      | None \<Rightarrow> (case http_date value of None \<Rightarrow> None | Some t \<Rightarrow> Some (t - now)))"

definition parse_reset_at :: "rstr \<Rightarrow> nat \<Rightarrow> nat option" where
  "parse_reset_at value now =
     (case parse_uint u64_max (str_trim value) of
        None \<Rightarrow> None
      | Some secs \<Rightarrow> if int secs \<le> i64_max then Some (from_secs secs - now) else None)"

section \<open>Properties\<close>

lemma shl_factor_mono: "a \<le> b \<Longrightarrow> shl_factor a \<le> shl_factor b"
proof -
  assume ab: "a \<le> b"
  have "(2::nat) ^ a \<le> 2 ^ 63" if "a < 64" using that by (intro power_increasing) auto
  then have "2 ^ a \<le> u64_max" if "a < 64" using that unfolding u64_max_def by (auto intro: order_trans)
  then show ?thesis using ab by (auto simp: shl_factor_def)
qed

lemma ceiling_mono: "a \<le> b \<Longrightarrow> ceiling p a \<le> ceiling p b"
  unfolding ceiling_def from_millis_def sat_mul64_def
  using shl_factor_mono[of a b] by (intro min.mono mult_right_mono mult_left_mono) auto

lemma from_as_millis: "from_millis (as_millis d) \<le> d"
  by (simp add: from_millis_def as_millis_def)

lemma delay_le:
  assumes "\<And>j c. jit j c \<le> c"
  shows "delay jit p attempt \<le> max_delay p"
proof -
  have "delay jit p attempt \<le> from_millis (as_millis (ceiling p attempt))"
    using assms by (simp add: delay_def from_millis_def)
  also have "\<dots> \<le> ceiling p attempt" by (rule from_as_millis)
  also have "\<dots> \<le> max_delay p" by (simp add: ceiling_def)
  finally show ?thesis .
qed

lemma backoff_wait_le: "(\<And>j c. jit j c \<le> c) \<Longrightarrow> backoff_wait jit p attempt after \<le> max_delay p"
  by (simp add: backoff_wait_def clamp_hint_def delay_le split: option.split)

text \<open>The driver stops at the first outcome that is not a retry, or at the last allowed attempt.\<close>

definition settles :: "('t, 'e) attempt \<Rightarrow> bool" where
  "settles a = (case a of At_Retry _ _ \<Rightarrow> False | _ \<Rightarrow> True)"

fun result_of :: "('t, 'e) attempt \<Rightarrow> 'e + 't" where
  "result_of (At_Done v) = Inr v"
| "result_of (At_Fail e) = Inl e"
| "result_of (At_Retry e after) = Inl e"

lemma run_from_stops:
  assumes "attempt \<le> n" "n \<le> max_retries p" "n = max_retries p \<or> settles (op n)"
    and "\<forall>i. attempt \<le> i \<and> i < n \<longrightarrow> \<not> settles (op i)"
  shows "fst (run_from jit p op attempt) = result_of (op n)
    \<and> length (snd (run_from jit p op attempt)) = n - attempt"
  using assms
proof (induction jit p op attempt rule: run_from.induct)
  case (1 jit p op attempt)
  show ?case
  proof (cases "attempt = n")
    case True
    then show ?thesis
      using 1(4) by (subst (1 2) run_from.simps) (auto simp: settles_def split: attempt.split)
  next
    case False
    then have lt: "attempt < n" using 1(2) by simp
    then obtain e after where a: "op attempt = At_Retry e after"
      using 1(5) by (cases "op attempt") (auto simp: settles_def)
    have m: "\<not> attempt \<ge> max_retries p" using lt 1(3) by simp
    have ih: "fst (run_from jit p op (attempt + 1)) = result_of (op n)
        \<and> length (snd (run_from jit p op (attempt + 1))) = n - (attempt + 1)"
      using 1(1)[OF a m] 1(3-5) lt by auto
    show ?thesis
      using ih a m lt by (subst (1 2) run_from.simps) (auto simp: case_prod_beta Let_def)
  qed
qed

lemma run_from_waits: "w \<in> set (snd (run_from jit p op attempt)) \<Longrightarrow> \<exists>k after. w = backoff_wait jit p k after"
  by (induction jit p op attempt rule: run_from.induct)
    (subst (asm) (2) run_from.simps, auto simp: case_prod_beta Let_def split: attempt.splits if_splits)


definition demo_op :: "nat \<Rightarrow> (nat, nat) attempt" where
  "demo_op n = (if n < 2 then At_Retry n (Some (from_secs 3600)) else At_Done n)"


end
