(* ===== verification/Pace.thy ===== *)
theory Pace
  imports Retry
begin

text \<open>
  Rate-limit pacing and the conditional-request cache of \<open>crates/agent-forge/src/pace.rs\<close>:
  reading the untrusted rate-limit headers, classifying an answer, the per-quota gates and the
  bounded \<open>ETag\<close> cache. Times are nanoseconds. A \<open>HashMap\<close> is the list of its entries; where
  the code picks a minimum or maximum of an unordered map, the pick among equals is the parameter
  \<open>tie\<close>. The keyed hash is the parameter \<open>hash_one\<close>.
\<close>

section \<open>Waits\<close>

definition min_wait :: nat where "min_wait = from_secs 1"
definition max_wait :: nat where "max_wait = from_secs (15 * 60)"
definition default_limited_wait :: nat where "default_limited_wait = from_secs 60"
definition max_gates :: nat where "max_gates = 1024"
definition max_cached_per_quota :: nat where "max_cached_per_quota = 64"
definition max_cached :: nat where "max_cached = 1024"
definition max_cached_bytes :: nat where "max_cached_bytes = 2 * 1024 * 1024"
definition max_cached_total_bytes :: nat where "max_cached_total_bytes = 16 * 1024 * 1024"
definition max_etag_len :: nat where "max_etag_len = 256"

record signals =
  sg_retry_after :: "rstr option"
  sg_remaining :: "rstr option"
  sg_reset :: "rstr option"

text \<open>\<open>from_headers\<close>: \<open>get\<close> is the header map's lookup of a readable value.\<close>

definition first_header :: "(rstr \<Rightarrow> rstr option) \<Rightarrow> rstr list \<Rightarrow> rstr option" where
  "first_header get names = (case List.map_filter get names of [] \<Rightarrow> None | v # _ \<Rightarrow> Some v)"

definition from_headers :: "(rstr \<Rightarrow> rstr option) \<Rightarrow> signals" where
  "from_headers get = \<lparr>sg_retry_after = first_header get [''retry-after''],
     sg_remaining = first_header get [''x-ratelimit-remaining'', ''ratelimit-remaining''],
     sg_reset = first_header get [''x-ratelimit-reset'', ''ratelimit-reset'']\<rparr>"

definition spent :: "signals \<Rightarrow> bool" where
  "spent sig \<longleftrightarrow> map_option str_trim (sg_remaining sig) = Some ''0''"

definition reset_wait :: "signals \<Rightarrow> nat \<Rightarrow> nat option" where
  "reset_wait sig now = (case sg_reset sig of None \<Rightarrow> None | Some v \<Rightarrow> parse_reset_at v now)"

definition retry_after_wait :: "(rstr \<Rightarrow> nat option) \<Rightarrow> signals \<Rightarrow> nat \<Rightarrow> nat option" where
  "retry_after_wait http_date sig now =
     (case sg_retry_after sig of None \<Rightarrow> None | Some v \<Rightarrow> parse_retry_after_at http_date v now)"

definition clamp_wait :: "nat \<Rightarrow> nat" where
  "clamp_wait w = min (max w min_wait) max_wait"

definition or_else :: "'a option \<Rightarrow> 'a option \<Rightarrow> 'a option" where
  "or_else x y = (case x of None \<Rightarrow> y | Some _ \<Rightarrow> x)"

definition unwrap_or :: "'a option \<Rightarrow> 'a \<Rightarrow> 'a" where
  "unwrap_or x d = (case x of None \<Rightarrow> d | Some v \<Rightarrow> v)"

definition limited_wait :: "(rstr \<Rightarrow> nat option) \<Rightarrow> nat \<Rightarrow> signals \<Rightarrow> nat \<Rightarrow> nat option" where
  "limited_wait http_date code sig now =
     (let limited =
        (if code = 429 then True
         else if code = 403 then retry_after_wait http_date sig now \<noteq> None \<or> spent sig
         else if 500 \<le> code \<and> code \<le> 599 then retry_after_wait http_date sig now \<noteq> None
         else False)
      in if \<not> limited then None
         else Some (clamp_wait (unwrap_or
           (or_else (retry_after_wait http_date sig now) (if spent sig then reset_wait sig now else None))
           default_limited_wait)))"

definition exhausted_wait :: "signals \<Rightarrow> nat \<Rightarrow> nat option" where
  "exhausted_wait sig now =
     (if spent sig then Some (clamp_wait (unwrap_or (reset_wait sig now) default_limited_wait)) else None)"

datatype answer_class = An_Use | An_Retry "nat option" | An_GiveUp nat

definition classify_answer :: "(rstr \<Rightarrow> nat option) \<Rightarrow> nat \<Rightarrow> signals \<Rightarrow> nat \<Rightarrow> nat \<Rightarrow> answer_class" where
  "classify_answer http_date code sig now max_inline =
     (case limited_wait http_date code sig now of
        Some w \<Rightarrow> if w \<le> max_inline then An_Retry (Some w) else An_GiveUp w
      | None \<Rightarrow> if retryable_status code then An_Retry None else An_Use)"

definition usable_etag :: "rstr \<Rightarrow> bool" where
  "usable_etag etag \<longleftrightarrow> etag \<noteq> [] \<and> length etag \<le> max_etag_len
     \<and> list_all (\<lambda>b. 0x21 \<le> (of_char b :: nat) \<and> (of_char b :: nat) \<le> 0x7e) etag"

section \<open>Quotas and gates\<close>

record quota =
  q_base :: rstr
  q_credential :: nat

definition trim_end_slashes :: "rstr \<Rightarrow> rstr" where
  "trim_end_slashes s = rev (dropWhile (\<lambda>c. c = CHR ''/'') (rev s))"

definition quota_for :: "(nat \<times> rstr \<Rightarrow> nat) \<Rightarrow> rstr \<Rightarrow> rstr option \<Rightarrow> rstr \<Rightarrow> quota" where
  "quota_for hash_one base identity token =
     \<lparr>q_base = trim_end_slashes base,
      q_credential = (case identity of Some i \<Rightarrow> hash_one (1, i) | None \<Rightarrow> hash_one (0, token))\<rparr>"

type_synonym gates = "(quota \<times> nat) list"

definition blocked :: "gates \<Rightarrow> quota \<Rightarrow> nat \<Rightarrow> nat option" where
  "blocked gs q now = (case map_of gs q of None \<Rightarrow> None
     | Some until \<Rightarrow> if until - now = 0 then None else Some (until - now))"

text \<open>The keys whose value is least, among which \<open>tie\<close> picks.\<close>

definition min_keys :: "('k \<times> nat) list \<Rightarrow> 'k list" where
  "min_keys es = map fst (filter (\<lambda>e. list_all (\<lambda>f. snd e \<le> snd f) es) es)"

definition drop_soonest :: "(quota list \<Rightarrow> quota) \<Rightarrow> gates \<Rightarrow> gates" where
  "drop_soonest tie gs = (case min_keys gs of [] \<Rightarrow> gs
     | ks \<Rightarrow> filter (\<lambda>e. fst e \<noteq> tie ks) gs)"

definition hold :: "(quota list \<Rightarrow> quota) \<Rightarrow> quota \<Rightarrow> nat \<Rightarrow> nat \<Rightarrow> gates \<Rightarrow> gates" where
  "hold tie q w now gs =
     (let until = now + clamp_wait w;
          gs = (if map_of gs q = None \<and> length gs \<ge> max_gates
                then (let live = filter (\<lambda>e. snd e > now) gs
                      in if length live \<ge> max_gates then drop_soonest tie live else live)
                else gs)
      in case map_of gs q of
           None \<Rightarrow> gs @ [(q, until)]
         | Some _ \<Rightarrow> map (\<lambda>(k, u). (k, if k = q then max u until else u)) gs)"

section \<open>The cache\<close>

record 'b cached =
  ca_etag :: rstr
  ca_body :: 'b
  ca_size :: nat
  ca_stamp :: nat

record limits =
  per_quota :: nat
  max_entries :: nat
  max_bytes :: nat

definition default_limits :: limits where
  "default_limits = \<lparr>per_quota = max_cached_per_quota, max_entries = max_cached, max_bytes = max_cached_total_bytes\<rparr>"

type_synonym cache_key = "quota \<times> rstr"

record 'b cache =
  entries :: "(cache_key \<times> 'b cached) list"
  c_clock :: nat
  c_bytes :: nat
  c_limits :: limits

definition cache_new :: "limits \<Rightarrow> 'b cache" where
  "cache_new lim = \<lparr>entries = [], c_clock = 0, c_bytes = 0, c_limits = lim\<rparr>"

definition cache_remove :: "cache_key \<Rightarrow> 'b cache \<Rightarrow> 'b cache" where
  "cache_remove k c = (case map_of (entries c) k of None \<Rightarrow> c
     | Some gone \<Rightarrow> c\<lparr>entries := filter (\<lambda>e. fst e \<noteq> k) (entries c), c_bytes := c_bytes c - ca_size gone\<rparr>)"

text \<open>Stamps are distinct, so the least recently used entry is unique.\<close>

definition evict_lru :: "(quota \<Rightarrow> bool) \<Rightarrow> 'b cache \<Rightarrow> 'b cache" where
  "evict_lru pick c =
     (case min_keys (map (\<lambda>(k, e). (k, ca_stamp e)) (filter (\<lambda>(k, _). pick (fst k)) (entries c))) of
        [] \<Rightarrow> c | k # _ \<Rightarrow> cache_remove k c)"

definition load_of :: "bool \<Rightarrow> 'b cache \<Rightarrow> quota \<Rightarrow> nat" where
  "load_of by_bytes c q =
     sum_list (map (\<lambda>(_, e). if by_bytes then ca_size e else 1) (filter (\<lambda>(k, _). fst k = q) (entries c)))"

definition heaviest :: "(quota list \<Rightarrow> quota) \<Rightarrow> bool \<Rightarrow> 'b cache \<Rightarrow> quota option" where
  "heaviest tie by_bytes c =
     (let qs = remdups (map (\<lambda>(k, _). fst k) (entries c));
          top = filter (\<lambda>q. list_all (\<lambda>p. load_of by_bytes c p \<le> load_of by_bytes c q) qs) qs
      in if top = [] then None else Some (tie top))"

definition mine :: "quota \<Rightarrow> 'b cache \<Rightarrow> nat" where
  "mine q c = length (filter (\<lambda>(k, _). fst k = q) (entries c))"

text \<open>The three loops of \<open>make_room\<close>; a loop that would never end has no value.\<close>

partial_function (option) evict_mine :: "quota \<Rightarrow> 'b cache \<Rightarrow> 'b cache option" where
  [code]: "evict_mine q c =
     (if entries c \<noteq> [] \<and> mine q c \<ge> per_quota (c_limits c)
      then evict_mine q (evict_lru (\<lambda>p. p = q) c) else Some c)"

partial_function (option) evict_count :: "(quota list \<Rightarrow> quota) \<Rightarrow> 'b cache \<Rightarrow> 'b cache option" where
  [code]: "evict_count tie c =
     (if entries c \<noteq> [] \<and> length (entries c) \<ge> max_entries (c_limits c)
      then (case heaviest tie False c of None \<Rightarrow> Some c
            | Some heavy \<Rightarrow> evict_count tie (evict_lru (\<lambda>p. p = heavy) c))
      else Some c)"

partial_function (option) evict_bytes :: "(quota list \<Rightarrow> quota) \<Rightarrow> nat \<Rightarrow> 'b cache \<Rightarrow> 'b cache option" where
  [code]: "evict_bytes tie sz c =
     (if entries c \<noteq> [] \<and> c_bytes c + sz > max_bytes (c_limits c)
      then (case heaviest tie True c of None \<Rightarrow> Some c
            | Some heavy \<Rightarrow> evict_bytes tie sz (evict_lru (\<lambda>p. p = heavy) c))
      else Some c)"

definition make_room :: "(quota list \<Rightarrow> quota) \<Rightarrow> quota \<Rightarrow> nat \<Rightarrow> 'b cache \<Rightarrow> 'b cache option" where
  "make_room tie q sz c =
     Option.bind (evict_mine q c) (\<lambda>c. Option.bind (evict_count tie c) (evict_bytes tie sz))"

definition cached_etag :: "quota \<Rightarrow> rstr \<Rightarrow> 'b cache \<Rightarrow> rstr option \<times> 'b cache" where
  "cached_etag q path c =
     (let c = c\<lparr>c_clock := c_clock c + 1\<rparr>
      in case map_of (entries c) (q, path) of
           None \<Rightarrow> (None, c)
         | Some e \<Rightarrow> (Some (ca_etag e), c\<lparr>entries := map (\<lambda>(k, x).
             (k, if k = (q, path) then x\<lparr>ca_stamp := c_clock c\<rparr> else x)) (entries c)\<rparr>))"

definition cached_body :: "quota \<Rightarrow> rstr \<Rightarrow> rstr \<Rightarrow> 'b cache \<Rightarrow> 'b option" where
  "cached_body q path etag c = (case map_of (entries c) (q, path) of None \<Rightarrow> None
     | Some e \<Rightarrow> if ca_etag e = etag then Some (ca_body e) else None)"

text \<open>\<open>remember\<close> takes the lock twice; other calls may run between its two sections.\<close>

definition remember_keeps :: "rstr \<Rightarrow> nat \<Rightarrow> 'b cache \<Rightarrow> bool" where
  "remember_keeps etag sz c \<longleftrightarrow>
     \<not> (\<not> usable_etag etag \<or> sz > max_cached_bytes \<or> sz > max_bytes (c_limits c))"

definition remember_drop :: "quota \<Rightarrow> rstr \<Rightarrow> 'b cache \<Rightarrow> 'b cache" where
  "remember_drop q path c = cache_remove (q, path) c"

definition remember_store :: "(quota list \<Rightarrow> quota) \<Rightarrow> quota \<Rightarrow> rstr \<Rightarrow> rstr \<Rightarrow> 'b \<Rightarrow> nat \<Rightarrow> 'b cache \<Rightarrow>
    'b cache option" where
  "remember_store tie q path etag body sz c =
     Option.bind (make_room tie q sz (cache_remove (q, path) c)) (\<lambda>c.
       let stamp = c_clock c + 1
       in Some (c\<lparr>c_clock := stamp, c_bytes := c_bytes c + sz,
          entries := entries c @ [((q, path), \<lparr>ca_etag = etag, ca_body = body, ca_size = sz, ca_stamp = stamp\<rparr>)]\<rparr>))"

definition remember :: "(quota list \<Rightarrow> quota) \<Rightarrow> quota \<Rightarrow> rstr \<Rightarrow> rstr \<Rightarrow> 'b \<Rightarrow> nat \<Rightarrow> 'b cache \<Rightarrow> 'b cache option" where
  "remember tie q path etag body sz c =
     (let c = remember_drop q path c
      in if remember_keeps etag sz c then remember_store tie q path etag body sz c else Some c)"


section \<open>Waits are honoured and bounded\<close>

lemma clamp_wait_bounds: "min_wait \<le> clamp_wait w" "clamp_wait w \<le> max_wait"
  by (simp_all add: clamp_wait_def min_wait_def max_wait_def from_secs_def)

text \<open>
  An answered request is never retried sooner than the forge asked. When a wait is
  asked for it lies between one second and a quarter of an hour whatever the headers say; it is
  waited for in place only if it fits the caller's budget, and otherwise the call is given up.
\<close>

theorem answer_honours_wait:
  "case classify_answer http_date code sig now inline of
     An_Retry (Some w) \<Rightarrow> limited_wait http_date code sig now = Some w \<and> w \<le> inline \<and> min_wait \<le> w \<and> w \<le> max_wait
   | An_GiveUp w \<Rightarrow> limited_wait http_date code sig now = Some w \<and> inline < w \<and> min_wait \<le> w \<and> w \<le> max_wait
   | An_Retry None \<Rightarrow> limited_wait http_date code sig now = None \<and> retryable_status code
   | An_Use \<Rightarrow> limited_wait http_date code sig now = None \<and> \<not> retryable_status code"
proof -
  have "limited_wait http_date code sig now = Some w \<Longrightarrow> min_wait \<le> w \<and> w \<le> max_wait" for w
    using clamp_wait_bounds by (auto simp: limited_wait_def Let_def split: if_splits)
  then show ?thesis by (auto simp: classify_answer_def split: option.split)
qed

section \<open>Gates\<close>

lemma blocked_Some: "blocked gs q now = Some l \<longleftrightarrow> (\<exists>u. map_of gs q = Some u \<and> now < u \<and> l = u - now)"
  by (auto simp: blocked_def split: option.splits)

lemma map_of_map_if:
  "map_of (map (\<lambda>(k, u). (k, if k = q then f u else u)) gs) p
    = (if p = q then map_option f (map_of gs q) else map_of gs p)"
  by (induction gs) auto

lemma min_keys_subset: "set (min_keys es) \<subseteq> fst ` set es"
  by (auto simp: min_keys_def)

lemma min_keys_Nil: "min_keys es = [] \<longleftrightarrow> es = []"
proof (cases "es = []")
  case False
  then have "\<exists>e \<in> set es. \<forall>f \<in> set es. snd e \<le> snd f"
    using ex_min_if_finite[of "snd ` set es"] by (auto simp: not_less)
  then show ?thesis using False by (auto simp: min_keys_def filter_empty_conv list_all_iff)
qed (simp add: min_keys_def)

text \<open>All the code relies on in an unordered map: picking among keys yields one of them.\<close>

definition picks :: "('k list \<Rightarrow> 'k) \<Rightarrow> bool" where
  "picks tie \<longleftrightarrow> (\<forall>ks. ks \<noteq> [] \<longrightarrow> tie ks \<in> set ks)"

lemma picksD: "picks tie \<Longrightarrow> ks \<noteq> [] \<Longrightarrow> tie ks \<in> set ks"
  by (simp add: picks_def)

definition gates_ok :: "gates \<Rightarrow> bool" where
  "gates_ok gs \<longleftrightarrow> distinct (map fst gs) \<and> length gs \<le> max_gates"

lemma length_filter_less: "x \<in> set xs \<Longrightarrow> \<not> P x \<Longrightarrow> length (filter P xs) < length xs"
  by (meson length_filter_less)

lemma drop_soonest_less:
  assumes "picks tie" "gs \<noteq> []"
  shows "length (drop_soonest tie gs) < length gs"
proof -
  obtain k ks where ks: "min_keys gs = k # ks" using assms(2) min_keys_Nil by (metis neq_Nil_conv)
  then have "tie (k # ks) \<in> fst ` set gs" using picksD[OF assms(1), of "k # ks"] min_keys_subset[of gs] by auto
  then show ?thesis by (auto simp: drop_soonest_def ks intro!: length_filter_less)
qed

text \<open>
  A hold only ever lengthens a gate. Right after a hold the quota is blocked for at
  least the clamped wait and at least as long as before, every other quota keeps its gate unless
  the table is full, and the table never exceeds its cap.
\<close>

theorem hold_lengthens:
  assumes "gates_ok gs" and "picks tie"
  shows "gates_ok (hold tie q w now gs)
    \<and> (\<exists>l. blocked (hold tie q w now gs) q now = Some l \<and> clamp_wait w \<le> l
         \<and> (case blocked gs q now of None \<Rightarrow> l = clamp_wait w | Some l0 \<Rightarrow> l = max l0 (clamp_wait w)))
    \<and> (length gs < max_gates \<longrightarrow> (\<forall>p. p \<noteq> q \<longrightarrow> blocked (hold tie q w now gs) p now = blocked gs p now))"
proof -
  let ?u = "now + clamp_wait w"
  have pos: "now < ?u" using clamp_wait_bounds(1)[of w] by (simp add: min_wait_def from_secs_def)
  define gs1 where "gs1 = (if map_of gs q = None \<and> length gs \<ge> max_gates
      then (let live = filter (\<lambda>e. snd e > now) gs
            in if length live \<ge> max_gates then drop_soonest tie live else live)
      else gs)"
  have h: "hold tie q w now gs = (case map_of gs1 q of None \<Rightarrow> gs1 @ [(q, ?u)]
      | Some _ \<Rightarrow> map (\<lambda>(k, u). (k, if k = q then max u ?u else u)) gs1)"
    unfolding hold_def gs1_def Let_def ..
  have sub: "set gs1 \<subseteq> set gs" "distinct (map fst gs1)"
    using assms(1) by (auto simp: gs1_def gates_ok_def Let_def drop_soonest_def distinct_map_filter
        split: list.splits)
  have q1: "map_of gs1 q = map_of gs q"
  proof (cases "map_of gs q")
    case None
    then have "q \<notin> fst ` set gs1" using sub(1) by (auto simp: map_of_eq_None_iff)
    then have "map_of gs1 q = None" by (simp add: map_of_eq_None_iff)
    then show ?thesis using None by simp
  qed (simp add: gs1_def)
  have len: "length gs1 < max_gates \<or> map_of gs q \<noteq> None \<and> gs1 = gs"
  proof (cases "map_of gs q = None \<and> length gs \<ge> max_gates")
    case True
    let ?live = "filter (\<lambda>e. snd e > now) gs"
    have "length ?live \<le> max_gates" using assms(1) by (auto simp: gates_ok_def intro: order_trans[OF length_filter_le])
    moreover have "length (drop_soonest tie ?live) < length ?live" if "length ?live \<ge> max_gates"
      by (intro drop_soonest_less assms(2)) (use that in \<open>auto simp: max_gates_def\<close>)
    ultimately show ?thesis using True by (auto simp: gs1_def Let_def)
  qed (auto simp: gs1_def)
  have ok: "gates_ok (hold tie q w now gs)"
    using sub(2) q1 len assms(1)
    by (auto simp: h gates_ok_def comp_def case_prod_beta map_of_eq_None_iff split: option.splits)
  have own: "map_of (hold tie q w now gs) q
      = Some (case map_of gs q of None \<Rightarrow> ?u | Some u \<Rightarrow> max u ?u)"
    using q1 by (auto simp: h map_of_map_if map_add_def split: option.splits)
  have others: "blocked (hold tie q w now gs) p now = blocked gs p now" if "length gs < max_gates" "p \<noteq> q" for p
    using that by (cases "map_of gs q"; cases "map_of gs p") (simp_all add: h gs1_def blocked_def map_of_map_if map_add_def)
  have "\<exists>l. blocked (hold tie q w now gs) q now = Some l \<and> clamp_wait w \<le> l
      \<and> (case blocked gs q now of None \<Rightarrow> l = clamp_wait w | Some l0 \<Rightarrow> l = max l0 (clamp_wait w))"
    using own pos by (cases "map_of gs q") (auto simp: blocked_def max_def)
  then show ?thesis using ok others by blast
qed


section \<open>The cache stays within its limits\<close>

definition cache_ok :: "'b cache \<Rightarrow> bool" where
  "cache_ok c \<longleftrightarrow> distinct (map fst (entries c)) \<and> distinct (map (\<lambda>e. ca_stamp (snd e)) (entries c))
     \<and> list_all (\<lambda>e. ca_stamp (snd e) \<le> c_clock c) (entries c)
     \<and> c_bytes c = sum_list (map (\<lambda>e. ca_size (snd e)) (entries c))"

definition cache_fits :: "'b cache \<Rightarrow> bool" where
  "cache_fits c \<longleftrightarrow> (\<forall>q. mine q c \<le> per_quota (c_limits c)) \<and> length (entries c) \<le> max_entries (c_limits c)
     \<and> c_bytes c \<le> max_bytes (c_limits c)"

text \<open>\<open>c'\<close> is \<open>c\<close> with some entries gone.\<close>

definition shrinks :: "'b cache \<Rightarrow> 'b cache \<Rightarrow> bool" where
  "shrinks c c' \<longleftrightarrow> cache_ok c' \<and> c_limits c' = c_limits c \<and> c_clock c' = c_clock c
     \<and> (\<exists>P. entries c' = filter P (entries c))"

lemma shrinks_refl: "cache_ok c \<Longrightarrow> shrinks c c"
  unfolding shrinks_def by (intro conjI exI[of _ "\<lambda>_. True"]) simp_all

lemma shrinks_trans: "shrinks c d \<Longrightarrow> shrinks d e \<Longrightarrow> shrinks c e"
  by (auto simp: shrinks_def filter_filter)

lemma sum_remove_key:
  "distinct (map fst es) \<Longrightarrow> map_of es k = Some v \<Longrightarrow>
    sum_list (map (\<lambda>e. f (snd e)) (filter (\<lambda>e. fst e \<noteq> k) es)) + f v = (sum_list (map (\<lambda>e. f (snd e)) es) :: nat)"
proof (induction es)
  case (Cons e es)
  show ?case
  proof (cases "fst e = k")
    case True
    have "fst e \<notin> fst ` set es" using Cons(2) by simp
    then have "fst x \<noteq> k" if "x \<in> set es" for x using that True by (metis imageI)
    then have "filter (\<lambda>e. fst e \<noteq> k) es = es" by (simp add: filter_id_conv)
    then show ?thesis using Cons True by (cases e) auto
  next
    case False
    then show ?thesis using Cons by (cases e) auto
  qed
qed simp

lemma remove_shrinks:
  assumes "cache_ok c"
  shows "shrinks c (cache_remove k c)" "map_of (entries (cache_remove k c)) k = None"
    "map_of (entries c) k \<noteq> None \<Longrightarrow> length (entries (cache_remove k c)) < length (entries c)"
proof -
  show "shrinks c (cache_remove k c)"
  proof (cases "map_of (entries c) k")
    case None
    then show ?thesis using shrinks_refl[OF assms] by (simp add: cache_remove_def)
  next
    case (Some v)
    have "sum_list (map (\<lambda>e. ca_size (snd e)) (filter (\<lambda>e. fst e \<noteq> k) (entries c))) + ca_size v
        = sum_list (map (\<lambda>e. ca_size (snd e)) (entries c))"
      using assms Some by (intro sum_remove_key) (simp_all add: cache_ok_def)
    then show ?thesis
      using assms Some
      by (auto simp: shrinks_def cache_remove_def cache_ok_def distinct_map_filter list_all_iff)
  qed
  show "map_of (entries (cache_remove k c)) k = None"
    by (auto simp: cache_remove_def map_of_eq_None_iff split: option.split)
  assume "map_of (entries c) k \<noteq> None"
  then obtain v where "map_of (entries c) k = Some v" by auto
  then show "length (entries (cache_remove k c)) < length (entries c)"
    using length_filter_less[of "(k, v)" "entries c" "\<lambda>e. fst e \<noteq> k"] map_of_SomeD[of "entries c" k v]
    by (simp add: cache_remove_def)
qed

lemma evict_shrinks:
  assumes "cache_ok c" "\<exists>e \<in> set (entries c). pick (fst (fst e))"
  shows "shrinks c (evict_lru pick c) \<and> length (entries (evict_lru pick c)) < length (entries c)"
proof -
  let ?es = "map (\<lambda>(k, e). (k, ca_stamp e)) (filter (\<lambda>(k, _). pick (fst k)) (entries c))"
  have "?es \<noteq> []" using assms(2) by (force simp: filter_empty_conv)
  then obtain k ks where k: "min_keys ?es = k # ks" using min_keys_Nil by (metis neq_Nil_conv)
  then have "k \<in> fst ` set (entries c)" using min_keys_subset[of ?es] by force
  then have "map_of (entries c) k \<noteq> None" by (simp add: map_of_eq_None_iff)
  then show ?thesis
    using remove_shrinks[OF assms(1), of k] k by (simp add: evict_lru_def)
qed

lemma mine_pos: "0 < mine q c \<Longrightarrow> \<exists>e \<in> set (entries c). fst (fst e) = q"
  by (force simp: mine_def filter_empty_conv)

lemma evict_mine_runs:
  "cache_ok c \<Longrightarrow> 0 < per_quota (c_limits c) \<Longrightarrow>
    \<exists>d. evict_mine q c = Some d \<and> shrinks c d \<and> (entries d = [] \<or> mine q d < per_quota (c_limits c))"
proof (induction "length (entries c)" arbitrary: c rule: less_induct)
  case less
  show ?case
  proof (cases "entries c \<noteq> [] \<and> mine q c \<ge> per_quota (c_limits c)")
    case True
    let ?c1 = "evict_lru (\<lambda>p. p = q) c"
    have s: "shrinks c ?c1 \<and> length (entries ?c1) < length (entries c)"
      using True less(3) by (intro evict_shrinks less(2) mine_pos) simp
    then obtain d where d: "evict_mine q ?c1 = Some d" "shrinks ?c1 d"
      "entries d = [] \<or> mine q d < per_quota (c_limits c)"
      using less(1)[of ?c1] less(3) by (auto simp: shrinks_def)
    moreover have "evict_mine q c = evict_mine q ?c1" using True by (subst evict_mine.simps) simp
    ultimately show ?thesis using s shrinks_trans by metis
  next
    case False
    then show ?thesis using shrinks_refl[OF less(2)] by (subst evict_mine.simps) auto
  qed
qed

lemma heaviest_in:
  assumes "picks tie" "heaviest tie b c = Some q"
  shows "\<exists>e \<in> set (entries c). fst (fst e) = q"
proof -
  let ?qs = "remdups (map (\<lambda>(k, _). fst k) (entries c))"
  let ?top = "filter (\<lambda>q. list_all (\<lambda>p. load_of b c p \<le> load_of b c q) ?qs) ?qs"
  have "?top \<noteq> []" "q = tie ?top"
    using assms(2) by (auto simp: heaviest_def Let_def split: if_splits)
  then have "q \<in> set ?qs" using picksD[OF assms(1), of ?top] by auto
  then show ?thesis by force
qed

lemma max_exists: "qs \<noteq> [] \<Longrightarrow> \<exists>q \<in> set qs. \<forall>p \<in> set qs. f p \<le> (f q :: nat)"
proof (induction qs)
  case (Cons a qs)
  show ?case
  proof (cases "qs = []")
    case False
    then obtain q where q: "q \<in> set qs" "\<forall>p \<in> set qs. f p \<le> f q" using Cons by blast
    then show ?thesis by (cases "f a \<le> f q") force+
  qed simp
qed simp

lemma heaviest_Some:
  assumes "entries c \<noteq> []"
  shows "heaviest tie b c \<noteq> None"
proof -
  define qs where "qs = remdups (map (\<lambda>(k, _). fst k) (entries c))"
  have "qs \<noteq> []" using assms by (simp add: qs_def)
  from max_exists[OF this, of "load_of b c"]
  have "filter (\<lambda>q. list_all (\<lambda>p. load_of b c p \<le> load_of b c q) qs) qs \<noteq> []"
    by (auto simp: filter_empty_conv list_all_iff)
  then show ?thesis by (simp add: heaviest_def Let_def qs_def[symmetric])
qed

lemma evict_heaviest:
  assumes "picks tie" "cache_ok c" "entries c \<noteq> []"
  obtains q where "heaviest tie b c = Some q" "shrinks c (evict_lru (\<lambda>p. p = q) c)"
    "length (entries (evict_lru (\<lambda>p. p = q) c)) < length (entries c)"
proof -
  obtain q where q: "heaviest tie b c = Some q" using heaviest_Some[OF assms(3), of tie b] by auto
  from evict_shrinks[OF assms(2), of "\<lambda>p. p = q"] heaviest_in[OF assms(1) q] show ?thesis
    using that[OF q] by blast
qed

lemma evict_count_runs:
  assumes tie: "picks tie"
  shows "cache_ok c \<Longrightarrow>
    \<exists>d. evict_count tie c = Some d \<and> shrinks c d \<and> (entries d = [] \<or> length (entries d) < max_entries (c_limits c))"
proof (induction "length (entries c)" arbitrary: c rule: less_induct)
  case less
  show ?case
  proof (cases "entries c \<noteq> [] \<and> length (entries c) \<ge> max_entries (c_limits c)")
    case True
    obtain q where q: "heaviest tie False c = Some q" "shrinks c (evict_lru (\<lambda>p. p = q) c)"
      "length (entries (evict_lru (\<lambda>p. p = q) c)) < length (entries c)"
      using evict_heaviest[OF tie less(2)] True by metis
    let ?c1 = "evict_lru (\<lambda>p. p = q) c"
    obtain d where d: "evict_count tie ?c1 = Some d" "shrinks ?c1 d"
      "entries d = [] \<or> length (entries d) < max_entries (c_limits c)"
      using less(1)[of ?c1] q by (auto simp: shrinks_def)
    moreover have "evict_count tie c = evict_count tie ?c1"
      using True q(1) by (subst evict_count.simps) simp
    ultimately show ?thesis using q(2) shrinks_trans by metis
  next
    case False
    then show ?thesis using shrinks_refl[OF less(2)] by (subst evict_count.simps) auto
  qed
qed

lemma evict_bytes_runs:
  assumes tie: "picks tie"
  shows "cache_ok c \<Longrightarrow>
    \<exists>d. evict_bytes tie sz c = Some d \<and> shrinks c d \<and> (entries d = [] \<or> c_bytes d + sz \<le> max_bytes (c_limits c))"
proof (induction "length (entries c)" arbitrary: c rule: less_induct)
  case less
  show ?case
  proof (cases "entries c \<noteq> [] \<and> c_bytes c + sz > max_bytes (c_limits c)")
    case True
    obtain q where q: "heaviest tie True c = Some q" "shrinks c (evict_lru (\<lambda>p. p = q) c)"
      "length (entries (evict_lru (\<lambda>p. p = q) c)) < length (entries c)"
      using evict_heaviest[OF tie less(2)] True by metis
    let ?c1 = "evict_lru (\<lambda>p. p = q) c"
    obtain d where d: "evict_bytes tie sz ?c1 = Some d" "shrinks ?c1 d"
      "entries d = [] \<or> c_bytes d + sz \<le> max_bytes (c_limits c)"
      using less(1)[of ?c1] q by (auto simp: shrinks_def)
    moreover have "evict_bytes tie sz c = evict_bytes tie sz ?c1"
      using True q(1) by (subst evict_bytes.simps) simp
    ultimately show ?thesis using q(2) shrinks_trans by metis
  next
    case False
    then show ?thesis using shrinks_refl[OF less(2)] by (subst evict_bytes.simps) auto
  qed
qed

lemma shrinks_counts:
  assumes "shrinks c d"
  shows "mine q d \<le> mine q c" "length (entries d) \<le> length (entries c)" "c_bytes d \<le> c_bytes c \<or> \<not> cache_ok c"
proof -
  obtain P where P: "entries d = filter P (entries c)" using assms by (auto simp: shrinks_def)
  have "mine q d = length (filter P (filter (\<lambda>(k, _). fst k = q) (entries c)))"
    by (simp add: mine_def P conj_commute)
  then show "mine q d \<le> mine q c" unfolding mine_def by (metis length_filter_le)
  show "length (entries d) \<le> length (entries c)" by (simp add: P)
  have le: "sum_list (map f (filter P es)) \<le> sum_list (map f es)" for f :: "_ \<Rightarrow> nat" and es
    by (induction es) (auto intro: le_add_same_cancel2[THEN iffD2] order_trans)
  have "c_bytes d \<le> c_bytes c" if "cache_ok c"
    using that assms le[of "\<lambda>e. ca_size (snd e)" "entries c"] by (simp add: shrinks_def cache_ok_def P)
  then show "c_bytes d \<le> c_bytes c \<or> \<not> cache_ok c" by blast
qed


lemma make_room_runs:
  assumes tie: "picks tie" and ok: "cache_ok c" and pos: "0 < per_quota (c_limits c)"
  shows "\<exists>d. make_room tie q sz c = Some d \<and> shrinks c d
    \<and> (entries d = [] \<or> mine q d < per_quota (c_limits c))
    \<and> (entries d = [] \<or> length (entries d) < max_entries (c_limits c))
    \<and> (entries d = [] \<or> c_bytes d + sz \<le> max_bytes (c_limits c))"
proof -
  obtain c1 where c1: "evict_mine q c = Some c1" "shrinks c c1"
    "entries c1 = [] \<or> mine q c1 < per_quota (c_limits c)" using evict_mine_runs[OF ok pos] by blast
  then have lim1: "cache_ok c1" "c_limits c1 = c_limits c" by (simp_all add: shrinks_def)
  obtain c2 where c2: "evict_count tie c1 = Some c2" "shrinks c1 c2"
    "entries c2 = [] \<or> length (entries c2) < max_entries (c_limits c)"
    using evict_count_runs[of tie c1, OF tie lim1(1)] lim1(2) by auto
  then have lim2: "cache_ok c2" "c_limits c2 = c_limits c" using lim1 by (simp_all add: shrinks_def)
  obtain d where d: "evict_bytes tie sz c2 = Some d" "shrinks c2 d"
    "entries d = [] \<or> c_bytes d + sz \<le> max_bytes (c_limits c)"
    using evict_bytes_runs[of tie c2 sz, OF tie lim2(1)] lim2(2) by auto
  have "make_room tie q sz c = Some d" using c1(1) c2(1) d(1) by (simp add: make_room_def)
  moreover have "shrinks c d" using c1(2) c2(2) d(2) shrinks_trans by blast
  moreover have "entries d = [] \<or> mine q d < per_quota (c_limits c)"
    using shrinks_counts(1)[OF shrinks_trans[OF c2(2) d(2)], of q]
      shrinks_counts(2)[OF shrinks_trans[OF c2(2) d(2)]] c1(3) by auto
  moreover have "entries d = [] \<or> length (entries d) < max_entries (c_limits c)"
    using shrinks_counts(2)[OF d(2)] c2(3) by auto
  ultimately show ?thesis using d(3) by blast
qed

definition cache_inv :: "'b cache \<Rightarrow> bool" where
  "cache_inv c \<longleftrightarrow> cache_ok c \<and> cache_fits c \<and> 0 < per_quota (c_limits c) \<and> 0 < max_entries (c_limits c)"

lemma shrinks_inv: "cache_inv c \<Longrightarrow> shrinks c d \<Longrightarrow> cache_inv d"
  using shrinks_counts[of c d] unfolding cache_inv_def cache_fits_def shrinks_def
  by (metis le_trans)

lemma store_entry:
  fixes d :: "'b cache" and e :: "'b cached"
  assumes inv: "cache_inv d" and new: "map_of (entries d) (q, path) = None"
    and room: "mine q d < per_quota (c_limits d)" "length (entries d) < max_entries (c_limits d)"
      "c_bytes d + sz \<le> max_bytes (c_limits d)"
    and e: "ca_size e = sz" "ca_stamp e = c_clock d + 1"
  shows "cache_inv (d\<lparr>c_clock := c_clock d + 1, c_bytes := c_bytes d + sz, entries := entries d @ [((q, path), e)]\<rparr>)"
proof -
  have ok: "cache_ok d" "cache_fits d" using inv by (simp_all add: cache_inv_def)
  have "(q, path) \<notin> fst ` set (entries d)" using new by (simp add: map_of_eq_None_iff)
  moreover have "ca_stamp (snd x) \<le> c_clock d" if "x \<in> set (entries d)" for x
    using ok(1) that by (auto simp: cache_ok_def list_all_iff)
  moreover from this have "c_clock d + 1 \<notin> (\<lambda>e. ca_stamp (snd e)) ` set (entries d)" by fastforce
  ultimately have "cache_ok (d\<lparr>c_clock := c_clock d + 1, c_bytes := c_bytes d + sz, entries := entries d @ [((q, path), e)]\<rparr>)"
    using ok(1) e by (auto simp: cache_ok_def list_all_iff intro: le_SucI)
  moreover have "cache_fits (d\<lparr>c_clock := c_clock d + 1, c_bytes := c_bytes d + sz, entries := entries d @ [((q, path), e)]\<rparr>)"
    using ok(2) room by (auto simp: cache_fits_def mine_def)
  ultimately show ?thesis using inv by (simp add: cache_inv_def)
qed

lemma remember_store_runs:
  assumes tie: "picks tie" and inv: "cache_inv c" and sz: "sz \<le> max_bytes (c_limits c)"
  shows "\<exists>d. remember_store tie q path etag body sz c = Some d \<and> cache_inv d \<and> c_limits d = c_limits c
    \<and> set (entries d) \<subseteq> insert ((q, path), \<lparr>ca_etag = etag, ca_body = body, ca_size = sz, ca_stamp = c_clock d\<rparr>)
         (set (entries c))
    \<and> cached_body q path etag d = Some body"
proof -
  let ?c = "cache_remove (q, path) c"
  have ok: "cache_ok c" using inv by (simp add: cache_inv_def)
  note rm = remove_shrinks(1,2)[OF ok, of "(q, path)"]
  have inv': "cache_inv ?c" by (rule shrinks_inv[OF inv rm(1)])
  have c0: "cache_ok ?c" "0 < per_quota (c_limits ?c)" using inv' by (simp_all add: cache_inv_def)
  obtain d where d: "make_room tie q sz ?c = Some d" "shrinks ?c d"
    "entries d = [] \<or> mine q d < per_quota (c_limits ?c)"
    "entries d = [] \<or> length (entries d) < max_entries (c_limits ?c)"
    "entries d = [] \<or> c_bytes d + sz \<le> max_bytes (c_limits ?c)"
    using make_room_runs[OF tie c0, of q sz] by (elim exE conjE) (rule that; assumption)
  have lim: "c_limits ?c = c_limits c" "c_limits d = c_limits c" "c_clock d = c_clock c"
    using rm(1) d(2) by (simp_all add: shrinks_def)
  have invd: "cache_inv d" by (rule shrinks_inv[OF inv' d(2)])
  have sub: "set (entries d) \<subseteq> set (entries ?c)" "set (entries ?c) \<subseteq> set (entries c)"
    using rm(1) d(2) by (auto simp: shrinks_def)
  have new: "map_of (entries d) (q, path) = None"
    using rm(2) sub(1) by (auto simp: map_of_eq_None_iff)
  have room: "mine q d < per_quota (c_limits d)" "length (entries d) < max_entries (c_limits d)"
    "c_bytes d + sz \<le> max_bytes (c_limits d)"
    using d(3-5) lim invd sz by (auto simp: cache_inv_def cache_ok_def mine_def)
  let ?e = "\<lparr>ca_etag = etag, ca_body = body, ca_size = sz, ca_stamp = c_clock d + 1\<rparr>"
  let ?d' = "d\<lparr>c_clock := c_clock d + 1, c_bytes := c_bytes d + sz, entries := entries d @ [((q, path), ?e)]\<rparr>"
  have "remember_store tie q path etag body sz c = Some ?d'"
    using d(1) by (simp add: remember_store_def Let_def)
  moreover have "cache_inv ?d'" by (rule store_entry[OF invd new room]) simp_all
  moreover have "cached_body q path etag ?d' = Some body"
    using new by (simp add: cached_body_def map_add_def)
  ultimately show ?thesis using sub lim by (intro exI[of _ ?d']) auto
qed

section \<open>Any interleaving of cache operations\<close>

text \<open>The atomic sections: a use of a tag, the first and the second half of \<open>remember\<close>.\<close>

datatype 'b cache_op =
    Op_Etag quota rstr | Op_Drop quota rstr | Op_Store quota rstr rstr 'b nat

fun cache_step :: "(quota list \<Rightarrow> quota) \<Rightarrow> 'b cache_op \<Rightarrow> 'b cache \<Rightarrow> 'b cache option" where
  "cache_step tie (Op_Etag q path) c = Some (snd (cached_etag q path c))"
| "cache_step tie (Op_Drop q path) c = Some (remember_drop q path c)"
| "cache_step tie (Op_Store q path etag body sz) c =
     (if remember_keeps etag sz c then remember_store tie q path etag body sz c else Some c)"

fun cache_run :: "(quota list \<Rightarrow> quota) \<Rightarrow> 'b cache_op list \<Rightarrow> 'b cache \<Rightarrow> 'b cache option" where
  "cache_run tie [] c = Some c"
| "cache_run tie (x # xs) c = Option.bind (cache_step tie x c) (cache_run tie xs)"

lemma etag_step:
  assumes "cache_inv c"
  shows "cache_inv (snd (cached_etag q path c)) \<and> c_limits (snd (cached_etag q path c)) = c_limits c
    \<and> (\<forall>x \<in> set (entries (snd (cached_etag q path c))). \<exists>y \<in> set (entries c).
         fst x = fst y \<and> ca_etag (snd x) = ca_etag (snd y) \<and> ca_body (snd x) = ca_body (snd y))"
proof (cases "map_of (entries c) (q, path)")
  case None
  then show ?thesis
    using assms by (auto simp: cached_etag_def Let_def cache_inv_def cache_ok_def cache_fits_def mine_def
        list_all_iff intro: le_SucI)
next
  case (Some e)
  let ?f = "\<lambda>(k, x). (k, if k = (q, path) then x\<lparr>ca_stamp := c_clock c + 1\<rparr> else x)"
  have s: "snd (cached_etag q path c) = c\<lparr>c_clock := c_clock c + 1, entries := map ?f (entries c)\<rparr>"
    using Some by (simp add: cached_etag_def Let_def cong: if_cong)
  have d: "distinct (map fst (entries c))" and st: "distinct (map (\<lambda>e. ca_stamp (snd e)) (entries c))"
    and le: "\<And>x. x \<in> set (entries c) \<Longrightarrow> ca_stamp (snd x) \<le> c_clock c"
    using assms by (auto simp: cache_inv_def cache_ok_def list_all_iff)
  have keys: "map fst (map ?f es) = map fst es" for es by (induction es) auto
  have sizes: "map (\<lambda>e. ca_size (snd e)) (map ?f es) = map (\<lambda>e. ca_size (snd e)) es" for es
    by (induction es) auto
  have stamps: "distinct (map (\<lambda>e. ca_stamp (snd e)) (map ?f es))"
    if "distinct (map fst es)" "distinct (map (\<lambda>e. ca_stamp (snd e)) es)"
      "\<And>x. x \<in> set es \<Longrightarrow> ca_stamp (snd x) \<le> c_clock c" for es
    using that
  proof (induction es)
    case (Cons x es)
    obtain k v where x: "x = (k, v)" by (cases x)
    show ?case
    proof (cases "k = (q, path)")
      case True
      then have "map ?f es = es" using Cons(2) x by (intro map_idI) force
      moreover have "c_clock c + 1 \<notin> (\<lambda>e. ca_stamp (snd e)) ` set es"
      proof
        assume "c_clock c + 1 \<in> (\<lambda>e. ca_stamp (snd e)) ` set es"
        then obtain y where "y \<in> set es" "c_clock c + 1 = ca_stamp (snd y)" by auto
        then show False using Cons(4)[of y] by simp
      qed
      ultimately show ?thesis using Cons(3) x True by auto
    next
      case False
      have "ca_stamp v \<noteq> c_clock c + 1" using Cons(4)[of x] x by simp
      then have "ca_stamp v \<notin> (\<lambda>e. ca_stamp (snd e)) ` set (map ?f es)"
        using Cons(3) x by (force split: if_splits)
      then show ?thesis using Cons x False by (simp add: image_image comp_def)
    qed
  qed simp
  have mine: "length (filter (\<lambda>(k, _). fst k = p) (map ?f es)) = length (filter (\<lambda>(k, _). fst k = p) es)"
    for p and es :: "(cache_key \<times> 'a cached) list"
    by (induction es) auto
  let ?c' = "snd (cached_etag q path c)"
  have e: "entries ?c' = map ?f (entries c)" "c_clock ?c' = c_clock c + 1" "c_bytes ?c' = c_bytes c"
    unfolding s by simp_all
  have le': "ca_stamp (snd (?f x)) \<le> c_clock c + 1" if "x \<in> set (entries c)" for x
    using le[OF that] by (cases x) auto
  have "cache_ok ?c'"
    unfolding cache_ok_def e keys sizes
    using d stamps[OF d st le] le' assms by (simp add: list_all_iff cache_inv_def cache_ok_def)
  moreover have "cache_fits (snd (cached_etag q path c))"
  proof -
    have "mine p ?c' = mine p c" for p unfolding mine_def e by (rule mine)
    moreover have "length (entries ?c') = length (entries c)" unfolding e by simp
    moreover have "c_limits ?c' = c_limits c" unfolding s by simp
    ultimately show ?thesis using assms e(3) by (simp add: cache_fits_def cache_inv_def)
  qed
  ultimately show ?thesis using assms by (force simp: s cache_inv_def)
qed

definition stored_by :: "'b cache_op list \<Rightarrow> 'b cache \<Rightarrow> bool" where
  "stored_by xs c \<longleftrightarrow> (\<forall>x \<in> set (entries c). \<exists>sz.
     Op_Store (fst (fst x)) (snd (fst x)) (ca_etag (snd x)) (ca_body (snd x)) sz \<in> set xs)"

lemma cache_step_runs:
  assumes tie: "picks tie" and inv: "cache_inv c" and sb: "stored_by xs c"
  shows "\<exists>d. cache_step tie x c = Some d \<and> cache_inv d \<and> c_limits d = c_limits c \<and> stored_by (x # xs) d"
proof (cases x)
  case (Op_Etag q path)
  then show ?thesis
    using etag_step[OF inv, of q path] sb by (fastforce simp: stored_by_def)
next
  case (Op_Drop q path)
  have "shrinks c (cache_remove (q, path) c)" using inv by (intro remove_shrinks) (simp add: cache_inv_def)
  then show ?thesis
    using shrinks_inv[OF inv] sb Op_Drop by (auto simp: remember_drop_def shrinks_def stored_by_def)
next
  case (Op_Store q path etag body sz)
  show ?thesis
  proof (cases "remember_keeps etag sz c")
    case True
    then have "sz \<le> max_bytes (c_limits c)" by (simp add: remember_keeps_def)
    from remember_store_runs[of tie c sz q path etag body, OF tie inv this]
    obtain d where d: "remember_store tie q path etag body sz c = Some d" "cache_inv d" "c_limits d = c_limits c"
      "set (entries d) \<subseteq> insert ((q, path), \<lparr>ca_etag = etag, ca_body = body, ca_size = sz, ca_stamp = c_clock d\<rparr>)
         (set (entries c))" by blast
    then have "stored_by (x # xs) d" using sb Op_Store by (fastforce simp: stored_by_def)
    then show ?thesis using d True Op_Store by auto
  next
    case False
    then show ?thesis using inv sb Op_Store by (auto simp: stored_by_def)
  qed
qed

text \<open>
  Property C35: the shared cache is bounded and never mixes credentials. Any sequence of cache
  operations, in any interleaving, ends; the cache then holds at most the configured entries per
  quota, entries in all and wire bytes, its byte count is exact; and a body it serves for a quota,
  path and tag was stored for exactly that quota, path and tag.
\<close>

theorem cache_bounded_and_honest:
  assumes "picks tie" and "0 < per_quota lim" and "0 < max_entries lim"
  shows "\<exists>c. cache_run tie xs (cache_new lim) = Some c
    \<and> (\<forall>q. mine q c \<le> per_quota lim) \<and> length (entries c) \<le> max_entries lim \<and> c_bytes c \<le> max_bytes lim
    \<and> c_bytes c = sum_list (map (\<lambda>e. ca_size (snd e)) (entries c))
    \<and> (\<forall>q path etag body. cached_body q path etag c = Some body \<longrightarrow>
         (\<exists>sz. Op_Store q path etag body sz \<in> set xs))"
proof -
  have run: "\<exists>c'. cache_run tie xs c = Some c' \<and> cache_inv c' \<and> c_limits c' = c_limits c \<and> stored_by (xs @ ys) c'"
    if "cache_inv c" "stored_by ys c" for c :: "'a cache" and xs ys
    using that
  proof (induction xs arbitrary: c ys)
    case (Cons x xs)
    obtain d where d: "cache_step tie x c = Some d" "cache_inv d" "c_limits d = c_limits c" "stored_by (x # ys) d"
      using cache_step_runs[OF assms(1) Cons(2,3), of x] by blast
    obtain c' where "cache_run tie xs d = Some c'" "cache_inv c'" "c_limits c' = c_limits d"
      "stored_by (xs @ x # ys) c'" using Cons(1)[OF d(2,4)] by blast
    then show ?case using d by (auto simp: stored_by_def)
  qed auto
  have "cache_inv (cache_new lim :: 'a cache)" "stored_by [] (cache_new lim :: 'a cache)"
    using assms(2,3) by (simp_all add: cache_inv_def cache_ok_def cache_fits_def cache_new_def mine_def stored_by_def)
  from run[OF this, of xs] obtain c where c: "cache_run tie xs (cache_new lim) = Some c" "cache_inv c"
    "c_limits c = lim" "stored_by xs c" by (auto simp: cache_new_def)
  have "\<exists>sz. Op_Store q path etag body sz \<in> set xs" if b: "cached_body q path etag c = Some body" for q path etag body
  proof -
    obtain e where "map_of (entries c) (q, path) = Some e" "ca_etag e = etag" "ca_body e = body"
      using b by (auto simp: cached_body_def split: option.splits if_splits)
    then show ?thesis using c(4) by (fastforce simp: stored_by_def dest: map_of_SomeD)
  qed
  then show ?thesis
    using c by (intro exI[of _ c]) (simp add: cache_inv_def cache_fits_def cache_ok_def)
qed


section \<open>Witnesses\<close>

lemma picks_hd: "picks hd"
  by (simp add: picks_def)

definition demo_quota :: "nat \<Rightarrow> quota" where
  "demo_quota n = \<lparr>q_base = ''https://f'', q_credential = n\<rparr>"

theorem hold_lengthens_witness:
  "blocked (hold hd (demo_quota 1) 0 7 [(demo_quota 1, 8), (demo_quota 2, 9)]) (demo_quota 1) 7 = Some min_wait
   \<and> blocked (hold hd (demo_quota 1) 0 7 [(demo_quota 1, 8), (demo_quota 2, 9)]) (demo_quota 2) 7 = Some 2"
proof -
  let ?gs = "[(demo_quota 1, 8), (demo_quota 2, 9)]"
  have ok: "gates_ok ?gs" by (simp add: gates_ok_def max_gates_def demo_quota_def)
  have b: "blocked ?gs (demo_quota 1) 7 = Some 1" "blocked ?gs (demo_quota 2) 7 = Some 2"
    by (simp_all add: blocked_def demo_quota_def)
  have ne: "demo_quota 2 \<noteq> demo_quota 1" by (simp add: demo_quota_def)
  have len: "length ?gs < max_gates" by (simp add: max_gates_def)
  have cl: "clamp_wait 0 = min_wait" "max 1 min_wait = min_wait"
    by (simp_all add: clamp_wait_def min_wait_def max_wait_def from_secs_def)
  note h = hold_lengthens[OF ok picks_hd, of "demo_quota 1" 0 7]
  obtain l where "blocked (hold hd (demo_quota 1) 0 7 ?gs) (demo_quota 1) 7 = Some l" "l = max 1 (clamp_wait 0)"
    using h b(1) by (elim conjE exE) simp
  moreover have "blocked (hold hd (demo_quota 1) 0 7 ?gs) (demo_quota 2) 7 = Some 2"
    using h len ne b(2) by simp
  ultimately show ?thesis using cl by simp
qed

theorem cache_bounded_and_honest_witness:
  "\<exists>c. cache_run hd [Op_Store (demo_quota 1) ''/p'' ''tag'' (5::nat) 10, Op_Etag (demo_quota 1) ''/p'']
      (cache_new default_limits) = Some c \<and> c_bytes c \<le> max_bytes default_limits"
  using cache_bounded_and_honest[OF picks_hd, of default_limits
      "[Op_Store (demo_quota 1) ''/p'' ''tag'' (5::nat) 10, Op_Etag (demo_quota 1) ''/p'']"]
  by (auto simp: default_limits_def max_cached_per_quota_def max_cached_def)

end
