(* ===== verification/Graph_Schema.thy ===== *)
theory Graph_Schema
  imports Task_Policy Segments
begin

text \<open>
  The cognition-graph document and the registry of its node types: the graph types and caps of
  \<open>crates/agent-core/src/lib.rs\<close> and \<open>crates/agent-graph/src/schema.rs\<close>, whose one table of
  parameter specs per type drives both the validator and the JSON schema shown to editors. What
  the standard library or \<open>serde_json\<close> print is the parameter \<open>text_fns\<close>.
\<close>

section \<open>The document\<close>

definition graph_version :: nat where "graph_version = 1"
definition max_graph_nodes :: nat where "max_graph_nodes = 64"
definition max_graph_edges :: nat where "max_graph_edges = 256"
definition max_graph_node_id_len :: nat where "max_graph_node_id_len = 64"
definition max_graph_params_bytes :: nat where "max_graph_params_bytes = 16 * 1024"
definition max_split_branches :: nat where "max_split_branches = 5"
definition default_split_branches :: nat where "default_split_branches = 3"
definition max_anchor_branches :: nat where "max_anchor_branches = 8"
definition max_join_timeout_ms :: nat where "max_join_timeout_ms = 300000"

definition anchor_response :: rstr where "anchor_response = ''anchor.response''"
definition anchor_delivery :: rstr where "anchor_delivery = ''anchor.delivery''"
definition anchor_compaction :: rstr where "anchor_compaction = ''anchor.compaction''"

definition graph_anchors :: "rstr list" where
  "graph_anchors = [anchor_response, anchor_delivery, anchor_compaction]"

datatype edge_kind = Main_Edge | Background_Edge | Capability_Edge

fun edge_kind_str :: "edge_kind \<Rightarrow> rstr" where
  "edge_kind_str Main_Edge = ''main''"
| "edge_kind_str Background_Edge = ''background''"
| "edge_kind_str Capability_Edge = ''capability''"

definition edge_kind_parse :: "rstr \<Rightarrow> edge_kind option" where
  "edge_kind_parse s =
     (if s = ''main'' then Some Main_Edge else if s = ''background'' then Some Background_Edge
      else if s = ''capability'' then Some Capability_Edge else None)"

record graph_node =
  gn_type :: rstr
  gn_version :: nat
  gn_params :: json

record graph_edge =
  ge_from :: rstr
  ge_to :: rstr
  ge_kind :: edge_kind

text \<open>The node map is a \<open>BTreeMap\<close>: its entries in key order.\<close>

record graph_doc =
  gd_version :: nat
  gd_nodes :: "(rstr \<times> graph_node) list"
  gd_edges :: "graph_edge list"

datatype issue_code =
    BadVersion | TooLarge | BadNodeId | UnknownNodeType | UnknownTypeVersion | BadParams
  | DanglingEdge | BackgroundNotFromDelivery | BadCapabilityRef | MainCycle | BadBranching

definition all_issue_codes :: "issue_code list" where
  "all_issue_codes =
     [BadVersion, TooLarge, BadNodeId, UnknownNodeType, UnknownTypeVersion, BadParams,
      DanglingEdge, BackgroundNotFromDelivery, BadCapabilityRef, MainCycle, BadBranching]"

fun issue_code_str :: "issue_code \<Rightarrow> rstr" where
  "issue_code_str BadVersion = ''bad_version''"
| "issue_code_str TooLarge = ''too_large''"
| "issue_code_str BadNodeId = ''bad_node_id''"
| "issue_code_str UnknownNodeType = ''unknown_node_type''"
| "issue_code_str UnknownTypeVersion = ''unknown_type_version''"
| "issue_code_str BadParams = ''bad_params''"
| "issue_code_str DanglingEdge = ''dangling_edge''"
| "issue_code_str BackgroundNotFromDelivery = ''background_not_from_delivery''"
| "issue_code_str BadCapabilityRef = ''bad_capability_ref''"
| "issue_code_str MainCycle = ''main_cycle''"
| "issue_code_str BadBranching = ''bad_branching''"

definition issue_code_parse :: "rstr \<Rightarrow> issue_code option" where
  "issue_code_parse s = find (\<lambda>c. issue_code_str c = s) all_issue_codes"

record graph_issue =
  gi_node :: rstr
  gi_code :: issue_code
  gi_detail :: rstr

section \<open>Parameter specs\<close>

text \<open>
  \<open>str::escape_debug\<close>, the \<open>Debug\<close> text of a string, the text of a number read as \<open>f64\<close>, and the
  length of a serialized value.
\<close>

record text_fns =
  tf_escape :: "rstr \<Rightarrow> rstr"
  tf_debug :: "rstr \<Rightarrow> rstr"
  tf_number :: "json \<Rightarrow> rstr"
  tf_json_len :: "json \<Rightarrow> nat"

fun comma_list :: "rstr list \<Rightarrow> rstr" where
  "comma_list [] = []"
| "comma_list [x] = x"
| "comma_list (x # xs) = x @ '', '' @ comma_list xs"

definition debug_list :: "text_fns \<Rightarrow> rstr list \<Rightarrow> rstr" where
  "debug_list tf xs = ''['' @ comma_list (map (tf_debug tf) xs) @ '']''"

definition tick :: "rstr \<Rightarrow> rstr" where
  "tick s = [CHR 0x60] @ s @ [CHR 0x60]"

datatype param_kind =
    PK_Name | PK_Choice "rstr list" | PK_UInt nat nat | PK_Fraction | PK_Text nat | PK_Bool

record param_spec =
  ps_key :: rstr
  ps_kind :: param_kind
  ps_doc :: rstr

fun as_u64 :: "json \<Rightarrow> nat option" where
  "as_u64 (J_Int i) = (if 0 \<le> i \<and> i \<le> int u64_max then Some (nat i) else None)"
| "as_u64 _ = None"

text \<open>A number in units of \<open>2 ^ -149\<close>; widening an integer to \<open>f64\<close> keeps its place relative to 0 and 1.\<close>

fun number_units :: "json \<Rightarrow> int option" where
  "number_units (J_Int i) = Some (i * 2 ^ 149)"
| "number_units (J_Float x) = Some x"
| "number_units _ = None"

fun type_name :: "json \<Rightarrow> rstr" where
  "type_name J_Null = ''null''"
| "type_name (J_Bool _) = ''bool''"
| "type_name (J_Int _) = ''number''"
| "type_name (J_Float _) = ''number''"
| "type_name (J_Str _) = ''string''"
| "type_name (J_Arr _) = ''array''"
| "type_name (J_Obj _) = ''object''"

definition check_value :: "text_fns \<Rightarrow> param_spec \<Rightarrow> json \<Rightarrow> rstr + unit" where
  "check_value tf spec v =
     (let key = tick (ps_key spec) in
      case ps_kind spec of
        PK_Name \<Rightarrow> (case as_str v of
            None \<Rightarrow> Inl (key @ '' must be a string'')
          | Some s \<Rightarrow> if \<not> safe_segment s
              then Inl (key @ '' is not a valid resource name: '' @ tick (tf_escape tf s)) else Inr ())
      | PK_Choice opts \<Rightarrow> (case as_str v of
            None \<Rightarrow> Inl (key @ '' must be a string'')
          | Some s \<Rightarrow> if s \<notin> set opts
              then Inl (key @ '' must be one of '' @ debug_list tf opts @ '', got '' @ tick (tf_escape tf s))
              else Inr ())
      | PK_UInt lo hi \<Rightarrow> (case as_u64 v of
            None \<Rightarrow> Inl (key @ '' must be a non-negative integer'')
          | Some n \<Rightarrow> if n < lo \<or> n > hi
              then Inl (key @ '' must be in '' @ show_nat lo @ ''..='' @ show_nat hi @ '', got '' @ show_nat n)
              else Inr ())
      | PK_Fraction \<Rightarrow> (case number_units v of
            None \<Rightarrow> Inl (key @ '' must be a number'')
          | Some x \<Rightarrow> if \<not> (0 \<le> x \<and> x \<le> 2 ^ 149)
              then Inl (key @ '' must be within 0..=1, got '' @ tf_number tf v) else Inr ())
      | PK_Text cap \<Rightarrow> (case as_str v of
            None \<Rightarrow> Inl (key @ '' must be a string'')
          | Some s \<Rightarrow> if length s > cap
              then Inl (key @ '' is '' @ show_nat (length s) @ '' bytes (cap '' @ show_nat cap @ '')'')
              else Inr ())
      | PK_Bool \<Rightarrow> (case v of J_Bool _ \<Rightarrow> Inr () | _ \<Rightarrow> Inl (key @ '' must be a boolean'')))"

record node_schema =
  ns_type :: rstr
  ns_version :: nat
  ns_title :: rstr
  ns_doc :: rstr
  ns_inputs :: "(rstr \<times> rstr) list"
  ns_outputs :: "(rstr \<times> rstr) list"
  ns_params_schema :: json

record node_type =
  nt_schema :: node_schema
  nt_params :: "param_spec list"

fun check_params :: "text_fns \<Rightarrow> param_spec list \<Rightarrow> (rstr \<times> json) list \<Rightarrow> rstr + unit" where
  "check_params tf specs [] = Inr ()"
| "check_params tf specs ((k, v) # rest) =
     (case find (\<lambda>s. ps_key s = k) specs of
        None \<Rightarrow> Inl (''unknown param '' @ tick (tf_escape tf k))
      | Some spec \<Rightarrow> bindR (check_value tf spec v) (\<lambda>_. check_params tf specs rest))"

definition validate_params :: "text_fns \<Rightarrow> node_type \<Rightarrow> json \<Rightarrow> rstr + unit" where
  "validate_params tf ty params =
     (case params of
        J_Null \<Rightarrow> Inr ()
      | J_Obj kvs \<Rightarrow> check_params tf (nt_params ty) kvs
      | other \<Rightarrow> Inl (''params must be an object, got '' @ type_name other))"

definition kind_entries :: "param_kind \<Rightarrow> (rstr \<times> json) list" where
  "kind_entries k = (case k of
       PK_Name \<Rightarrow> [(''type'', J_Str ''string'')]
     | PK_Choice opts \<Rightarrow> [(''type'', J_Str ''string''), (''enum'', J_Arr (map J_Str opts))]
     | PK_UInt lo hi \<Rightarrow> [(''type'', J_Str ''integer''), (''minimum'', J_Int (int lo)), (''maximum'', J_Int (int hi))]
     | PK_Fraction \<Rightarrow> [(''type'', J_Str ''number''), (''minimum'', J_Float 0), (''maximum'', J_Float (2 ^ 149))]
     | PK_Text cap \<Rightarrow> [(''type'', J_Str ''string''), (''maxLength'', J_Int (int cap))]
     | PK_Bool \<Rightarrow> [(''type'', J_Str ''boolean'')])"

definition prop_schema :: "param_spec \<Rightarrow> json" where
  "prop_schema s = json_obj ((''description'', J_Str (ps_doc s)) # kind_entries (ps_kind s))"

definition params_schema :: "param_spec list \<Rightarrow> json" where
  "params_schema specs =
     json_obj [(''type'', J_Str ''object''), (''additionalProperties'', J_Bool False),
       (''properties'', json_obj (map (\<lambda>s. (ps_key s, prop_schema s)) specs))]"

section \<open>The built-in registry\<close>

definition node_port :: "rstr \<Rightarrow> rstr \<Rightarrow> rstr \<times> rstr" where
  "node_port name kind = (name, kind)"

definition node_type_entry ::
    "rstr \<Rightarrow> rstr \<Rightarrow> rstr \<Rightarrow> (rstr \<times> rstr) list \<Rightarrow> (rstr \<times> rstr) list \<Rightarrow> param_spec list \<Rightarrow> rstr \<times> node_type" where
  "node_type_entry ty title doc inputs outputs specs =
     (ty, \<lparr>nt_schema = \<lparr>ns_type = ty, ns_version = 1, ns_title = title, ns_doc = doc,
             ns_inputs = inputs, ns_outputs = outputs, ns_params_schema = params_schema specs\<rparr>,
           nt_params = specs\<rparr>)"

definition params_generate :: "param_spec list" where
  "params_generate = [
     \<lparr>ps_key = ''provider'', ps_kind = PK_Name,
       ps_doc = ''Configured provider name; empty = the session'' @
         [CHR 0x27] @
         ''s main provider.''\<rparr>,
     \<lparr>ps_key = ''lens'', ps_kind = PK_Text 2048,
       ps_doc = ''Branch focus appended at the prompt TAIL (cache-safe), e.g. '' @
         [CHR 0x22] @
         ''correctness and strict safety'' @
         [CHR 0x22] @
         ''. Quoted data, never trusted instructions.''\<rparr>]"

definition params_critic_gate :: "param_spec list" where
  "params_critic_gate = [
     \<lparr>ps_key = ''critic'', ps_kind = PK_Name,
       ps_doc = ''Configured provider name of the critic (also attachable via a capability '' @
         ''edge).''\<rparr>,
     \<lparr>ps_key = ''max_rounds'', ps_kind = PK_UInt 1 5,
       ps_doc = ''Generate/critique rounds before the exhaustion policy applies.''\<rparr>,
     \<lparr>ps_key = ''scope'', ps_kind = PK_Choice [''final'', ''every-iteration''],
       ps_doc = ''Gate only final answers, or every completion.''\<rparr>,
     \<lparr>ps_key = ''on_exhaustion'', ps_kind = PK_Choice [''deliver-with-note'', ''fail''],
       ps_doc = ''Deliver-with-note or fail the turn when rounds run out.''\<rparr>]"

definition params_distill_summary :: "param_spec list" where
  "params_distill_summary = [
     \<lparr>ps_key = ''max_tokens'', ps_kind = PK_UInt 16 4096,
       ps_doc = ''Output-token budget for the rolling summary.''\<rparr>,
     \<lparr>ps_key = ''provider'', ps_kind = PK_Name,
       ps_doc = ''Role routing: the provider this distillation uses (also attachable via a '' @
         ''capability edge); empty = the main provider. Background cache work '' @
         [CHR 0xE2, CHR 0x80, CHR 0x94] @
         '' a cheap/local model fits.''\<rparr>]"

definition params_distill_facts :: "param_spec list" where
  "params_distill_facts = [
     \<lparr>ps_key = ''max_tokens'', ps_kind = PK_UInt 16 4096,
       ps_doc = ''Output-token budget for the key-facts extraction.''\<rparr>,
     \<lparr>ps_key = ''provider'', ps_kind = PK_Name,
       ps_doc = ''Role routing: the provider this distillation uses (also attachable via a '' @
         ''capability edge); empty = the main provider.''\<rparr>]"

definition params_objective :: "param_spec list" where
  "params_objective = [
     \<lparr>ps_key = ''max_tokens'', ps_kind = PK_UInt 16 512,
       ps_doc = ''Output-token budget for the current-objective statement.''\<rparr>,
     \<lparr>ps_key = ''provider'', ps_kind = PK_Name,
       ps_doc = ''Role routing: the provider the objective/relevance calls use; empty = the '' @
         ''main provider.''\<rparr>]"

definition params_compact_assemble :: "param_spec list" where
  "params_compact_assemble = [
     \<lparr>ps_key = ''relevance'', ps_kind = PK_Choice [''keyword'', ''llm'', ''all''],
       ps_doc = ''How ledger summaries are selected against the objective.''\<rparr>,
     \<lparr>ps_key = ''min_coverage'', ps_kind = PK_Fraction,
       ps_doc = ''Ledger summaries per user turn required before assembly is trusted.''\<rparr>]"

definition params_split :: "param_spec list" where
  "params_split = [
     \<lparr>ps_key = ''max_branches'', ps_kind = PK_UInt 1 max_split_branches,
       ps_doc = ''Fan-out allowance for this split (out-degree must not exceed it; branches '' @
         ''multiply LLM spend).''\<rparr>]"

definition params_join :: "param_spec list" where
  "params_join = [
     \<lparr>ps_key = ''policy'', ps_kind = PK_Choice [''all'', ''any'', ''quorum''],
       ps_doc = ''Activation: wait for every branch, the first, or '' @
         [CHR 0x60] @
         ''quorum_k'' @
         [CHR 0x60] @
         '' of them; satisfied '' @
         [CHR 0xE2, CHR 0x87, CHR 0x92] @
         '' stragglers are cancelled.''\<rparr>,
     \<lparr>ps_key = ''quorum_k'', ps_kind = PK_UInt 1 max_anchor_branches,
       ps_doc = ''Branches required when policy = quorum.''\<rparr>,
     \<lparr>ps_key = ''timeout_ms'', ps_kind = PK_UInt 1 max_join_timeout_ms,
       ps_doc = ''Wall-clock bound on the wait (clamped server-side).''\<rparr>,
     \<lparr>ps_key = ''on_timeout'', ps_kind = PK_Choice [''partial'', ''fail''],
       ps_doc = ''At the deadline: proceed with the finished branches ('' @
         [CHR 0xE2, CHR 0x89, CHR 0xA5] @
         ''1), or fall back to the anchor'' @
         [CHR 0x27] @
         ''s built-in behavior.''\<rparr>]"

definition params_merge :: "param_spec list" where
  "params_merge = [
     \<lparr>ps_key = ''strategy'', ps_kind = PK_Choice [''compare'', ''synthesize'', ''concat''],
       ps_doc = ''compare = a judge picks the best branch (position-swapped); synthesize = an '' @
         ''aggregator combines the strongest elements; concat = mechanical, no LLM.''\<rparr>,
     \<lparr>ps_key = ''judge'', ps_kind = PK_Name,
       ps_doc = ''Configured provider name of the judge/aggregator (also attachable via a '' @
         ''capability edge). Should be a different model family.''\<rparr>,
     \<lparr>ps_key = ''record_losers'', ps_kind = PK_Bool,
       ps_doc = ''File non-chosen branches as '' @
         [CHR 0x60] @
         ''alternatives'' @
         [CHR 0x60] @
         '' digest rows with a reconsider-when trigger (a forked exploration is never '' @
         ''wasted).''\<rparr>]"

definition builtin_types :: "(rstr \<times> node_type) list" where
  "builtin_types = fold (\<lambda>(k, t). bt_insert k t) [
     node_type_entry ''generate'' ''Generate''
       (''Produce the candidate response from the turn context.'')
       [node_port ''context'' ''context''] [node_port ''response'' ''response''] params_generate,
     node_type_entry ''critic_gate'' ''Consensus gate''
       (''Loop-until node: cross-check the response with a critic model, revising '' @
        ''until agreement (increment 01'' @
        [CHR 0x27] @
        ''s engine).'')
       [node_port ''response'' ''response'', node_port ''critic'' ''llm''] [node_port ''response'' ''response''] params_critic_gate,
     node_type_entry ''distill_summary'' ''Distill: summary''
       (''Background: merge the delivered exchange into the session'' @
        [CHR 0x27] @
        ''s rolling summary row.'')
       [node_port ''exchange'' ''exchange''] [node_port ''digest'' ''digest''] params_distill_summary,
     node_type_entry ''distill_facts'' ''Distill: key facts''
       (''Background: extract durable key facts from the delivered exchange (NO_FACTS '' @
        ''= success without output).'')
       [node_port ''exchange'' ''exchange''] [node_port ''digest'' ''digest''] params_distill_facts,
     node_type_entry ''objective'' ''Current objective''
       (''Summarize the live context'' @
        [CHR 0x27] @
        ''s current objective (filed to the ledger; drives relevance selection).'')
       [node_port ''context'' ''context''] [node_port ''objective'' ''digest''] params_objective,
     node_type_entry ''compact_assemble'' ''Instant compaction''
       (''Assemble the compacted context from pre-computed ledger digests instead of '' @
        ''summarizing on the critical path (increment 03'' @
        [CHR 0x27] @
        ''s strategy).'')
       [node_port ''context'' ''context''] [node_port ''context'' ''context''] params_compact_assemble,
     node_type_entry ''split'' ''Split''
       (''Fork: duplicate the flowing context down each main out-edge as a concurrent '' @
        ''branch (lenses live on the branches'' @
        [CHR 0x27] @
        '' own nodes).'')
       [node_port ''context'' ''context''] [node_port ''branch'' ''context''] params_split,
     node_type_entry ''join'' ''Join''
       (''Fan-in: Go-style wait on the split'' @
        [CHR 0x27] @
        ''s branches per the activation policy; unfinished branches are cancelled once'' @
        '' it is satisfied.'')
       [node_port ''branch'' ''context''] [node_port ''branches'' ''branches''] params_join,
     node_type_entry ''merge'' ''Merge''
       (''Consume the joined branch results into one outcome: pick the best, combine '' @
        ''ideas from several, or concatenate.'')
       [node_port ''branches'' ''branches''] [node_port ''response'' ''response''] params_merge] []"

definition registry_get :: "(rstr \<times> node_type) list \<Rightarrow> rstr \<Rightarrow> node_type option" where
  "registry_get reg ty = map_of reg ty"

definition registry_schemas :: "(rstr \<times> node_type) list \<Rightarrow> node_schema list" where
  "registry_schemas reg = map (\<lambda>(_, t). nt_schema t) reg"

section \<open>The editor's schema\<close>

text \<open>The keywords of a JSON schema that \<open>params_schema\<close> uses, with their draft-07 meaning.\<close>

definition has_json_type :: "rstr \<Rightarrow> json \<Rightarrow> bool" where
  "has_json_type t v \<longleftrightarrow>
     (case v of
        J_Str _ \<Rightarrow> t = ''string'' | J_Bool _ \<Rightarrow> t = ''boolean'' | J_Obj _ \<Rightarrow> t = ''object''
      | J_Int _ \<Rightarrow> t = ''integer'' \<or> t = ''number''
      | J_Float x \<Rightarrow> t = ''number'' \<or> (t = ''integer'' \<and> 2 ^ 149 dvd x)
      | _ \<Rightarrow> False)"

definition bound_admits :: "(int \<Rightarrow> int \<Rightarrow> bool) \<Rightarrow> json option \<Rightarrow> json \<Rightarrow> bool" where
  "bound_admits le b v \<longleftrightarrow>
     (case (Option.bind b number_units, number_units v) of (Some l, Some x) \<Rightarrow> le l x | _ \<Rightarrow> True)"

definition prop_admits :: "json \<Rightarrow> json \<Rightarrow> bool" where
  "prop_admits p v \<longleftrightarrow>
     (case json_get ''type'' p of Some (J_Str t) \<Rightarrow> has_json_type t v | _ \<Rightarrow> True)
     \<and> (case json_get ''enum'' p of Some (J_Arr xs) \<Rightarrow> v \<in> set xs | _ \<Rightarrow> True)
     \<and> bound_admits (\<le>) (json_get ''minimum'' p) v
     \<and> bound_admits (\<ge>) (json_get ''maximum'' p) v
     \<and> (case (json_get ''maxLength'' p, v) of
          (Some (J_Int n), J_Str s) \<Rightarrow> int (char_count s) \<le> n | _ \<Rightarrow> True)"

definition schema_admits :: "json \<Rightarrow> json \<Rightarrow> bool" where
  "schema_admits sch v \<longleftrightarrow>
     (case json_get ''type'' sch of Some (J_Str t) \<Rightarrow> has_json_type t v | _ \<Rightarrow> True)
     \<and> (case v of
          J_Obj kvs \<Rightarrow> list_all (\<lambda>(k, x).
            (case Option.bind (json_get ''properties'' sch) (json_get k) of
               Some p \<Rightarrow> prop_admits p x
             | None \<Rightarrow> json_get ''additionalProperties'' sch \<noteq> Some (J_Bool False))) kvs
        | _ \<Rightarrow> True)"

lemma map_of_fold_insert: "map_of (fold (\<lambda>(k, v). bt_insert k v) kvs m) = map_of m ++ map_of (rev kvs)"
  by (induction kvs arbitrary: m) (auto simp: map_of_bt_insert)

lemma json_get_obj: "json_get k (json_obj kvs) = map_of (rev kvs) k"
  by (simp add: json_obj_def map_of_fold_insert)

lemma map_of_rev_distinct: "distinct (map fst kvs) \<Longrightarrow> map_of (rev kvs) = map_of kvs"
  by (rule map_of_eqI) (auto simp: rev_map[symmetric] distinct_map)

lemma char_count_le: "length s \<le> n \<Longrightarrow> char_count s \<le> n"
proof -
  have "length (str_chars s) \<le> length s"
    by (induction s rule: str_chars.induct) (auto intro: le_trans)
  then show "length s \<le> n \<Longrightarrow> ?thesis" by (simp add: char_count_def)
qed

lemmas prop_schema_defs = check_value_def prop_admits_def prop_schema_def json_get_obj
  kind_entries_def has_json_type_def bound_admits_def Let_def

lemma prop_schema_admits:
  assumes "check_value tf spec v = Inr ()"
  shows "prop_admits (prop_schema spec) v"
  using assms
  by (cases "ps_kind spec"; cases v)
    (auto simp: prop_schema_defs intro: char_count_le split: if_splits)

lemma check_params_ok:
  "check_params tf specs kvs = Inr () \<longleftrightarrow>
    (\<forall>k v. (k, v) \<in> set kvs \<longrightarrow> (\<exists>spec. find (\<lambda>s. ps_key s = k) specs = Some spec \<and> check_value tf spec v = Inr ()))"
proof (induction tf specs kvs rule: check_params.induct)
  case (2 tf specs k v rest)
  then show ?case by (cases "find (\<lambda>s. ps_key s = k) specs") (auto simp: result_simps)
qed simp

lemma find_key: "find (\<lambda>s. ps_key s = k) specs = Some spec \<Longrightarrow> spec \<in> set specs \<and> ps_key spec = k"
  by (auto simp: find_Some_iff)

lemma params_schema_prop:
  assumes "distinct (map ps_key specs)" "spec \<in> set specs"
  shows "Option.bind (json_get ''properties'' (params_schema specs)) (json_get (ps_key spec)) = Some (prop_schema spec)"
proof -
  let ?kvs = "map (\<lambda>s. (ps_key s, prop_schema s)) specs"
  have "distinct (map fst ?kvs)" using assms(1) by (simp add: comp_def)
  then have "map_of (rev ?kvs) (ps_key spec) = Some (prop_schema spec)"
    using assms(2) by (simp add: map_of_rev_distinct)
  then show ?thesis by (simp add: params_schema_def json_get_obj)
qed

lemma params_schema_type: "json_get ''type'' (params_schema specs) = Some (J_Str ''object'')"
  by (simp add: params_schema_def json_get_obj)

lemma builtin_keys:
  "list_all (\<lambda>ps. distinct (map ps_key ps))
     [params_generate, params_critic_gate, params_distill_summary, params_distill_facts,
      params_objective, params_compact_assemble, params_split, params_join, params_merge]"
  by (simp add: params_generate_def params_critic_gate_def params_distill_summary_def
    params_distill_facts_def params_objective_def params_compact_assemble_def params_split_def
    params_join_def params_merge_def)

definition entry_shape :: "rstr \<times> node_type \<Rightarrow> bool" where
  "entry_shape e \<longleftrightarrow> ns_params_schema (nt_schema (snd e)) = params_schema (nt_params (snd e))
     \<and> distinct (map ps_key (nt_params (snd e)))"

lemma node_type_entry_shape: "entry_shape (node_type_entry ty title doc inputs outputs specs) \<longleftrightarrow> distinct (map ps_key specs)"
  by (simp add: entry_shape_def node_type_entry_def)

lemma fold_insert_all:
  assumes "list_all P kvs" "map_of (fold (\<lambda>(k, v). bt_insert k v) kvs []) k = Some v"
  shows "P (k, v)"
  using assms by (auto simp: map_of_fold_insert list_all_iff dest: map_of_SomeD)

lemma builtin_entry_shape:
  assumes "registry_get builtin_types k = Some ty"
  shows "entry_shape (k, ty)"
  using assms unfolding registry_get_def builtin_types_def
  by (rule fold_insert_all[rotated]) (use builtin_keys in \<open>simp add: node_type_entry_shape\<close>)


definition demo_text_fns :: text_fns where
  "demo_text_fns = \<lparr>tf_escape = id, tf_debug = id, tf_number = (\<lambda>_. ''?''), tf_json_len = (\<lambda>_. 2)\<rparr>"

lemma builtin_params: "map_option nt_params (registry_get builtin_types ''merge'') = Some params_merge"
  by (simp add: registry_get_def builtin_types_def map_of_fold_insert node_type_entry_def)


end
