(* ===== verification/Graph_Validate.thy ===== *)
theory Graph_Validate
  imports Graph_Schema
begin

text \<open>
  Load validation of cognition-graph documents, \<open>crates/agent-graph/src/validate.rs\<close>: the caps, the
  per-node and per-edge rules, Kahn's algorithm over the main edges and the fork/join structure.
  Issues are collected in the order the code pushes them.
\<close>

definition issue :: "rstr \<Rightarrow> issue_code \<Rightarrow> rstr \<Rightarrow> graph_issue" where
  "issue node code detail = \<lparr>gi_node = node, gi_code = code, gi_detail = detail\<rparr>"

definition valid_node_id :: "rstr \<Rightarrow> bool" where
  "valid_node_id i \<longleftrightarrow> length i \<le> max_graph_node_id_len \<and> safe_segment i \<and> \<not> starts_with ''anchor.'' i"

section \<open>Document, nodes and edges\<close>

definition doc_issues :: "graph_doc \<Rightarrow> graph_issue list" where
  "doc_issues d =
     (if gd_version d = 0 \<or> gd_version d > graph_version
      then [issue [] BadVersion (''document version '' @ show_nat (gd_version d)
        @ '' not supported (this build understands 1..='' @ show_nat graph_version @ '')'')] else [])
     @ (if length (gd_nodes d) > max_graph_nodes
        then [issue [] TooLarge (show_nat (length (gd_nodes d)) @ '' nodes exceeds the cap of ''
          @ show_nat max_graph_nodes)] else [])
     @ (if length (gd_edges d) > max_graph_edges
        then [issue [] TooLarge (show_nat (length (gd_edges d)) @ '' edges exceeds the cap of ''
          @ show_nat max_graph_edges)] else [])"

definition node_issues :: "text_fns \<Rightarrow> (rstr \<times> node_type) list \<Rightarrow> rstr \<times> graph_node \<Rightarrow> graph_issue list" where
  "node_issues tf reg e =
     (let (i, n) = e; bytes = tf_json_len tf (gn_params n) in
      (if \<not> valid_node_id i
       then [issue i BadNodeId (''node id '' @ tick (tf_escape tf i) @ '' must be a safe segment (''
         @ [CHR 0xE2, CHR 0x89, CHR 0xA4] @ show_nat max_graph_node_id_len
         @ '' chars) outside the reserved '' @ tick ''anchor.'' @ '' namespace'')] else [])
      @ (if bytes > max_graph_params_bytes
         then [issue i TooLarge (''params serialize to '' @ show_nat bytes @ '' bytes (cap ''
           @ show_nat max_graph_params_bytes @ '')'')]
         else (case registry_get reg (gn_type n) of
             None \<Rightarrow> [issue i UnknownNodeType (''unknown node type '' @ tick (tf_escape tf (gn_type n)))]
           | Some ty \<Rightarrow>
               if gn_version n \<noteq> ns_version (nt_schema ty)
               then [issue i UnknownTypeVersion (''type '' @ tick (gn_type n) @ '' version ''
                 @ show_nat (gn_version n) @ '' not supported (registry has ''
                 @ show_nat (ns_version (nt_schema ty)) @ '')'')]
               else (case validate_params tf ty (gn_params n) of
                   Inl detail \<Rightarrow> [issue i BadParams detail] | Inr _ \<Rightarrow> []))))"

definition is_node :: "graph_doc \<Rightarrow> rstr \<Rightarrow> bool" where
  "is_node d i \<longleftrightarrow> i \<in> set (map fst (gd_nodes d))"

definition is_anchor :: "rstr \<Rightarrow> bool" where
  "is_anchor i \<longleftrightarrow> i \<in> set graph_anchors"

definition to_issue :: "text_fns \<Rightarrow> graph_doc \<Rightarrow> graph_edge \<Rightarrow> issue_code \<Rightarrow> rstr \<Rightarrow> graph_issue list" where
  "to_issue tf d e code kind =
     (if \<not> is_node d (ge_to e)
      then [issue (ge_to e) code (kind @ '' '' @ tick ''to'' @ '' '' @ tick (tf_escape tf (ge_to e)) @ '' is not a node'')]
      else [])"

definition edge_issues :: "text_fns \<Rightarrow> graph_doc \<Rightarrow> graph_edge \<Rightarrow> graph_issue list" where
  "edge_issues tf d e =
     (case ge_kind e of
        Main_Edge \<Rightarrow>
          (if \<not> is_node d (ge_from e) \<and> \<not> is_anchor (ge_from e)
           then [issue (ge_from e) DanglingEdge (''main edge '' @ tick ''from'' @ '' ''
             @ tick (tf_escape tf (ge_from e)) @ '' names neither a node nor an anchor'')] else [])
          @ to_issue tf d e DanglingEdge ''main edge''
      | Background_Edge \<Rightarrow>
          (if ge_from e \<noteq> anchor_delivery
           then [issue (ge_from e) BackgroundNotFromDelivery (''background edges hang only off ''
             @ tick anchor_delivery @ '', got '' @ tick (tf_escape tf (ge_from e)))] else [])
          @ to_issue tf d e DanglingEdge ''background edge''
      | Capability_Edge \<Rightarrow>
          (if \<not> safe_segment (ge_from e)
           then [issue (ge_from e) BadCapabilityRef (''capability '' @ tick ''from'' @ '' ''
             @ tick (tf_escape tf (ge_from e)) @ '' is not a valid resource name'')] else [])
          @ to_issue tf d e BadCapabilityRef ''capability'')"

section \<open>The main edges are acyclic\<close>

text \<open>
  The node-to-node main edges in document order. The map \<open>out\<close> of the code lists, for a node, the
  targets of its edges in that order.
\<close>

definition main_edges :: "graph_doc \<Rightarrow> (rstr \<times> rstr) list" where
  "main_edges d = map (\<lambda>e. (ge_from e, ge_to e))
     (filter (\<lambda>e. ge_kind e = Main_Edge \<and> is_node d (ge_from e) \<and> is_node d (ge_to e)) (gd_edges d))"

definition targets :: "(rstr \<times> rstr) list \<Rightarrow> rstr \<Rightarrow> rstr list" where
  "targets es n = map snd (filter (\<lambda>e. fst e = n) es)"

definition indegrees :: "graph_doc \<Rightarrow> (rstr \<times> nat) list" where
  "indegrees d = map (\<lambda>(n, _). (n, length (filter (\<lambda>e. snd e = n) (main_edges d)))) (gd_nodes d)"

definition drop_edge :: "rstr \<Rightarrow> (rstr \<times> nat) list \<Rightarrow> (rstr \<times> nat) list" where
  "drop_edge n m = map (\<lambda>(k, v). (k, if k = n then v - 1 else v)) m"

text \<open>
  The inner loop: each target loses one incoming edge and is pushed when none is left. The stack is
  the \<open>Vec\<close> with its last element in front; \<open>None\<close> is the panic of \<open>expect\<close> or of the subtraction.
\<close>

fun relax :: "rstr list \<Rightarrow> (rstr \<times> nat) list \<Rightarrow> rstr list \<Rightarrow> ((rstr \<times> nat) list \<times> rstr list) option" where
  "relax [] m q = Some (m, q)"
| "relax (x # xs) m q =
     (case map_of m x of
        None \<Rightarrow> None
      | Some 0 \<Rightarrow> None
      | Some (Suc d) \<Rightarrow> relax xs (drop_edge x m) (if d = 0 then x # q else q))"

lemma sum_drop_edge: "sum_list (map snd (drop_edge x m)) \<le> sum_list (map snd m)"
  by (induction m) (auto simp: drop_edge_def)

lemma sum_drop_edge_less:
  "map_of m x = Some (Suc d) \<Longrightarrow> sum_list (map snd (drop_edge x m)) < sum_list (map snd m)"
proof (induction m)
  case (Cons a m)
  then show ?case
    using sum_drop_edge[of x m] by (cases a) (auto simp: drop_edge_def split: if_splits)
qed simp

lemma relax_measure:
  "relax xs m q = Some (m', q') \<Longrightarrow>
    sum_list (map snd m') + length q' \<le> sum_list (map snd m) + length q"
proof (induction xs m q rule: relax.induct)
  case (2 x xs m q)
  then show ?case
    using sum_drop_edge_less[of m x] by (fastforce split: option.splits nat.splits if_splits)
qed simp

function drain :: "(rstr \<times> rstr) list \<Rightarrow> (rstr \<times> nat) list \<Rightarrow> rstr list \<Rightarrow> nat \<Rightarrow> ((rstr \<times> nat) list \<times> nat) option" where
  "drain es m [] seen = Some (m, seen)"
| "drain es m (n # q) seen =
     (case relax (targets es n) m q of
        None \<Rightarrow> None
      | Some (m', q') \<Rightarrow> drain es m' q' (seen + 1))"
  by pat_completeness auto
termination
  by (relation "measure (\<lambda>(_, m, q, _). sum_list (map snd m) + length q)") (auto dest: relax_measure)

definition first_or_empty :: "rstr list \<Rightarrow> rstr" where
  "first_or_empty xs = (case xs of [] \<Rightarrow> [] | x # _ \<Rightarrow> x)"

definition cycle_issues :: "text_fns \<Rightarrow> graph_doc \<Rightarrow> graph_issue list option" where
  "cycle_issues tf d =
     (let m = indegrees d; q = rev (map fst (filter (\<lambda>e. snd e = 0) m)) in
      map_option (\<lambda>(m', seen).
        if seen < length (gd_nodes d)
        then (let cyclic = map fst (filter (\<lambda>e. snd e > 0) m')
              in [issue (first_or_empty cyclic) MainCycle (''main edges form a cycle through '' @ debug_list tf cyclic)])
        else []) (drain (main_edges d) m q 0))"

section \<open>Fork and join\<close>

definition node_type_of :: "graph_doc \<Rightarrow> rstr \<Rightarrow> rstr option" where
  "node_type_of d i = map_option gn_type (map_of (gd_nodes d) i)"

definition out_main :: "graph_doc \<Rightarrow> rstr \<Rightarrow> rstr list" where
  "out_main d i = map ge_to (filter (\<lambda>e. ge_kind e = Main_Edge \<and> ge_from e = i \<and> is_node d (ge_to e)) (gd_edges d))"

definition split_allowed :: "graph_node \<Rightarrow> nat" where
  "split_allowed n = min (case Option.bind (json_get ''max_branches'' (gn_params n)) as_u64 of
       None \<Rightarrow> default_split_branches | Some k \<Rightarrow> k) max_split_branches"

text \<open>The state of the branch walks: the owner of each interior node, and the issues so far.\<close>

type_synonym owners = "(rstr \<times> (rstr \<times> rstr)) list"

record branch_state =
  bs_join :: "rstr option"
  bs_owner :: owners
  bs_issues :: "graph_issue list"

definition push_issue :: "graph_issue \<Rightarrow> branch_state \<Rightarrow> branch_state" where
  "push_issue i st = st\<lparr>bs_issues := bs_issues st @ [i]\<rparr>"

text \<open>
  The loop that walks one branch; \<open>hops\<close> is what is left of the bound \<open>doc.nodes.len()\<close>. A step
  either stops the walk (\<open>Inl\<close>) or goes on along the only edge out (\<open>Inr\<close>).
\<close>

definition reach_join :: "rstr \<Rightarrow> rstr \<Rightarrow> branch_state \<Rightarrow> branch_state" where
  "reach_join split cur st =
     (case bs_join st of
        None \<Rightarrow> st\<lparr>bs_join := Some cur\<rparr>
      | Some j \<Rightarrow> if j \<noteq> cur
          then push_issue (issue split BadBranching (''branches of this split meet at different joins (''
            @ tick j @ '' vs '' @ tick cur @ '') '' @ [CHR 0xE2, CHR 0x80, CHR 0x94] @ '' all branches must share one'')) st
          else st)"

definition branch_next :: "graph_doc \<Rightarrow> rstr \<Rightarrow> rstr \<Rightarrow> branch_state \<Rightarrow> branch_state \<times> rstr option" where
  "branch_next d split cur st =
     (case out_main d cur of
        [n] \<Rightarrow> (st, Some n)
      | [] \<Rightarrow> (push_issue (issue cur BadBranching (''branch from split '' @ tick split
            @ '' dead-ends without reaching a join'')) st, None)
      | _ \<Rightarrow> (push_issue (issue cur BadBranching (''branch node fans out (multiple main out-edges) ''
            @ [CHR 0xE2, CHR 0x80, CHR 0x94] @ '' branches are linear chains in v1'')) st, None))"

definition branch_step :: "graph_doc \<Rightarrow> rstr \<Rightarrow> rstr \<Rightarrow> rstr \<Rightarrow> branch_state \<Rightarrow> branch_state \<times> rstr option" where
  "branch_step d split head cur st =
     (case node_type_of d cur of
        None \<Rightarrow> (st, None)
      | Some ty \<Rightarrow>
          if ty = ''join'' then (reach_join split cur st, None)
          else if ty = ''split''
          then (push_issue (issue cur BadBranching (''nested split inside a branch ''
            @ [CHR 0xE2, CHR 0x80, CHR 0x94] @ '' deferred (one level of fork/join per anchor in v1)'')) st, None)
          else (case map_of (bs_owner st) cur of
              Some (s, h) \<Rightarrow>
                if s \<noteq> split \<or> h \<noteq> head
                then (push_issue (issue cur BadBranching (''node is shared across branches (reached from ''
                  @ tick h @ '' and '' @ tick head @ '') '' @ [CHR 0xE2, CHR 0x80, CHR 0x94]
                  @ '' cross-branch edges are not allowed'')) st, None)
                else branch_next d split cur (st\<lparr>bs_owner := bt_insert cur (split, head) (bs_owner st)\<rparr>)
            | None \<Rightarrow> branch_next d split cur (st\<lparr>bs_owner := bt_insert cur (split, head) (bs_owner st)\<rparr>)))"

fun walk_branch :: "graph_doc \<Rightarrow> rstr \<Rightarrow> rstr \<Rightarrow> nat \<Rightarrow> rstr \<Rightarrow> branch_state \<Rightarrow> branch_state" where
  "walk_branch d split head 0 cur st = st"
| "walk_branch d split head (Suc hops) cur st =
     (case branch_step d split head cur st of
        (st', None) \<Rightarrow> st'
      | (st', Some n) \<Rightarrow> walk_branch d split head hops n st')"

fun walk_heads :: "graph_doc \<Rightarrow> rstr \<Rightarrow> rstr list \<Rightarrow> branch_state \<Rightarrow> branch_state" where
  "walk_heads d split [] st = st"
| "walk_heads d split (h # hs) st =
     walk_heads d split hs (walk_branch d split h (length (gd_nodes d)) h st)"

record fork_state =
  fs_total :: nat
  fs_owner :: owners
  fs_joins :: "(rstr \<times> nat) list"
  fs_issues :: "graph_issue list"

definition fork_push :: "graph_issue list \<Rightarrow> fork_state \<Rightarrow> fork_state" where
  "fork_push is fs = fs\<lparr>fs_issues := fs_issues fs @ is\<rparr>"

text \<open>What follows the walks once a join was met: its merge, and a quorum that can be reached.\<close>

definition merge_issues :: "graph_doc \<Rightarrow> rstr \<Rightarrow> graph_issue list" where
  "merge_issues d join =
     (case out_main d join of
        [m] \<Rightarrow> if node_type_of d m = Some ''merge'' then []
          else [issue join BadBranching (''a join'' @ [CHR 0x27] @ ''s single main successor must be a merge node'')]
      | _ \<Rightarrow> [issue join BadBranching (''a join'' @ [CHR 0x27] @ ''s single main successor must be a merge node'')])"

definition quorum_issues :: "graph_doc \<Rightarrow> rstr \<Rightarrow> nat \<Rightarrow> graph_issue list" where
  "quorum_issues d join branches =
     (case map_of (gd_nodes d) join of
        None \<Rightarrow> []
      | Some n \<Rightarrow>
          if Option.bind (json_get ''policy'' (gn_params n)) as_str = Some ''quorum''
          then (case Option.bind (json_get ''quorum_k'' (gn_params n)) as_u64 of
              None \<Rightarrow> [issue join BadBranching ''policy = quorum requires quorum_k'']
            | Some k \<Rightarrow> if k \<le> branches then []
                else [issue join BadBranching (''quorum_k = '' @ show_nat k @ '' exceeds the ''
                  @ show_nat branches @ '' branches'')])
          else [])"

definition split_step :: "graph_doc \<Rightarrow> rstr \<times> graph_node \<Rightarrow> fork_state \<Rightarrow> fork_state" where
  "split_step d e fs =
     (let (split, n) = e; heads = out_main d split; allowed = split_allowed n in
      if heads = []
      then fork_push [issue split BadBranching ''split has no outgoing main edges (no branches)''] fs
      else if length heads > allowed
      then fork_push [issue split BadBranching (''split fans out '' @ show_nat (length heads)
        @ '' branches (allowed '' @ show_nat allowed @ '', hard ceiling '' @ show_nat max_split_branches @ '')'')] fs
      else
        (let st = walk_heads d split heads \<lparr>bs_join = None, bs_owner = fs_owner fs, bs_issues = fs_issues fs\<rparr>;
             fs = fs\<lparr>fs_total := fs_total fs + length heads, fs_owner := bs_owner st, fs_issues := bs_issues st\<rparr>
         in case bs_join st of
              None \<Rightarrow> fs
            | Some join \<Rightarrow> fork_push (merge_issues d join @ quorum_issues d join (length heads))
                (fs\<lparr>fs_joins := bt_insert join (length heads) (fs_joins fs)\<rparr>)))"

definition splits_of :: "graph_doc \<Rightarrow> (rstr \<times> graph_node) list" where
  "splits_of d = filter (\<lambda>(_, n). gn_type n = ''split'') (gd_nodes d)"

definition walk_splits :: "graph_doc \<Rightarrow> graph_issue list \<Rightarrow> fork_state" where
  "walk_splits d is = fold (split_step d) (splits_of d)
     \<lparr>fs_total = 0, fs_owner = [], fs_joins = [], fs_issues = is\<rparr>"

definition orphan_issues :: "graph_doc \<Rightarrow> (rstr \<times> nat) list \<Rightarrow> rstr \<times> graph_node \<Rightarrow> graph_issue list" where
  "orphan_issues d joins e =
     (let (i, n) = e in
      if gn_type n = ''join'' \<and> map_of joins i = None
      then [issue i BadBranching (''join is not reached by any split'' @ [CHR 0x27] @ ''s branches'')]
      else if gn_type n = ''merge''
      then (case map ge_from (filter (\<lambda>e. ge_kind e = Main_Edge \<and> ge_to e = i) (gd_edges d)) of
          [f] \<Rightarrow> if node_type_of d f = Some ''join'' then []
            else [issue i BadBranching ''merge must be fed by exactly one join'']
        | _ \<Rightarrow> [issue i BadBranching ''merge must be fed by exactly one join''])
      else [])"

definition validate_branching :: "graph_doc \<Rightarrow> graph_issue list \<Rightarrow> graph_issue list" where
  "validate_branching d is =
     (let fs = walk_splits d is in
      fs_issues fs
      @ (if fs_total fs > max_anchor_branches
         then [issue [] BadBranching (show_nat (fs_total fs) @ '' total branches exceeds the document cap of ''
           @ show_nat max_anchor_branches)] else [])
      @ concat (map (orphan_issues d (fs_joins fs)) (gd_nodes d)))"

text \<open>\<open>None\<close> is a panic inside the drain loop; \<open>validate_total\<close> below excludes it.\<close>

definition graph_validate :: "text_fns \<Rightarrow> graph_doc \<Rightarrow> (rstr \<times> node_type) list \<Rightarrow> graph_issue list option" where
  "graph_validate tf d reg =
     map_option (\<lambda>cyc. validate_branching d
       (doc_issues d @ concat (map (node_issues tf reg) (gd_nodes d))
        @ concat (map (edge_issues tf d) (gd_edges d)) @ cyc)) (cycle_issues tf d)"

end
