(* ===== verification/Graph_Acyclic.thy ===== *)
theory Graph_Acyclic
  imports Graph_Validate
begin

text \<open>
  The cycle check of \<open>crates/agent-graph/src/validate.rs\<close>: the drain loop never panics and reports a
  cycle exactly when the main edges between nodes have one.
\<close>

section \<open>One turn of the drain loop\<close>

lemma map_of_drop_edge:
  "map_of (drop_edge x m) v = map_option (\<lambda>k. if v = x then k - 1 else k) (map_of m v)"
  by (induction m) (auto simp: drop_edge_def)

lemma keys_drop_edge: "map fst (drop_edge x m) = map fst m"
  by (simp add: drop_edge_def case_prod_beta comp_def)

lemma relax_runs:
  assumes "\<forall>v \<in> set xs. \<exists>k. map_of m v = Some k \<and> count_list xs v \<le> k"
  shows "\<exists>m' new. relax xs m q = Some (m', new @ q) \<and> map fst m' = map fst m
    \<and> (\<forall>v. map_of m' v = map_option (\<lambda>k. k - count_list xs v) (map_of m v))
    \<and> distinct new \<and> set new = {v \<in> set xs. map_of m v = Some (count_list xs v)}"
  using assms
proof (induction xs arbitrary: m q)
  case Nil
  then show ?case by (simp add: option.map_ident)
next
  case (Cons x xs)
  obtain d where d: "map_of m x = Some (Suc d)" "count_list xs x \<le> d"
    using Cons.prems by (metis count_list.simps(2) list.set_intros(1) Suc_le_D Suc_eq_plus1 Suc_le_mono)
  let ?m = "drop_edge x m" and ?q = "if d = 0 then x # q else q"
  have pre: "\<forall>v \<in> set xs. \<exists>k. map_of ?m v = Some k \<and> count_list xs v \<le> k"
  proof
    fix v assume v: "v \<in> set xs"
    show "\<exists>k. map_of ?m v = Some k \<and> count_list xs v \<le> k"
      using Cons.prems v d by (cases "v = x") (auto simp: map_of_drop_edge)
  qed
  obtain m' new where ih: "relax xs ?m ?q = Some (m', new @ ?q)" "map fst m' = map fst ?m"
    "\<forall>v. map_of m' v = map_option (\<lambda>k. k - count_list xs v) (map_of ?m v)"
    "distinct new" "set new = {v \<in> set xs. map_of ?m v = Some (count_list xs v)}"
    using Cons.IH[OF pre, of ?q] by blast
  define new1 where "new1 = (if d = 0 then new @ [x] else new)"
  have run: "relax (x # xs) m q = Some (m', new1 @ q)"
    using ih(1) d(1) by (simp add: new1_def)
  have maps: "\<forall>v. map_of m' v = map_option (\<lambda>k. k - count_list (x # xs) v) (map_of m v)"
    using ih(3) by (auto simp: map_of_drop_edge option.map_comp comp_def intro!: option.map_cong)
  have count0: "count_list xs x = 0 \<longleftrightarrow> x \<notin> set xs" by (simp add: count_list_0_iff)
  have x_new: "x \<in> set new \<longleftrightarrow> x \<in> set xs \<and> d = count_list xs x"
    using ih(5) d(1) by (simp add: map_of_drop_edge)
  have "set new1 = {v \<in> set (x # xs). map_of m v = Some (count_list (x # xs) v)}"
  proof (rule set_eqI)
    fix v
    show "v \<in> set new1 \<longleftrightarrow> v \<in> {v \<in> set (x # xs). map_of m v = Some (count_list (x # xs) v)}"
    proof (cases "v = x")
      case True
      then show ?thesis using x_new d count0 by (auto simp: new1_def)
    next
      case False
      then have "v \<in> set new1 \<longleftrightarrow> v \<in> set new" by (simp add: new1_def)
      then show ?thesis using False ih(5) by (auto simp: map_of_drop_edge)
    qed
  qed
  moreover have "distinct new1"
    using ih(4) x_new d(2) count0 by (auto simp: new1_def)
  ultimately show ?case using run maps ih(2) by (auto simp: keys_drop_edge)
qed

section \<open>The invariant of the drain loop\<close>

definition pending :: "(rstr \<times> rstr) list \<Rightarrow> rstr set \<Rightarrow> rstr \<Rightarrow> nat" where
  "pending es D v = length (filter (\<lambda>e. snd e = v \<and> fst e \<notin> D) es)"

definition drain_inv :: "(rstr \<times> rstr) list \<Rightarrow> rstr list \<Rightarrow> rstr set \<Rightarrow> (rstr \<times> nat) list \<Rightarrow> rstr list \<Rightarrow> nat \<Rightarrow> bool" where
  "drain_inv es ns D m q seen \<longleftrightarrow>
     map fst m = ns \<and> D \<subseteq> set ns \<and> set q \<subseteq> set ns \<and> D \<inter> set q = {} \<and> distinct q \<and> seen = card D
     \<and> (\<forall>v \<in> set ns. map_of m v = Some (pending es D v))
     \<and> (\<forall>v \<in> set ns. pending es D v = 0 \<longleftrightarrow> v \<in> D \<union> set q)
     \<and> D \<subseteq> Wellfounded.acc (set es)"

lemma pending_insert:
  "n \<notin> D \<Longrightarrow> pending es D v = pending es (insert n D) v + count_list (targets es n) v"
  by (induction es) (auto simp: pending_def targets_def)

lemma pending_0: "pending es D v = 0 \<longleftrightarrow> (\<forall>u. (u, v) \<in> set es \<longrightarrow> u \<in> D)"
  by (auto simp: pending_def filter_empty_conv)

lemma drain_inv_step:
  assumes inv: "drain_inv es ns D m (n # q) seen" and edges: "set es \<subseteq> set ns \<times> set ns"
  shows "\<exists>m' q'. relax (targets es n) m q = Some (m', q') \<and> drain_inv es ns (insert n D) m' q' (seen + 1)"
proof -
  have n: "n \<in> set ns" "n \<notin> D" "n \<notin> set q" and fin: "finite D"
    using inv by (auto simp: drain_inv_def intro: finite_subset)
  have deg: "map_of m v = Some (pending es D v)" if "v \<in> set ns" for v
    using inv that by (simp add: drain_inv_def)
  have zero: "pending es D v = 0 \<longleftrightarrow> v \<in> D \<union> set (n # q)" if "v \<in> set ns" for v
    using inv that by (simp add: drain_inv_def)
  have in_ns: "v \<in> set ns" if "v \<in> set (targets es n)" for v
    using that edges by (auto simp: targets_def)
  have pre: "\<forall>v \<in> set (targets es n). \<exists>k. map_of m v = Some k \<and> count_list (targets es n) v \<le> k"
    using deg in_ns pending_insert[OF n(2), of es] by fastforce
  obtain m' new where r: "relax (targets es n) m q = Some (m', new @ q)" "map fst m' = map fst m"
    "\<forall>v. map_of m' v = map_option (\<lambda>k. k - count_list (targets es n) v) (map_of m v)"
    "distinct new" "set new = {v \<in> set (targets es n). map_of m v = Some (count_list (targets es n) v)}"
    using relax_runs[OF pre, of q] by blast
  have deg': "map_of m' v = Some (pending es (insert n D) v)" if "v \<in> set ns" for v
    using r(3) deg[OF that] pending_insert[OF n(2), of es v] by simp
  have new: "v \<in> set new \<longleftrightarrow> v \<in> set ns \<and> pending es (insert n D) v = 0 \<and> pending es D v \<noteq> 0" for v
  proof
    assume v: "v \<in> set new"
    then have t: "v \<in> set (targets es n)" "map_of m v = Some (count_list (targets es n) v)" using r(5) by auto
    then have "pending es D v = count_list (targets es n) v" using deg[OF in_ns[OF t(1)]] by simp
    then show "v \<in> set ns \<and> pending es (insert n D) v = 0 \<and> pending es D v \<noteq> 0"
      using pending_insert[OF n(2), of es v] t(1) in_ns count_list_0_iff[of "targets es n" v] by auto
  next
    assume v: "v \<in> set ns \<and> pending es (insert n D) v = 0 \<and> pending es D v \<noteq> 0"
    then have c: "pending es D v = count_list (targets es n) v" using pending_insert[OF n(2), of es v] by simp
    then have "v \<in> set (targets es n)" using v count_list_0_iff[of "targets es n" v] by auto
    then show "v \<in> set new" using r(5) deg v c by auto
  qed
  have zero': "pending es (insert n D) v = 0 \<longleftrightarrow> v \<in> insert n D \<union> set (new @ q)" if "v \<in> set ns" for v
    using new[of v] zero[OF that] that pending_insert[OF n(2), of es v] by auto
  have "n \<in> Wellfounded.acc (set es)"
  proof (rule accI)
    fix u assume "(u, n) \<in> set es"
    then have "u \<in> D" using zero[OF n(1)] by (auto simp: pending_0)
    then show "u \<in> Wellfounded.acc (set es)" using inv by (auto simp: drain_inv_def)
  qed
  moreover have "v \<notin> insert n D \<union> set q" "v \<in> set ns" if "v \<in> set new" for v
    using that new[of v] zero[of v] by auto
  then have "set new \<inter> (insert n D \<union> set q) = {}" "set new \<subseteq> set ns" by blast+
  ultimately have "drain_inv es ns (insert n D) m' (new @ q) (seen + 1)"
    using inv r(2,4) deg' zero' n fin unfolding drain_inv_def by auto
  then show ?thesis using r(1) by blast
qed

lemma drain_runs:
  assumes "drain_inv es ns D m q seen" "set es \<subseteq> set ns \<times> set ns"
  shows "\<exists>m' D' k. drain es m q seen = Some (m', k) \<and> drain_inv es ns D' m' [] k"
  using assms
proof (induction es m q seen arbitrary: D rule: drain.induct)
  case (1 es m seen)
  then show ?case by auto
next
  case (2 es m n q seen)
  obtain m' q' where "relax (targets es n) m q = Some (m', q')" "drain_inv es ns (insert n D) m' q' (seen + 1)"
    using drain_inv_step[OF "2.prems"] by blast
  then show ?case using "2.IH"[of "(m', q')" m' q'] "2.prems"(2) by simp
qed

text \<open>When the stack is empty, everything was served exactly when there is no cycle.\<close>

lemma drained_iff:
  assumes inv: "drain_inv es ns D m [] k" and edges: "set es \<subseteq> set ns \<times> set ns" and ns: "distinct ns"
  shows "k < length ns \<longleftrightarrow> \<not> acyclic (set es)"
proof -
  have D: "D \<subseteq> set ns" "k = card D" "D \<subseteq> Wellfounded.acc (set es)"
    and zero: "\<And>v. v \<in> set ns \<Longrightarrow> (\<forall>u. (u, v) \<in> set es \<longrightarrow> u \<in> D) \<longleftrightarrow> v \<in> D"
    using inv by (auto simp: drain_inv_def pending_0)
  have card: "k < length ns \<longleftrightarrow> D \<noteq> set ns"
    using D(1,2) ns psubset_card_mono[of "set ns" D] by (auto simp: distinct_card)
  have "D = set ns" if "acyclic (set es)"
  proof -
    have wf: "wf (set es)" using that by (simp add: finite_acyclic_wf)
    have "v \<in> set ns \<longrightarrow> v \<in> D" for v
      by (induction v rule: wf_induct_rule[OF wf]) (use zero edges in blast)
    then show ?thesis using D(1) by blast
  qed
  moreover have "acyclic (set es)" if all: "D = set ns"
  proof -
    have "x \<in> Wellfounded.acc (set es)" for x
    proof (cases "x \<in> set ns")
      case True
      then show ?thesis using D(3) all by blast
    next
      case False
      then have "(y, x) \<notin> set es" for y using edges by blast
      then show ?thesis using accI[of x "set es"] by blast
    qed
    then show ?thesis by (simp add: wf_acyclic wf_iff_acc)
  qed
  ultimately show ?thesis using card by blast
qed

lemma main_edges_nodes: "set (main_edges d) \<subseteq> set (map fst (gd_nodes d)) \<times> set (map fst (gd_nodes d))"
  by (auto simp: main_edges_def is_node_def)

lemma drain_start:
  assumes "distinct (map fst (gd_nodes d))"
  shows "drain_inv (main_edges d) (map fst (gd_nodes d)) {} (indegrees d)
    (rev (map fst (filter (\<lambda>e. snd e = 0) (indegrees d)))) 0"
proof -
  let ?es = "main_edges d"
  have keys: "map fst (indegrees d) = map fst (gd_nodes d)" by (simp add: indegrees_def case_prod_beta comp_def)
  have mem: "(v, k) \<in> set (indegrees d) \<longleftrightarrow> v \<in> set (map fst (gd_nodes d)) \<and> k = pending ?es {} v" for v k
    unfolding indegrees_def pending_def case_prod_beta by (auto simp: image_iff)
  have "distinct (map fst (filter (\<lambda>e. snd e = 0) (indegrees d)))"
    using assms keys by (metis distinct_map_filter)
  moreover have "map_of (indegrees d) v = Some (pending ?es {} v)" if "v \<in> set (map fst (gd_nodes d))" for v
    using that mem assms keys by (intro map_of_is_SomeI) auto
  ultimately show ?thesis
    using keys mem by (auto simp: drain_inv_def image_iff)
qed

lemma cycle_issues_iff:
  assumes "distinct (map fst (gd_nodes d))"
  shows "\<exists>is. cycle_issues tf d = Some is \<and> (is = [] \<longleftrightarrow> acyclic (set (main_edges d)))
    \<and> list_all (\<lambda>i. gi_code i = MainCycle) is"
proof -
  obtain m D k where k: "drain (main_edges d) (indegrees d) (rev (map fst (filter (\<lambda>e. snd e = 0) (indegrees d)))) 0 = Some (m, k)"
    "drain_inv (main_edges d) (map fst (gd_nodes d)) D m [] k"
    using drain_runs[OF drain_start[OF assms] main_edges_nodes] by blast
  have "k < length (gd_nodes d) \<longleftrightarrow> \<not> acyclic (set (main_edges d))"
    using drained_iff[OF k(2) main_edges_nodes assms] by simp
  then show ?thesis using k(1) by (auto simp: cycle_issues_def Let_def issue_def)
qed

end
