(* ===== verification/Graph_Branches.thy ===== *)
theory Graph_Branches
  imports Graph_Acyclic
begin

text \<open>
  What an accepted cognition graph is worth (\<open>crates/agent-graph/src/validate.rs\<close>): the fork and
  join structure the executor relies on, and the completeness of the cycle report in the whole
  list of issues.
\<close>

section \<open>Branch issues only accumulate\<close>

definition bad_branch :: "graph_issue list \<Rightarrow> bool" where
  "bad_branch is \<longleftrightarrow> list_all (\<lambda>i. gi_code i = BadBranching) is"

definition adds :: "graph_issue list \<Rightarrow> graph_issue list \<Rightarrow> bool" where
  "adds is is' \<longleftrightarrow> (\<exists>extra. is' = is @ extra \<and> bad_branch extra)"

lemma adds_refl [simp]: "adds is is"
  by (auto simp: adds_def bad_branch_def)

lemma adds_trans: "adds a b \<Longrightarrow> adds b c \<Longrightarrow> adds a c"
  by (fastforce simp: adds_def bad_branch_def)

lemma adds_append [simp]: "adds is (is @ extra) \<longleftrightarrow> bad_branch extra"
  by (auto simp: adds_def)

lemma adds_same: "adds a b \<Longrightarrow> adds b c \<Longrightarrow> c = a \<Longrightarrow> b = a"
  by (auto simp: adds_def)

lemma bad_branch_simps [simp]: "bad_branch []" "bad_branch (issue n c s # a) \<longleftrightarrow> c = BadBranching \<and> bad_branch a"
  "bad_branch (a @ b) \<longleftrightarrow> bad_branch a \<and> bad_branch b"
  by (simp_all add: bad_branch_def issue_def)

lemma push_issue_simps [simp]:
  "bs_issues (push_issue i st) = bs_issues st @ [i]" "bs_join (push_issue i st) = bs_join st"
  "bs_owner (push_issue i st) = bs_owner st"
  by (simp_all add: push_issue_def)

lemma branch_step_adds: "branch_step d s h cur st = (st', r) \<Longrightarrow> adds (bs_issues st) (bs_issues st')"
  by (auto simp: branch_step_def branch_next_def reach_join_def split: option.splits if_splits list.splits)

lemma walk_branch_adds: "adds (bs_issues st) (bs_issues (walk_branch d s h k cur st))"
proof (induction d s h k cur st rule: walk_branch.induct)
  case (2 d s h k cur st)
  obtain st' r where st: "branch_step d s h cur st = (st', r)" by fastforce
  then show ?case
    using 2[OF st[symmetric]] branch_step_adds[OF st] by (cases r) (auto intro: adds_trans)
qed simp

lemma walk_heads_adds: "adds (bs_issues st) (bs_issues (walk_heads d s hs st))"
  by (induction d s hs st rule: walk_heads.induct) (auto intro: adds_trans walk_branch_adds)

lemma merge_issues_bad: "bad_branch (merge_issues d j)"
  by (auto simp: merge_issues_def split: list.splits)

lemma quorum_issues_bad: "bad_branch (quorum_issues d j k)"
  by (auto simp: quorum_issues_def split: option.splits)

lemma split_step_adds: "adds (fs_issues fs) (fs_issues (split_step d e fs))"
proof -
  obtain s n where e: "e = (s, n)" by fastforce
  note w = walk_heads_adds[of "\<lparr>bs_join = None, bs_owner = fs_owner fs, bs_issues = fs_issues fs\<rparr>" d s "out_main d s", simplified]
  show ?thesis
    unfolding e split_step_def Let_def prod.case
    using w adds_trans[OF w] merge_issues_bad quorum_issues_bad
    by (auto simp: fork_push_def split: option.splits)
qed

lemma fold_split_adds: "adds (fs_issues fs) (fs_issues (fold (split_step d) es fs))"
proof (induction es arbitrary: fs)
  case (Cons e es)
  show ?case using adds_trans[OF split_step_adds[of fs d e] Cons.IH] by simp
qed simp

lemma walk_splits_adds: "adds is (fs_issues (walk_splits d is))"
  using fold_split_adds[of "\<lparr>fs_total = 0, fs_owner = [], fs_joins = [], fs_issues = is\<rparr>"]
  by (simp add: walk_splits_def)

lemma orphan_issues_bad: "bad_branch (orphan_issues d joins e)"
  by (auto simp: orphan_issues_def case_prod_beta split: list.splits)

lemma bad_branch_concat: "(\<And>x. bad_branch (f x)) \<Longrightarrow> bad_branch (concat (map f xs))"
  by (induction xs) simp_all

lemma validate_branching_adds: "adds is (validate_branching d is)"
  unfolding validate_branching_def Let_def
  by (rule adds_trans[OF walk_splits_adds[of _ d]]) (simp add: bad_branch_concat orphan_issues_bad)

section \<open>The cycle report\<close>

definition no_cycle_code :: "graph_issue list \<Rightarrow> bool" where
  "no_cycle_code is \<longleftrightarrow> list_all (\<lambda>i. gi_code i \<noteq> MainCycle) is"

lemma no_cycle_code_simps [simp]: "no_cycle_code []" "no_cycle_code (a @ b) \<longleftrightarrow> no_cycle_code a \<and> no_cycle_code b"
  "no_cycle_code (issue n c s # a) \<longleftrightarrow> c \<noteq> MainCycle \<and> no_cycle_code a"
  by (simp_all add: no_cycle_code_def issue_def)

lemma no_cycle_code_concat: "(\<And>x. no_cycle_code (f x)) \<Longrightarrow> no_cycle_code (concat (map f xs))"
  by (induction xs) simp_all

lemma early_no_cycle: "no_cycle_code (doc_issues d)" "no_cycle_code (node_issues tf reg e)"
  "no_cycle_code (edge_issues tf d g)"
  by (auto simp: doc_issues_def node_issues_def edge_issues_def to_issue_def case_prod_beta Let_def
    split: option.splits sum.splits edge_kind.splits)

lemma bad_branch_no_cycle: "bad_branch is \<Longrightarrow> no_cycle_code is"
  by (auto simp: bad_branch_def no_cycle_code_def list_all_iff)

text \<open>
  Property C17: validation always returns a list of issues (the drain loop of the cycle check never
  meets a missing node or a count below zero), and the list names a cycle exactly when the main
  edges between nodes have one.
\<close>

theorem main_cycle_reported:
  assumes "bt_wf (gd_nodes d)"
  shows "\<exists>is. graph_validate tf d reg = Some is
    \<and> ((\<exists>i \<in> set is. gi_code i = MainCycle) \<longleftrightarrow> \<not> acyclic (set (main_edges d)))"
proof -
  obtain cyc where c: "cycle_issues tf d = Some cyc" "cyc = [] \<longleftrightarrow> acyclic (set (main_edges d))"
    "list_all (\<lambda>i. gi_code i = MainCycle) cyc"
    using cycle_issues_iff bt_distinct[OF assms] by blast
  let ?early = "doc_issues d @ concat (map (node_issues tf reg) (gd_nodes d)) @ concat (map (edge_issues tf d) (gd_edges d))"
  obtain extra where m: "graph_validate tf d reg = Some (?early @ cyc @ extra)" "bad_branch extra"
    using validate_branching_adds[of "?early @ cyc" d] c(1) by (auto simp: graph_validate_def adds_def)
  have "no_cycle_code ?early" by (simp add: early_no_cycle no_cycle_code_concat)
  then have "(\<exists>i \<in> set (?early @ cyc @ extra). gi_code i = MainCycle) \<longleftrightarrow> cyc \<noteq> []"
    using c(3) bad_branch_no_cycle[OF m(2)] by (cases cyc) (auto simp: no_cycle_code_def list_all_iff)
  then show ?thesis using m(1) c(2) by auto
qed

section \<open>Quiet walks are linear chains to a join\<close>

text \<open>From node \<open>x\<close> the branch passes exactly the nodes of a list, one edge out each, and meets \<open>j\<close>.\<close>

fun chain :: "graph_doc \<Rightarrow> rstr \<Rightarrow> rstr list \<Rightarrow> rstr \<Rightarrow> bool" where
  "chain d x [] j \<longleftrightarrow> x = j \<and> node_type_of d x = Some ''join''"
| "chain d x (y # ys) j \<longleftrightarrow> x = y \<and> (\<exists>ty. node_type_of d x = Some ty \<and> ty \<noteq> ''join'' \<and> ty \<noteq> ''split'')
     \<and> (\<exists>n. out_main d x = [n] \<and> chain d n ys j)"

definition owns :: "owners \<Rightarrow> owners \<Rightarrow> bool" where
  "owns a b \<longleftrightarrow> (\<forall>x v. map_of a x = Some v \<longrightarrow> map_of b x = Some v)"

lemma owns_refl [simp]: "owns a a"
  by (simp add: owns_def)

lemma owns_trans: "owns a b \<Longrightarrow> owns b c \<Longrightarrow> owns a c"
  by (simp add: owns_def)

lemma is_node_map: "is_node d x \<longleftrightarrow> (\<exists>ty. node_type_of d x = Some ty)"
  by (cases "map_of (gd_nodes d) x")
    (force simp: is_node_def node_type_of_def map_of_eq_None_iff dest: map_of_SomeD)+

lemma out_main_edge:
  assumes "y \<in> set (out_main d x)" "is_node d x"
  shows "(x, y) \<in> set (main_edges d)" "is_node d y"
  using assms by (auto simp: out_main_def main_edges_def)

lemma branch_next_quiet:
  assumes "branch_next d s cur st = (st', r)" "bs_issues st' = bs_issues st"
  shows "\<exists>n. out_main d cur = [n] \<and> r = Some n \<and> st' = st"
  using assms by (auto simp: branch_next_def split: list.splits)

lemma branch_step_quiet:
  assumes "branch_step d s h cur st = (st', r)" "bs_issues st' = bs_issues st" "is_node d cur"
  shows "(r = None \<and> node_type_of d cur = Some ''join'' \<and> bs_owner st' = bs_owner st
      \<and> bs_join st \<in> {None, Some cur} \<and> bs_join st' = Some cur)
    \<or> (\<exists>n ty. r = Some n \<and> node_type_of d cur = Some ty \<and> ty \<noteq> ''join'' \<and> ty \<noteq> ''split''
      \<and> out_main d cur = [n] \<and> bs_join st' = bs_join st
      \<and> bs_owner st' = bt_insert cur (s, h) (bs_owner st) \<and> owns (bs_owner st) (bs_owner st'))"
proof -
  obtain ty where ty: "node_type_of d cur = Some ty" using assms(3) is_node_map by blast
  consider (join) "ty = ''join''" | (split) "ty = ''split''" | (other) "ty \<noteq> ''join''" "ty \<noteq> ''split''" by blast
  then show ?thesis
  proof cases
    case join
    then show ?thesis
      using assms(1,2) ty by (auto simp: branch_step_def reach_join_def split: option.splits if_splits)
  next
    case split
    then show ?thesis using assms(1,2) ty by (auto simp: branch_step_def)
  next
    case other
    let ?st = "st\<lparr>bs_owner := bt_insert cur (s, h) (bs_owner st)\<rparr>"
    have own: "map_of (bs_owner st) cur \<in> {None, Some (s, h)}" and nx: "branch_next d s cur ?st = (st', r)"
      using assms(1,2) ty other by (auto simp: branch_step_def split: option.splits if_splits)
    obtain n where "out_main d cur = [n]" "r = Some n" "st' = ?st"
      using branch_next_quiet[OF nx] assms(2) by auto
    then show ?thesis using ty other own by (auto simp: owns_def map_of_bt_insert)
  qed
qed

lemma walk_quiet:
  assumes "bs_issues (walk_branch d s h k cur st) = bs_issues st" "is_node d cur"
  shows "(\<exists>ys. length ys = k \<and> successively (\<lambda>x y. (x, y) \<in> set (main_edges d)) (cur # ys))
    \<or> (\<exists>path j. chain d cur path j \<and> bs_join st \<in> {None, Some j}
        \<and> bs_join (walk_branch d s h k cur st) = Some j
        \<and> (\<forall>x \<in> set path. map_of (bs_owner (walk_branch d s h k cur st)) x = Some (s, h))
        \<and> owns (bs_owner st) (bs_owner (walk_branch d s h k cur st)))"
  using assms
proof (induction d s h k cur st rule: walk_branch.induct)
  case (2 d s h k cur st)
  obtain st' r where step: "branch_step d s h cur st = (st', r)" by fastforce
  show ?case
  proof (cases r)
    case None
    then show ?thesis
      using branch_step_quiet[OF step] "2.prems" step by (intro disjI2 exI[of _ "[]"] exI[of _ cur]) auto
  next
    case (Some n)
    have w: "walk_branch d s h (Suc k) cur st = walk_branch d s h k n st'" using step Some by simp
    have q: "bs_issues st' = bs_issues st"
      using adds_same[OF branch_step_adds[OF step] walk_branch_adds[of st' d s h k n]] "2.prems"(1) w by simp
    obtain ty where ty: "node_type_of d cur = Some ty" "ty \<noteq> ''join''" "ty \<noteq> ''split''" "out_main d cur = [n]"
      "bs_join st' = bs_join st" "bs_owner st' = bt_insert cur (s, h) (bs_owner st)" "owns (bs_owner st) (bs_owner st')"
      using branch_step_quiet[OF step q "2.prems"(2)] Some by auto
    have e: "(cur, n) \<in> set (main_edges d)" "is_node d n"
      using out_main_edge[of n d cur] ty(4) "2.prems"(2) by simp_all
    have quiet: "bs_issues (walk_branch d s h k n st') = bs_issues st'" using "2.prems"(1) w q by simp
    from "2.IH"[OF step[symmetric] Some quiet e(2)] show ?thesis
    proof (elim disjE exE conjE)
      fix ys assume "length ys = k" "successively (\<lambda>x y. (x, y) \<in> set (main_edges d)) (n # ys)"
      then show ?thesis using e(1) by (intro disjI1 exI[of _ "n # ys"]) simp
    next
      fix path j
      assume p: "chain d n path j" "bs_join st' \<in> {None, Some j}" "bs_join (walk_branch d s h k n st') = Some j"
        "\<forall>x \<in> set path. map_of (bs_owner (walk_branch d s h k n st')) x = Some (s, h)"
        "owns (bs_owner st') (bs_owner (walk_branch d s h k n st'))"
      have "map_of (bs_owner st') cur = Some (s, h)" by (simp add: ty(6) map_of_bt_insert)
      then show ?thesis
        unfolding w using p ty owns_trans[OF ty(7) p(5)]
        by (intro disjI2 exI[of _ "cur # path"] exI[of _ j]) (auto simp: owns_def)
    qed
  qed
qed auto

text \<open>Without a cycle no walk uses up its hops.\<close>

lemma acyclic_walk_short:
  assumes "acyclic (set es)" "set es \<subseteq> set ns \<times> set ns" "x \<in> set ns" "successively (\<lambda>x y. (x, y) \<in> set es) (x # ys)"
  shows "length ys < length ns"
proof -
  have "successively (\<lambda>x y. (x, y) \<in> (set es)\<^sup>+) (x # ys)"
    using assms(4) by (rule successively_mono) auto
  moreover have "transp (\<lambda>x y. (x, y) \<in> (set es)\<^sup>+)" by (auto intro!: transpI elim: trancl_trans)
  ultimately have sw: "sorted_wrt (\<lambda>x y. (x, y) \<in> (set es)\<^sup>+) (x # ys)"
    using successively_conv_sorted_wrt by blast
  have "irrefl ((set es)\<^sup>+)" using assms(1) by (simp add: acyclic_irrefl)
  then have "distinct zs" if "sorted_wrt (\<lambda>x y. (x, y) \<in> (set es)\<^sup>+) zs" for zs
    using that by (induction zs) (auto simp: irrefl_def)
  then have dist: "distinct (x # ys)" using sw by blast
  have "set zs \<subseteq> set ns" if "successively (\<lambda>x y. (x, y) \<in> set es) (z # zs)" for z zs
    using that assms(2) by (induction zs arbitrary: z) (auto simp: successively_Cons)
  then have "set (x # ys) \<subseteq> set ns" using assms(3,4) by auto
  then have "card (set (x # ys)) \<le> card (set ns)" by (rule card_mono[rotated]) simp
  then show ?thesis using distinct_card[OF dist] card_length[of ns] by simp
qed

lemma walk_chain:
  assumes "bs_issues (walk_branch d s h (length (gd_nodes d)) h st) = bs_issues st" "is_node d h"
    and "acyclic (set (main_edges d))"
  shows "\<exists>path j. chain d h path j \<and> bs_join st \<in> {None, Some j}
    \<and> bs_join (walk_branch d s h (length (gd_nodes d)) h st) = Some j
    \<and> (\<forall>x \<in> set path. map_of (bs_owner (walk_branch d s h (length (gd_nodes d)) h st)) x = Some (s, h))
    \<and> owns (bs_owner st) (bs_owner (walk_branch d s h (length (gd_nodes d)) h st))"
  using walk_quiet[OF assms(1,2)] acyclic_walk_short[OF assms(3) main_edges_nodes, of h] assms(2)
  by (fastforce simp: is_node_def)

definition branch_to :: "graph_doc \<Rightarrow> rstr \<Rightarrow> owners \<Rightarrow> rstr \<Rightarrow> rstr \<Rightarrow> bool" where
  "branch_to d s owner j h \<longleftrightarrow> (\<exists>path. chain d h path j \<and> (\<forall>x \<in> set path. map_of owner x = Some (s, h)))"

lemma branch_to_owns: "branch_to d s a j h \<Longrightarrow> owns a b \<Longrightarrow> branch_to d s b j h"
  by (fastforce simp: branch_to_def owns_def)

lemma walk_heads_quiet:
  assumes "bs_issues (walk_heads d s hs st) = bs_issues st" "\<forall>h \<in> set hs. is_node d h"
    and "acyclic (set (main_edges d))"
  shows "owns (bs_owner st) (bs_owner (walk_heads d s hs st))
    \<and> (case bs_join (walk_heads d s hs st) of
         None \<Rightarrow> hs = [] \<and> bs_join st = None
       | Some j \<Rightarrow> bs_join st \<in> {None, Some j} \<and> (\<forall>h \<in> set hs. branch_to d s (bs_owner (walk_heads d s hs st)) j h))"
  using assms
proof (induction d s hs st rule: walk_heads.induct)
  case (1 d s st)
  then show ?case by (auto split: option.splits)
next
  case (2 d s h hs st)
  let ?w = "walk_branch d s h (length (gd_nodes d)) h st"
  have q: "bs_issues ?w = bs_issues st"
    using adds_same[OF walk_branch_adds[of st d s h "length (gd_nodes d)" h] walk_heads_adds[of ?w d s hs]] "2.prems"(1) by simp
  obtain path j where p: "chain d h path j" "bs_join st \<in> {None, Some j}" "bs_join ?w = Some j"
    "\<forall>x \<in> set path. map_of (bs_owner ?w) x = Some (s, h)" "owns (bs_owner st) (bs_owner ?w)"
    using walk_chain[OF q] "2.prems"(2,3) by auto
  have ih: "owns (bs_owner ?w) (bs_owner (walk_heads d s hs ?w))"
    "bs_join (walk_heads d s hs ?w) = Some j" "\<forall>h \<in> set hs. branch_to d s (bs_owner (walk_heads d s hs ?w)) j h"
    using "2.IH" "2.prems" q p(3) by (auto split: option.splits)
  have "branch_to d s (bs_owner ?w) j h" using p(1,4) by (auto simp: branch_to_def)
  then show ?case
    using ih p(2) owns_trans[OF p(5) ih(1)] branch_to_owns[OF _ ih(1)] by auto
qed

section \<open>Every fork of an accepted graph\<close>

definition fork_ok :: "graph_doc \<Rightarrow> owners \<Rightarrow> rstr \<times> graph_node \<Rightarrow> bool" where
  "fork_ok d owner e \<longleftrightarrow>
     (let (s, n) = e; heads = out_main d s in
      heads \<noteq> [] \<and> length heads \<le> split_allowed n
      \<and> (\<exists>j. (\<forall>h \<in> set heads. branch_to d s owner j h)
           \<and> (\<exists>m. out_main d j = [m] \<and> node_type_of d m = Some ''merge'') \<and> quorum_issues d j (length heads) = []))"

lemma fork_ok_owns: "fork_ok d a e \<Longrightarrow> owns a b \<Longrightarrow> fork_ok d b e"
  unfolding fork_ok_def Let_def case_prod_beta using branch_to_owns by blast

lemma merge_issues_none: "merge_issues d j = [] \<longleftrightarrow> (\<exists>m. out_main d j = [m] \<and> node_type_of d m = Some ''merge'')"
  by (auto simp: merge_issues_def split: list.splits)

lemma split_step_quiet:
  assumes "fs_issues (split_step d e fs) = fs_issues fs" "is_node d (fst e)" "acyclic (set (main_edges d))"
  shows "fork_ok d (fs_owner (split_step d e fs)) e \<and> owns (fs_owner fs) (fs_owner (split_step d e fs))
    \<and> fs_total (split_step d e fs) = fs_total fs + length (out_main d (fst e))"
proof -
  obtain s n where e: "e = (s, n)" by fastforce
  have heads: "out_main d s \<noteq> []" "\<not> length (out_main d s) > split_allowed n"
    using assms(1) by (auto simp: e split_step_def fork_push_def Let_def split: if_splits)
  define st where "st = walk_heads d s (out_main d s) \<lparr>bs_join = None, bs_owner = fs_owner fs, bs_issues = fs_issues fs\<rparr>"
  define fs' where "fs' = fs\<lparr>fs_total := fs_total fs + length (out_main d s), fs_owner := bs_owner st, fs_issues := bs_issues st\<rparr>"
  have step: "split_step d e fs = (case bs_join st of None \<Rightarrow> fs'
      | Some j \<Rightarrow> fork_push (merge_issues d j @ quorum_issues d j (length (out_main d s)))
          (fs'\<lparr>fs_joins := bt_insert j (length (out_main d s)) (fs_joins fs')\<rparr>))"
    using heads unfolding e split_step_def Let_def prod.case fs'_def st_def by simp
  have st_adds: "adds (fs_issues fs) (bs_issues st)"
    using walk_heads_adds[of "\<lparr>bs_join = None, bs_owner = fs_owner fs, bs_issues = fs_issues fs\<rparr>"] by (simp add: st_def)
  have q: "bs_issues st = fs_issues fs"
    using assms(1) st_adds unfolding step by (auto simp: fork_push_def fs'_def adds_def split: option.splits)
  have nodes: "\<forall>h \<in> set (out_main d s). is_node d h" by (auto simp: out_main_def)
  have w: "owns (fs_owner fs) (bs_owner st) \<and> (case bs_join st of
         None \<Rightarrow> out_main d s = []
       | Some j \<Rightarrow> \<forall>h \<in> set (out_main d s). branch_to d s (bs_owner st) j h)"
    using walk_heads_quiet[of d s "out_main d s" "\<lparr>bs_join = None, bs_owner = fs_owner fs, bs_issues = fs_issues fs\<rparr>"]
      q nodes assms(3) by (auto simp: st_def split: option.splits)
  then obtain j where j: "bs_join st = Some j" "\<forall>h \<in> set (out_main d s). branch_to d s (bs_owner st) j h"
    using heads(1) by (auto split: option.splits)
  have "merge_issues d j = []" "quorum_issues d j (length (out_main d s)) = []"
    using assms(1) q unfolding step j(1) by (simp_all add: fork_push_def fs'_def)
  then have "fork_ok d (bs_owner st) e"
    using heads j(2) by (auto simp: fork_ok_def e merge_issues_none not_less Let_def)
  then show ?thesis using w unfolding step j(1) by (simp add: fork_push_def fs'_def e)
qed

lemma fold_splits_quiet:
  assumes "fs_issues (fold (split_step d) es fs) = fs_issues fs" "\<forall>e \<in> set es. is_node d (fst e)" "acyclic (set (main_edges d))"
  shows "(\<forall>e \<in> set es. fork_ok d (fs_owner (fold (split_step d) es fs)) e)
    \<and> owns (fs_owner fs) (fs_owner (fold (split_step d) es fs))
    \<and> fs_total (fold (split_step d) es fs) = fs_total fs + sum_list (map (\<lambda>e. length (out_main d (fst e))) es)"
  using assms
proof (induction es arbitrary: fs)
  case (Cons e es)
  let ?fs = "split_step d e fs"
  have q: "fs_issues ?fs = fs_issues fs"
    using adds_same[OF split_step_adds fold_split_adds] Cons.prems(1) by fastforce
  have s: "fork_ok d (fs_owner ?fs) e" "owns (fs_owner fs) (fs_owner ?fs)" "fs_total ?fs = fs_total fs + length (out_main d (fst e))"
    using split_step_quiet[OF q] Cons.prems(2,3) by auto
  have ih: "\<forall>x \<in> set es. fork_ok d (fs_owner (fold (split_step d) es ?fs)) x"
    "owns (fs_owner ?fs) (fs_owner (fold (split_step d) es ?fs))"
    "fs_total (fold (split_step d) es ?fs) = fs_total ?fs + sum_list (map (\<lambda>e. length (out_main d (fst e))) es)"
    using Cons.IH[of ?fs] Cons.prems q by auto
  show ?case using s ih fork_ok_owns[OF s(1) ih(2)] owns_trans[OF s(2) ih(2)] by auto
qed simp

lemma accepted_parts:
  assumes "graph_validate tf d reg = Some []"
  shows "doc_issues d = []" "\<forall>e \<in> set (gd_nodes d). node_issues tf reg e = []"
    "\<forall>e \<in> set (gd_edges d). edge_issues tf d e = []" "cycle_issues tf d = Some []"
    "fs_issues (walk_splits d []) = []" "fs_total (walk_splits d []) \<le> max_anchor_branches"
    "\<forall>e \<in> set (gd_nodes d). orphan_issues d (fs_joins (walk_splits d [])) e = []"
proof -
  obtain cyc where c: "cycle_issues tf d = Some cyc" using assms by (auto simp: graph_validate_def)
  define early where "early = doc_issues d @ concat (map (node_issues tf reg) (gd_nodes d))
    @ concat (map (edge_issues tf d) (gd_edges d)) @ cyc"
  have v: "validate_branching d early = []" using assms c by (simp add: graph_validate_def early_def)
  then have "early = []" using validate_branching_adds[of early d] by (auto simp: adds_def)
  then show "doc_issues d = []" "\<forall>e \<in> set (gd_nodes d). node_issues tf reg e = []"
    "\<forall>e \<in> set (gd_edges d). edge_issues tf d e = []" "cycle_issues tf d = Some []"
    using c by (simp_all add: early_def)
  show "fs_issues (walk_splits d []) = []" "fs_total (walk_splits d []) \<le> max_anchor_branches"
    "\<forall>e \<in> set (gd_nodes d). orphan_issues d (fs_joins (walk_splits d [])) e = []"
    using v \<open>early = []\<close> by (auto simp: validate_branching_def Let_def split: if_splits)
qed

text \<open>
  Property C16: in an accepted graph every \<open>split\<close> fans out into at least one and at most its allowed
  number of branches, at most 8 in the whole document; its branches all lead, along nodes with one
  edge out each, to one common \<open>join\<close> whose single successor is a \<open>merge\<close>; a quorum is reachable;
  and every interior node has one owner, a split and the head of one of its branches, so the
  branches of different heads and of different splits share no node.
\<close>

theorem accepted_forks:
  assumes "bt_wf (gd_nodes d)" "graph_validate tf d reg = Some []"
  shows "\<exists>owner. (\<forall>e \<in> set (splits_of d). fork_ok d owner e)
    \<and> sum_list (map (\<lambda>e. length (out_main d (fst e))) (splits_of d)) \<le> max_anchor_branches"
proof -
  note acc = accepted_parts[OF assms(2)]
  have acyc: "acyclic (set (main_edges d))"
    using cycle_issues_iff[OF bt_distinct[OF assms(1)], of tf] acc(4) by simp
  have "\<forall>e \<in> set (splits_of d). is_node d (fst e)"
    by (auto simp: splits_of_def is_node_def image_iff intro: rev_bexI)
  then show ?thesis
    using fold_splits_quiet[OF _ _ acyc, of "splits_of d" "\<lparr>fs_total = 0, fs_owner = [], fs_joins = [], fs_issues = []\<rparr>"]
      acc(5,6) by (auto simp: walk_splits_def)
qed

text \<open>
  Property C18: what else an accepted graph guarantees its executor: a supported version, the size
  caps, node ids that are safe segments outside the anchor namespace, known types at their
  registered version with accepted parameters, edges whose ends exist (a main edge starts at a node
  or an anchor, a background edge at the delivery anchor, a capability edge at a safe name), every
  join paired with a split and every merge fed by exactly one join.
\<close>

theorem accepted_documents:
  assumes "graph_validate tf d reg = Some []"
  shows "gd_version d = 1 \<and> length (gd_nodes d) \<le> 64 \<and> length (gd_edges d) \<le> 256
    \<and> (\<forall>(i, n) \<in> set (gd_nodes d). valid_node_id i \<and> tf_json_len tf (gn_params n) \<le> 16384
        \<and> (\<exists>ty. registry_get reg (gn_type n) = Some ty \<and> gn_version n = ns_version (nt_schema ty)
             \<and> validate_params tf ty (gn_params n) = Inr ())
        \<and> (gn_type n = ''merge'' \<longrightarrow> (\<exists>f. node_type_of d f = Some ''join''
             \<and> filter (\<lambda>e. ge_kind e = Main_Edge \<and> ge_to e = i) (gd_edges d) \<noteq> []
             \<and> (\<forall>e \<in> set (gd_edges d). ge_kind e = Main_Edge \<and> ge_to e = i \<longrightarrow> ge_from e = f))))
    \<and> (\<forall>e \<in> set (gd_edges d). is_node d (ge_to e) \<and> (case ge_kind e of
         Main_Edge \<Rightarrow> is_node d (ge_from e) \<or> is_anchor (ge_from e)
       | Background_Edge \<Rightarrow> ge_from e = anchor_delivery
       | Capability_Edge \<Rightarrow> safe_segment (ge_from e)))"
proof -
  note acc = accepted_parts[OF assms]
  have doc: "gd_version d = 1" "length (gd_nodes d) \<le> 64" "length (gd_edges d) \<le> 256"
    using acc(1) by (auto simp: doc_issues_def graph_version_def max_graph_nodes_def max_graph_edges_def split: if_splits)
  have node: "valid_node_id i" "tf_json_len tf (gn_params n) \<le> 16384"
    "\<exists>ty. registry_get reg (gn_type n) = Some ty \<and> gn_version n = ns_version (nt_schema ty)
       \<and> validate_params tf ty (gn_params n) = Inr ()" if m: "(i, n) \<in> set (gd_nodes d)" for i n
  proof -
    have "node_issues tf reg (i, n) = []" using acc(2) m by blast
    then show "valid_node_id i" "tf_json_len tf (gn_params n) \<le> 16384"
      "\<exists>ty. registry_get reg (gn_type n) = Some ty \<and> gn_version n = ns_version (nt_schema ty)
         \<and> validate_params tf ty (gn_params n) = Inr ()"
      by (auto simp: node_issues_def Let_def max_graph_params_bytes_def split: if_splits option.splits sum.splits)
  qed
  have merge: "\<exists>f. node_type_of d f = Some ''join''
      \<and> filter (\<lambda>e. ge_kind e = Main_Edge \<and> ge_to e = i) (gd_edges d) \<noteq> []
      \<and> (\<forall>e \<in> set (gd_edges d). ge_kind e = Main_Edge \<and> ge_to e = i \<longrightarrow> ge_from e = f)"
    if m: "(i, n) \<in> set (gd_nodes d)" "gn_type n = ''merge''" for i n
  proof -
    let ?in = "filter (\<lambda>e. ge_kind e = Main_Edge \<and> ge_to e = i) (gd_edges d)"
    have "orphan_issues d (fs_joins (walk_splits d [])) (i, n) = []" using acc(7) m(1) by blast
    then obtain f where f: "map ge_from ?in = [f]" "node_type_of d f = Some ''join''"
      using m(2) by (auto simp: orphan_issues_def split: list.splits if_splits)
    have "?in \<noteq> []" using f(1) by (metis list.simps(8) not_Cons_self2)
    moreover have "ge_from ` set ?in = {f}" using arg_cong[OF f(1), of set] by (simp only: set_map) simp
    then have "\<forall>e \<in> set (gd_edges d). ge_kind e = Main_Edge \<and> ge_to e = i \<longrightarrow> ge_from e = f" by auto
    ultimately show ?thesis using f(2) by blast
  qed
  have edge: "is_node d (ge_to e) \<and> (case ge_kind e of
         Main_Edge \<Rightarrow> is_node d (ge_from e) \<or> is_anchor (ge_from e)
       | Background_Edge \<Rightarrow> ge_from e = anchor_delivery
       | Capability_Edge \<Rightarrow> safe_segment (ge_from e))" if m: "e \<in> set (gd_edges d)" for e
  proof -
    have "edge_issues tf d e = []" using acc(3) m by blast
    then show ?thesis
      by (cases "ge_kind e") (auto simp: edge_issues_def to_issue_def split: if_splits)
  qed
  show ?thesis using doc node merge edge by auto
qed

end
