(* ===== verification/Graph_Demo.thy ===== *)
theory Graph_Demo
  imports Graph_Branches
begin

text \<open>
  Concrete documents for \<open>crates/agent-graph/src/validate.rs\<close>: the theorems of \<open>Graph_Branches\<close> at
  work, and documents that the validator treats differently from what its comments say.
\<close>

definition demo_type :: "rstr \<Rightarrow> rstr \<times> node_type" where
  "demo_type ty = (ty, \<lparr>nt_schema = \<lparr>ns_type = ty, ns_version = 1, ns_title = ty, ns_doc = [],
     ns_inputs = [], ns_outputs = [], ns_params_schema = J_Null\<rparr>, nt_params = []\<rparr>)"

definition demo_registry :: "(rstr \<times> node_type) list" where
  "demo_registry = map demo_type [''generate'', ''join'', ''merge'', ''split'']"

definition demo_node :: "rstr \<Rightarrow> rstr \<Rightarrow> rstr \<times> graph_node" where
  "demo_node i ty = (i, \<lparr>gn_type = ty, gn_version = 1, gn_params = J_Null\<rparr>)"

definition demo_edge :: "rstr \<Rightarrow> rstr \<Rightarrow> graph_edge" where
  "demo_edge a b = \<lparr>ge_from = a, ge_to = b, ge_kind = Main_Edge\<rparr>"

definition demo_fork :: graph_doc where
  "demo_fork = \<lparr>gd_version = 1,
     gd_nodes = [demo_node ''a'' ''generate'', demo_node ''b'' ''generate'', demo_node ''j'' ''join'',
       demo_node ''m'' ''merge'', demo_node ''s'' ''split''],
     gd_edges = [demo_edge ''anchor.response'' ''s'', demo_edge ''s'' ''a'', demo_edge ''s'' ''b'',
       demo_edge ''a'' ''j'', demo_edge ''b'' ''j'', demo_edge ''j'' ''m'']\<rparr>"

lemma demo_fork_wf: "bt_wf (gd_nodes demo_fork)"
  by (simp add: bt_wf_def demo_fork_def demo_node_def)

lemma demo_fork_accepted: "graph_validate demo_text_fns demo_fork demo_registry = Some []"
  by code_simp

theorem accepted_forks_witness:
  "\<exists>owner. \<forall>e \<in> set (splits_of demo_fork). fork_ok demo_fork owner e"
  using accepted_forks[OF demo_fork_wf demo_fork_accepted] by blast

theorem accepted_documents_witness:
  "valid_node_id ''s'' \<and> is_node demo_fork ''j'' \<and> gd_version demo_fork = 1"
  using accepted_documents[OF demo_fork_accepted] by (simp add: demo_fork_def demo_node_def demo_edge_def)

definition demo_cycle :: graph_doc where
  "demo_cycle = \<lparr>gd_version = 1,
     gd_nodes = [demo_node ''a'' ''generate'', demo_node ''x'' ''generate'', demo_node ''y'' ''generate''],
     gd_edges = [demo_edge ''x'' ''y'', demo_edge ''y'' ''x'', demo_edge ''y'' ''a'']\<rparr>"

lemma demo_cycle_wf: "bt_wf (gd_nodes demo_cycle)"
  by (simp add: bt_wf_def demo_cycle_def demo_node_def)

theorem main_cycle_reported_witness:
  "\<exists>is. graph_validate demo_text_fns demo_cycle demo_registry = Some is \<and> (\<exists>i \<in> set is. gi_code i = MainCycle)"
proof -
  have "(''x'', ''y'') \<in> set (main_edges demo_cycle)" "(''y'', ''x'') \<in> set (main_edges demo_cycle)"
    by code_simp+
  then have "\<not> acyclic (set (main_edges demo_cycle))"
    by (metis acyclic_def r_into_trancl trancl_trans)
  then show ?thesis using main_cycle_reported[OF demo_cycle_wf] by blast
qed

text \<open>
  The comment on the drain loop says that what is left sits on a cycle. Node \<open>a\<close> only follows the
  cycle of \<open>x\<close> and \<open>y\<close>, has no edge out, and is the node the issue names.
\<close>

lemma cycle_issue_names_bystander:
  "map_option (map (\<lambda>i. (gi_node i, gi_code i))) (graph_validate demo_text_fns demo_cycle demo_registry)
     = Some [(''a'', MainCycle)] \<and> out_main demo_cycle ''a'' = []"
  by code_simp

text \<open>Two edges from a split to the same node count as two branches, which share every node.\<close>

definition demo_parallel :: graph_doc where
  "demo_parallel = demo_fork\<lparr>gd_nodes := [demo_node ''a'' ''generate'', demo_node ''j'' ''join'',
       demo_node ''m'' ''merge'', demo_node ''s'' ''split''],
     gd_edges := [demo_edge ''s'' ''a'', demo_edge ''s'' ''a'', demo_edge ''a'' ''j'', demo_edge ''j'' ''m'']\<rparr>"

lemma parallel_branches_accepted:
  "graph_validate demo_text_fns demo_parallel demo_registry = Some []
   \<and> out_main demo_parallel ''s'' = [''a'', ''a'']"
  by code_simp

text \<open>Two splits whose branches end at the same join are accepted.\<close>

definition demo_shared_join :: graph_doc where
  "demo_shared_join = demo_fork\<lparr>gd_nodes := [demo_node ''a'' ''generate'', demo_node ''b'' ''generate'',
       demo_node ''j'' ''join'', demo_node ''m'' ''merge'', demo_node ''s'' ''split'', demo_node ''t'' ''split''],
     gd_edges := [demo_edge ''s'' ''a'', demo_edge ''t'' ''b'', demo_edge ''a'' ''j'', demo_edge ''b'' ''j'',
       demo_edge ''j'' ''m'']\<rparr>"

lemma shared_join_accepted:
  "graph_validate demo_text_fns demo_shared_join demo_registry = Some []"
  by code_simp

end
