(* ===== verification/Config_Store.thy ===== *)
theory Config_Store
  imports Segments
begin

text \<open>
  The transactional config store, \<open>crates/agent-config-store\<close>: the batch checks shared by every
  backend, the in-process, the file and the SQLite backend, and the typed store with its
  per-tenant cap (\<open>lib.rs\<close>, \<open>file.rs\<close>, \<open>sqlite.rs\<close>). A backend is one state; an operation runs under its
  lock and is one step. The file holds what \<open>persist\<close> wrote (serde reads its own output back); its
  I/O outcomes and the length of the serialized bundle are parameters.
\<close>

section \<open>Writes and their checks\<close>

text \<open>The shared error of the core and its \<open>Display\<close>; a wrapped I/O or JSON error is its text.\<close>

datatype cs_error =
    CE_Provider rstr
  | CE_Tool rstr
  | CE_Memory rstr
  | CE_Config rstr
  | CE_Io rstr
  | CE_Json rstr
  | CE_Search rstr
  | CE_Repo rstr
  | CE_Tokenizer rstr
  | CE_Web rstr
  | CE_Tasks rstr
  | CE_Scheduler rstr
  | CE_Pty rstr
  | CE_Structured rstr
  | CE_Lsp rstr
  | CE_Ast rstr
  | CE_Sandbox rstr
  | CE_Embed rstr
  | CE_Session rstr
  | CE_Prompt rstr
  | CE_Metrics rstr
  | CE_Graph rstr
  | CE_Registry rstr
  | CE_Overloaded rstr
  | CE_Fleet rstr
  | CE_Campaign rstr
  | CE_RepoGraph rstr

fun error_str :: "cs_error \<Rightarrow> rstr" where
  "error_str (CE_Provider m) = ''provider error: '' @ m"
| "error_str (CE_Tool m) = ''tool error: '' @ m"
| "error_str (CE_Memory m) = ''memory error: '' @ m"
| "error_str (CE_Config m) = ''config error: '' @ m"
| "error_str (CE_Io m) = ''io error: '' @ m"
| "error_str (CE_Json m) = ''json error: '' @ m"
| "error_str (CE_Search m) = ''search error: '' @ m"
| "error_str (CE_Repo m) = ''repo error: '' @ m"
| "error_str (CE_Tokenizer m) = ''tokenizer error: '' @ m"
| "error_str (CE_Web m) = ''web error: '' @ m"
| "error_str (CE_Tasks m) = ''tasks error: '' @ m"
| "error_str (CE_Scheduler m) = ''scheduler error: '' @ m"
| "error_str (CE_Pty m) = ''pty error: '' @ m"
| "error_str (CE_Structured m) = ''structured output error: '' @ m"
| "error_str (CE_Lsp m) = ''lsp error: '' @ m"
| "error_str (CE_Ast m) = ''ast error: '' @ m"
| "error_str (CE_Sandbox m) = ''sandbox error: '' @ m"
| "error_str (CE_Embed m) = ''embed error: '' @ m"
| "error_str (CE_Session m) = ''session error: '' @ m"
| "error_str (CE_Prompt m) = ''prompt error: '' @ m"
| "error_str (CE_Metrics m) = ''metrics error: '' @ m"
| "error_str (CE_Graph m) = ''graph error: '' @ m"
| "error_str (CE_Registry m) = ''registry error: '' @ m"
| "error_str (CE_Overloaded m) = ''overloaded: '' @ m"
| "error_str (CE_Fleet m) = ''fleet error: '' @ m"
| "error_str (CE_Campaign m) = ''campaign error: '' @ m"
| "error_str (CE_RepoGraph m) = ''repo graph error: '' @ m"

type_synonym card_key = "rstr \<times> rstr \<times> rstr"

datatype cs_write =
    W_Ensure rstr
  | W_Put rstr rstr rstr rstr
  | W_Delete rstr rstr rstr
  | W_Cas rstr rstr rstr "rstr option" rstr

definition backtick :: "rstr \<Rightarrow> rstr" where
  "backtick s = [CHR 0x60] @ s @ [CHR 0x60]"

definition seg :: "rstr \<Rightarrow> rstr \<Rightarrow> cs_error + unit" where
  "seg what s = (if safe_segment s then Inr () else Inl (CE_Config (''invalid '' @ what @ '': '' @ backtick s)))"

definition cs_not_found :: "rstr \<Rightarrow> rstr \<Rightarrow> cs_error" where
  "cs_not_found c i = CE_Config (''not found: '' @ c @ '' card '' @ backtick i)"

definition cs_conflict :: "rstr \<Rightarrow> rstr \<Rightarrow> cs_error" where
  "cs_conflict c i = CE_Config (''conflict: '' @ c @ '' card '' @ backtick i)"

definition is_conflict :: "cs_error \<Rightarrow> bool" where
  "is_conflict e \<longleftrightarrow> (case e of CE_Config m \<Rightarrow> starts_with ''conflict: '' m | _ \<Rightarrow> False)"

definition check_target :: "(rstr \<Rightarrow> bool) \<Rightarrow> rstr set \<Rightarrow> rstr \<Rightarrow> rstr \<Rightarrow> rstr \<Rightarrow> cs_error + unit" where
  "check_target known ensured t i blob =
     bindR (seg ''tenant'' t) (\<lambda>_. bindR (seg ''id'' i) (\<lambda>_.
       if blob = [] then Inl (CE_Config (''empty card blob for '' @ backtick i))
       else if t \<notin> ensured \<and> \<not> known t then Inl (cs_not_found ''tenant'' t)
       else Inr ()))"

fun check_writes :: "(rstr \<Rightarrow> bool) \<Rightarrow> rstr set \<Rightarrow> cs_write list \<Rightarrow> cs_error + unit" where
  "check_writes known ensured [] = Inr ()"
| "check_writes known ensured (W_Ensure t # ws) =
     bindR (seg ''tenant'' t) (\<lambda>_. check_writes known (insert t ensured) ws)"
| "check_writes known ensured (W_Put c t i blob # ws) =
     bindR (check_target known ensured t i blob) (\<lambda>_. check_writes known ensured ws)"
| "check_writes known ensured (W_Cas c t i expected blob # ws) =
     bindR (check_target known ensured t i blob) (\<lambda>_. check_writes known ensured ws)"
| "check_writes known ensured (W_Delete c t i # ws) =
     bindR (seg ''tenant'' t) (\<lambda>_. bindR (seg ''id'' i) (\<lambda>_. check_writes known ensured ws))"

text \<open>The compare-and-swap pass of the in-process and the file backend, before any write.\<close>

fun cas_pass :: "(card_key \<Rightarrow> rstr option) \<Rightarrow> cs_write list \<Rightarrow> cs_error + unit" where
  "cas_pass look [] = Inr ()"
| "cas_pass look (W_Cas c t i expected blob # ws) =
     (if look (c, t, i) \<noteq> expected then Inl (cs_conflict c i) else cas_pass look ws)"
| "cas_pass look (_ # ws) = cas_pass look ws"

text \<open>A \<open>BTreeSet\<close> of strings, listed.\<close>

definition btree_set :: "rstr list \<Rightarrow> rstr list" where
  "btree_set xs = remdups_adj (sort xs)"

section \<open>The in-process backend\<close>

record mem_store =
  ms_tenants :: "rstr set"
  ms_cards :: "(card_key \<times> (nat \<times> rstr)) list"
  ms_next :: nat

definition mem_new :: mem_store where
  "mem_new = \<lparr>ms_tenants = {}, ms_cards = [], ms_next = 0\<rparr>"

definition mem_get :: "mem_store \<Rightarrow> card_key \<Rightarrow> rstr option" where
  "mem_get m k = map_option snd (map_of (ms_cards m) k)"

definition in_scope :: "rstr \<Rightarrow> rstr \<Rightarrow> card_key \<Rightarrow> bool" where
  "in_scope c t k \<longleftrightarrow> (case k of (c', t', _) \<Rightarrow> c' = c \<and> t' = t)"

definition mem_list :: "mem_store \<Rightarrow> rstr \<Rightarrow> rstr \<Rightarrow> rstr list" where
  "mem_list m c t = map snd (sort_key fst (map snd (filter (\<lambda>e. in_scope c t (fst e)) (ms_cards m))))"

definition mem_count :: "mem_store \<Rightarrow> rstr \<Rightarrow> rstr \<Rightarrow> nat" where
  "mem_count m c t = length (filter (in_scope c t) (map fst (ms_cards m)))"

definition mem_tenants :: "mem_store \<Rightarrow> rstr \<Rightarrow> rstr list" where
  "mem_tenants m c = btree_set (map (\<lambda>(_, t, _). t) (filter (\<lambda>(c', _, _). c' = c) (map fst (ms_cards m))))"

definition mem_upsert :: "card_key \<Rightarrow> rstr \<Rightarrow> mem_store \<Rightarrow> mem_store" where
  "mem_upsert k blob m =
     (case map_of (ms_cards m) k of
        Some (pos, _) \<Rightarrow> m\<lparr>ms_cards := bt_insert k (pos, blob) (ms_cards m)\<rparr>
      | None \<Rightarrow> m\<lparr>ms_cards := bt_insert k (ms_next m, blob) (ms_cards m), ms_next := ms_next m + 1\<rparr>)"

fun mem_write :: "cs_write \<Rightarrow> mem_store \<Rightarrow> mem_store" where
  "mem_write (W_Ensure t) m = m\<lparr>ms_tenants := insert t (ms_tenants m)\<rparr>"
| "mem_write (W_Put c t i blob) m = mem_upsert (c, t, i) blob m"
| "mem_write (W_Cas c t i expected blob) m = mem_upsert (c, t, i) blob m"
| "mem_write (W_Delete c t i) m = m\<lparr>ms_cards := bt_remove (c, t, i) (ms_cards m)\<rparr>"

definition mem_apply :: "mem_store \<Rightarrow> cs_write list \<Rightarrow> cs_error + mem_store" where
  "mem_apply m ws =
     bindR (check_writes (\<lambda>t. t \<in> ms_tenants m) {} ws) (\<lambda>_.
     bindR (cas_pass (mem_get m) ws) (\<lambda>_. Inr (fold mem_write ws m)))"

section \<open>The file backend\<close>

definition max_bundle_bytes :: nat where "max_bundle_bytes = 8 * 1024 * 1024"

record card_row =
  cr_collection :: rstr
  cr_tenant :: rstr
  cr_id :: rstr
  cr_pos :: nat
  cr_blob :: rstr

record store_bundle =
  bu_tenants :: "rstr list"
  bu_cards :: "card_row list"

record file_env =
  fe_path :: rstr
  fe_size :: "store_bundle \<Rightarrow> nat"
  fe_read_error :: "rstr option"
  fe_write_error :: "rstr option"
  fe_rename_error :: "rstr option"

definition card_row_key :: "card_row \<Rightarrow> card_key" where
  "card_row_key r = (cr_collection r, cr_tenant r, cr_id r)"

definition store_named :: "file_env \<Rightarrow> rstr" where
  "store_named env = ''config store '' @ backtick (fe_path env)"

definition file_load :: "file_env \<Rightarrow> store_bundle option \<Rightarrow> cs_error + store_bundle" where
  "file_load env disk =
     (case disk of
        None \<Rightarrow> Inr \<lparr>bu_tenants = [], bu_cards = []\<rparr>
      | Some b \<Rightarrow>
          (case fe_read_error env of
             Some e \<Rightarrow> Inl (CE_Config (store_named env @ '': '' @ e))
           | None \<Rightarrow>
               if fe_size env b > max_bundle_bytes
               then Inl (CE_Config (store_named env @ '' is '' @ show_nat (fe_size env b) @ '' bytes (cap ''
                 @ show_nat max_bundle_bytes @ '')''))
               else Inr b))"

definition file_persist :: "file_env \<Rightarrow> store_bundle \<Rightarrow> cs_error + store_bundle option" where
  "file_persist env b =
     (if fe_size env b > max_bundle_bytes
      then Inl (CE_Config (store_named env @ '': write rejected '' @ [CHR 0xE2, CHR 0x80, CHR 0x94]
        @ '' bundle would be '' @ show_nat (fe_size env b) @ '' bytes (cap '' @ show_nat max_bundle_bytes @ '')''))
      else
        (case fe_write_error env of
           Some e \<Rightarrow> Inl (CE_Io e)
         | None \<Rightarrow>
             (case fe_rename_error env of
                Some e \<Rightarrow> Inl (CE_Config (''persist '' @ backtick (fe_path env) @ '': '' @ e))
              | None \<Rightarrow> Inr (Some b))))"

definition rows_get :: "card_row list \<Rightarrow> card_key \<Rightarrow> rstr option" where
  "rows_get rs k = map_option cr_blob (find (\<lambda>r. card_row_key r = k) rs)"

definition file_get :: "file_env \<Rightarrow> store_bundle option \<Rightarrow> card_key \<Rightarrow> cs_error + rstr option" where
  "file_get env disk k = bindR (file_load env disk) (\<lambda>b. Inr (rows_get (bu_cards b) k))"

definition file_list :: "file_env \<Rightarrow> store_bundle option \<Rightarrow> rstr \<Rightarrow> rstr \<Rightarrow> cs_error + rstr list" where
  "file_list env disk c t = bindR (file_load env disk) (\<lambda>b.
     Inr (map cr_blob (sort_key cr_pos (filter (\<lambda>r. cr_collection r = c \<and> cr_tenant r = t) (bu_cards b)))))"

definition file_count :: "file_env \<Rightarrow> store_bundle option \<Rightarrow> rstr \<Rightarrow> rstr \<Rightarrow> cs_error + nat" where
  "file_count env disk c t = bindR (file_load env disk) (\<lambda>b.
     Inr (length (filter (\<lambda>r. cr_collection r = c \<and> cr_tenant r = t) (bu_cards b))))"

definition file_tenants :: "file_env \<Rightarrow> store_bundle option \<Rightarrow> rstr \<Rightarrow> cs_error + rstr list" where
  "file_tenants env disk c = bindR (file_load env disk) (\<lambda>b.
     Inr (btree_set (map cr_tenant (filter (\<lambda>r. cr_collection r = c) (bu_cards b)))))"

definition next_pos :: "card_row list \<Rightarrow> nat" where
  "next_pos rs = (case rs of [] \<Rightarrow> 0 | _ \<Rightarrow> fold max (map cr_pos rs) 0 + 1)"

text \<open>\<open>iter_mut().find\<close>: only the first row with the key is written.\<close>

fun set_first :: "card_key \<Rightarrow> rstr \<Rightarrow> card_row list \<Rightarrow> card_row list" where
  "set_first k blob [] = []"
| "set_first k blob (r # rs) = (if card_row_key r = k then r\<lparr>cr_blob := blob\<rparr> # rs else r # set_first k blob rs)"

definition rows_upsert :: "card_key \<Rightarrow> rstr \<Rightarrow> nat \<Rightarrow> card_row list \<Rightarrow> card_row list \<times> nat" where
  "rows_upsert k blob p rs =
     (case find (\<lambda>r. card_row_key r = k) rs of
        Some _ \<Rightarrow> (set_first k blob rs, p)
      | None \<Rightarrow> (case k of (c, t, i) \<Rightarrow>
          (rs @ [\<lparr>cr_collection = c, cr_tenant = t, cr_id = i, cr_pos = p, cr_blob = blob\<rparr>], p + 1)))"

definition bundle_upsert :: "card_key \<Rightarrow> rstr \<Rightarrow> store_bundle \<times> nat \<Rightarrow> store_bundle \<times> nat" where
  "bundle_upsert k blob bp =
     (let (rs, p) = rows_upsert k blob (snd bp) (bu_cards (fst bp)) in ((fst bp)\<lparr>bu_cards := rs\<rparr>, p))"

fun file_write :: "cs_write \<Rightarrow> store_bundle \<times> nat \<Rightarrow> store_bundle \<times> nat" where
  "file_write (W_Ensure t) (b, p) =
     (if t \<in> set (bu_tenants b) then b else b\<lparr>bu_tenants := bu_tenants b @ [t]\<rparr>, p)"
| "file_write (W_Put c t i blob) bp = bundle_upsert (c, t, i) blob bp"
| "file_write (W_Cas c t i expected blob) bp = bundle_upsert (c, t, i) blob bp"
| "file_write (W_Delete c t i) (b, p) = (b\<lparr>bu_cards := filter (\<lambda>r. card_row_key r \<noteq> (c, t, i)) (bu_cards b)\<rparr>, p)"

definition file_apply :: "file_env \<Rightarrow> store_bundle option \<Rightarrow> cs_write list \<Rightarrow> cs_error + store_bundle option" where
  "file_apply env disk ws =
     bindR (file_load env disk) (\<lambda>b.
     bindR (check_writes (\<lambda>t. t \<in> set (bu_tenants b)) {} ws) (\<lambda>_.
     bindR (cas_pass (rows_get (bu_cards b)) ws) (\<lambda>_.
       file_persist env (fst (fold file_write ws (b, next_pos (bu_cards b)))))))"

section \<open>The SQLite backend\<close>

text \<open>
  The tables \<open>tenants\<close> and \<open>cards\<close>; a batch is one transaction whose statements run in order, so a
  compare-and-swap sees the writes before it. A statement that fails rolls everything back: an
  error returns no new state.
\<close>

record sql_store =
  sq_tenants :: "rstr set"
  sq_cards :: "card_row list"

definition sql_err :: "rstr \<Rightarrow> cs_error" where
  "sql_err e = CE_Config (''sqlite: '' @ e)"

definition sql_get :: "rstr option \<Rightarrow> sql_store \<Rightarrow> card_key \<Rightarrow> cs_error + rstr option" where
  "sql_get fail s k = (case fail of Some e \<Rightarrow> Inl (sql_err e) | None \<Rightarrow> Inr (rows_get (sq_cards s) k))"

text \<open>\<open>ORDER BY pos, id\<close> is a stable sort by \<open>pos\<close> of the rows sorted by \<open>id\<close>.\<close>

definition sql_list :: "rstr option \<Rightarrow> sql_store \<Rightarrow> rstr \<Rightarrow> rstr \<Rightarrow> cs_error + rstr list" where
  "sql_list fail s c t = (case fail of Some e \<Rightarrow> Inl (sql_err e)
     | None \<Rightarrow> Inr (map cr_blob (sort_key cr_pos (sort_key cr_id
         (filter (\<lambda>r. cr_collection r = c \<and> cr_tenant r = t) (sq_cards s))))))"

definition sql_count :: "rstr option \<Rightarrow> sql_store \<Rightarrow> rstr \<Rightarrow> rstr \<Rightarrow> cs_error + nat" where
  "sql_count fail s c t = (case fail of Some e \<Rightarrow> Inl (sql_err e)
     | None \<Rightarrow> Inr (length (filter (\<lambda>r. cr_collection r = c \<and> cr_tenant r = t) (sq_cards s))))"

definition sql_tenants :: "rstr option \<Rightarrow> sql_store \<Rightarrow> rstr \<Rightarrow> cs_error + rstr list" where
  "sql_tenants fail s c = (case fail of Some e \<Rightarrow> Inl (sql_err e)
     | None \<Rightarrow> Inr (btree_set (map cr_tenant (filter (\<lambda>r. cr_collection r = c) (sq_cards s)))))"

definition sql_upsert :: "card_key \<Rightarrow> rstr \<Rightarrow> sql_store \<Rightarrow> sql_store" where
  "sql_upsert k blob s = s\<lparr>sq_cards := fst (rows_upsert k blob (next_pos (sq_cards s)) (sq_cards s))\<rparr>"

fun sql_write :: "cs_write \<Rightarrow> sql_store \<Rightarrow> cs_error + sql_store" where
  "sql_write (W_Ensure t) s = Inr (s\<lparr>sq_tenants := insert t (sq_tenants s)\<rparr>)"
| "sql_write (W_Put c t i blob) s = Inr (sql_upsert (c, t, i) blob s)"
| "sql_write (W_Delete c t i) s = Inr (s\<lparr>sq_cards := filter (\<lambda>r. card_row_key r \<noteq> (c, t, i)) (sq_cards s)\<rparr>)"
| "sql_write (W_Cas c t i expected blob) s =
     (if rows_get (sq_cards s) (c, t, i) \<noteq> expected then Inl (cs_conflict c i)
      else Inr (sql_upsert (c, t, i) blob s))"

fun sql_run :: "cs_write list \<Rightarrow> sql_store \<Rightarrow> cs_error + sql_store" where
  "sql_run [] s = Inr s"
| "sql_run (w # ws) s = bindR (sql_write w s) (sql_run ws)"

definition sql_apply :: "rstr option \<Rightarrow> sql_store \<Rightarrow> cs_write list \<Rightarrow> cs_error + sql_store" where
  "sql_apply fail s ws =
     (case fail of Some e \<Rightarrow> Inl (sql_err e)
      | None \<Rightarrow> bindR (check_writes (\<lambda>t. t \<in> sq_tenants s) {} ws) (\<lambda>_. sql_run ws s))"

section \<open>The typed store\<close>

text \<open>
  A card type is its collection, its id, its clamp, its validation and its codec; a backend is its
  three operations, on one state. \<open>put\<close> reads, counts and writes in three calls: the states they see
  are arguments, since other writers may run between them.
\<close>

record 'c card_ops =
  co_collection :: rstr
  co_id :: "'c \<Rightarrow> rstr"
  co_sanitize :: "'c \<Rightarrow> 'c"
  co_validate :: "'c \<Rightarrow> cs_error + unit"
  co_encode :: "'c \<Rightarrow> rstr"
  co_decode :: "rstr \<Rightarrow> cs_error + 'c"

definition default_max_cards :: nat where "default_max_cards = 512"

definition store_cap :: "nat \<Rightarrow> nat" where
  "store_cap cap = (if cap = 0 then default_max_cards else cap)"

definition load_card :: "'c card_ops \<Rightarrow> rstr \<Rightarrow> cs_error + 'c" where
  "load_card co blob = bindR (co_decode co blob) (\<lambda>c. bindR (co_validate co c) (\<lambda>_. Inr c))"

fun load_cards :: "'c card_ops \<Rightarrow> rstr list \<Rightarrow> cs_error + 'c list" where
  "load_cards co [] = Inr []"
| "load_cards co (b # bs) = bindR (load_card co b) (\<lambda>c. bindR (load_cards co bs) (\<lambda>cs. Inr (c # cs)))"

definition store_get :: "'c card_ops \<Rightarrow> (card_key \<Rightarrow> cs_error + rstr option) \<Rightarrow> rstr \<Rightarrow> rstr \<Rightarrow> cs_error + 'c" where
  "store_get co look t i =
     bindR (seg ''tenant'' t) (\<lambda>_. bindR (seg ''id'' i) (\<lambda>_.
     bindR (look (co_collection co, t, i)) (\<lambda>r.
       case r of Some blob \<Rightarrow> load_card co blob | None \<Rightarrow> Inl (cs_not_found (co_collection co) i))))"

definition store_list :: "'c card_ops \<Rightarrow> (rstr \<Rightarrow> rstr \<Rightarrow> cs_error + rstr list) \<Rightarrow> rstr \<Rightarrow> cs_error + 'c list" where
  "store_list co rows t = bindR (seg ''tenant'' t) (\<lambda>_. bindR (rows (co_collection co) t) (load_cards co))"

definition store_put :: "'c card_ops \<Rightarrow> nat \<Rightarrow> (card_key \<Rightarrow> cs_error + rstr option) \<Rightarrow> (rstr \<Rightarrow> rstr \<Rightarrow> cs_error + nat)
    \<Rightarrow> (cs_write list \<Rightarrow> cs_error + 's) \<Rightarrow> rstr \<Rightarrow> 'c \<Rightarrow> cs_error + ('c \<times> 's)" where
  "store_put co cap look count apply t new =
     bindR (seg ''tenant'' t) (\<lambda>_.
     (let new = co_sanitize co new in
      bindR (co_validate co new) (\<lambda>_.
      (let i = co_id co new in
       bindR (seg ''id'' i) (\<lambda>_.
       bindR (look (co_collection co, t, i)) (\<lambda>old.
       bindR (if old = None
              then bindR (count (co_collection co) t) (\<lambda>n.
                if n \<ge> store_cap cap
                then Inl (CE_Config (co_collection co @ '' is full ('' @ show_nat (store_cap cap)
                  @ '' cards for tenant '' @ backtick t @ '')''))
                else Inr ())
              else Inr ()) (\<lambda>_.
       bindR (apply [W_Ensure t, W_Put (co_collection co) t i (co_encode co new)]) (\<lambda>s. Inr (new, s)))))))))"

definition store_delete :: "'c card_ops \<Rightarrow> (card_key \<Rightarrow> cs_error + rstr option) \<Rightarrow> (cs_write list \<Rightarrow> cs_error + 's)
    \<Rightarrow> rstr \<Rightarrow> rstr \<Rightarrow> cs_error + (bool \<times> 's)" where
  "store_delete co look apply t i =
     bindR (seg ''tenant'' t) (\<lambda>_. bindR (seg ''id'' i) (\<lambda>_.
     bindR (look (co_collection co, t, i)) (\<lambda>old.
     bindR (apply [W_Delete (co_collection co) t i]) (\<lambda>s. Inr (old \<noteq> None, s)))))"

text \<open>Staging a transaction; \<open>commit\<close> is one \<open>apply\<close> of the staged writes.\<close>

definition batch_ensure :: "rstr \<Rightarrow> cs_write list \<Rightarrow> cs_write list" where
  "batch_ensure t ws = ws @ [W_Ensure t]"

definition batch_put :: "'c card_ops \<Rightarrow> rstr \<Rightarrow> 'c \<Rightarrow> cs_write list \<Rightarrow> cs_error + cs_write list" where
  "batch_put co t new ws =
     bindR (seg ''tenant'' t) (\<lambda>_.
     (let new = co_sanitize co new in
      bindR (co_validate co new) (\<lambda>_.
      bindR (seg ''id'' (co_id co new)) (\<lambda>_.
        Inr (ws @ [W_Ensure t, W_Put (co_collection co) t (co_id co new) (co_encode co new)])))))"

definition batch_delete :: "'c card_ops \<Rightarrow> rstr \<Rightarrow> rstr \<Rightarrow> cs_write list \<Rightarrow> cs_error + cs_write list" where
  "batch_delete co t i ws =
     bindR (seg ''tenant'' t) (\<lambda>_. bindR (seg ''id'' i) (\<lambda>_. Inr (ws @ [W_Delete (co_collection co) t i])))"

end
