(* ===== verification/Config_Backend.thy ===== *)
theory Config_Backend
  imports Config_Store "HOL-Library.Multiset"
begin

text \<open>
  The contract of a config-store backend (\<open>crates/agent-config-store/src/lib.rs\<close>, trait \<open>Backend\<close>): an
  insertion-ordered table of cards with atomic batches, as a locale, interpreted by the in-process,
  the file and the SQLite backend. Under a batch that writes no key before it compares that key the
  three agree.
\<close>

section \<open>The abstract store\<close>

record cs_spec =
  sp_tenants :: "rstr set"
  sp_rows :: "(card_key \<times> rstr) list"

definition row_put :: "card_key \<Rightarrow> rstr \<Rightarrow> (card_key \<times> rstr) list \<Rightarrow> (card_key \<times> rstr) list" where
  "row_put k blob rows =
     (if k \<in> fst ` set rows then map (\<lambda>(k', b). (k', if k' = k then blob else b)) rows
      else rows @ [(k, blob)])"

fun spec_write :: "cs_write \<Rightarrow> cs_spec \<Rightarrow> cs_spec" where
  "spec_write (W_Ensure t) s = s\<lparr>sp_tenants := insert t (sp_tenants s)\<rparr>"
| "spec_write (W_Put c t i blob) s = s\<lparr>sp_rows := row_put (c, t, i) blob (sp_rows s)\<rparr>"
| "spec_write (W_Cas c t i expected blob) s = s\<lparr>sp_rows := row_put (c, t, i) blob (sp_rows s)\<rparr>"
| "spec_write (W_Delete c t i) s = s\<lparr>sp_rows := filter (\<lambda>e. fst e \<noteq> (c, t, i)) (sp_rows s)\<rparr>"

definition spec_apply :: "cs_spec \<Rightarrow> cs_write list \<Rightarrow> cs_error + cs_spec" where
  "spec_apply s ws =
     bindR (check_writes (\<lambda>t. t \<in> sp_tenants s) {} ws) (\<lambda>_.
     bindR (cas_pass (map_of (sp_rows s)) ws) (\<lambda>_. Inr (fold spec_write ws s)))"

definition spec_list :: "cs_spec \<Rightarrow> rstr \<Rightarrow> rstr \<Rightarrow> rstr list" where
  "spec_list s c t = map snd (filter (\<lambda>e. in_scope c t (fst e)) (sp_rows s))"

text \<open>No key is compared after the batch itself has written it.\<close>

fun cas_settled :: "card_key set \<Rightarrow> cs_write list \<Rightarrow> bool" where
  "cas_settled ks [] = True"
| "cas_settled ks (W_Ensure t # ws) = cas_settled ks ws"
| "cas_settled ks (W_Put c t i blob # ws) = cas_settled (insert (c, t, i) ks) ws"
| "cas_settled ks (W_Delete c t i # ws) = cas_settled (insert (c, t, i) ks) ws"
| "cas_settled ks (W_Cas c t i expected blob # ws) =
     ((c, t, i) \<notin> ks \<and> cas_settled (insert (c, t, i) ks) ws)"

lemma map_of_row_put: "map_of (row_put k blob rows) = (map_of rows)(k \<mapsto> blob)"
proof (rule ext)
  fix x
  have upd: "map_of (map (\<lambda>(k', b). (k', if k' = k then blob else b)) rows) x
      = (if x = k then map_option (\<lambda>_. blob) (map_of rows k) else map_of rows x)"
    by (induction rows) auto
  show "map_of (row_put k blob rows) x = ((map_of rows)(k \<mapsto> blob)) x"
  proof (cases "map_of rows k")
    case None
    then have "k \<notin> fst ` set rows" by (simp add: map_of_eq_None_iff)
    then show ?thesis using None by (cases "x = k") (simp_all add: row_put_def map_add_def split: option.split)
  next
    case (Some v)
    then have "k \<in> fst ` set rows" by (force dest: map_of_SomeD)
    then show ?thesis using upd Some by (simp add: row_put_def)
  qed
qed

lemma map_of_filter_key: "map_of (filter (\<lambda>e. fst e \<noteq> k) rows) = (map_of rows)(k := None)"
  by (induction rows) auto

lemma distinct_row_put: "distinct (map fst rows) \<Longrightarrow> distinct (map fst (row_put k blob rows))"
  by (auto simp: row_put_def case_prod_beta comp_def)

lemma length_row_put_le: "length (filter (\<lambda>e. P (fst e)) (row_put k b rows)) \<le> Suc (length (filter (\<lambda>e. P (fst e)) rows))"
  by (auto simp: row_put_def filter_map comp_def case_prod_beta)

lemma length_row_put_same:
  "k \<in> fst ` set rows \<Longrightarrow> length (filter (\<lambda>e. P (fst e)) (row_put k b rows)) = length (filter (\<lambda>e. P (fst e)) rows)"
  by (auto simp: row_put_def filter_map comp_def case_prod_beta)

fun commits :: "('s \<Rightarrow> cs_write list \<Rightarrow> cs_error + 's) \<Rightarrow> 's \<Rightarrow> cs_write list list \<Rightarrow> cs_error option list \<times> 's" where
  "commits f s [] = ([], s)"
| "commits f s (ws # hist) =
     (case f s ws of
        Inl e \<Rightarrow> (case commits f s hist of (es, r) \<Rightarrow> (Some e # es, r))
      | Inr t \<Rightarrow> (case commits f t hist of (es, r) \<Rightarrow> (None # es, r)))"

section \<open>The contract\<close>

locale config_backend =
  fixes commit :: "'x \<Rightarrow> 's \<Rightarrow> cs_write list \<Rightarrow> cs_error + 's"
    and get :: "'x \<Rightarrow> 's \<Rightarrow> card_key \<Rightarrow> cs_error + rstr option"
    and listing :: "'x \<Rightarrow> 's \<Rightarrow> rstr \<Rightarrow> rstr \<Rightarrow> cs_error + rstr list"
    and spec :: "'s \<Rightarrow> cs_spec"
    and inv :: "'s \<Rightarrow> bool"
    and healthy :: "'x \<Rightarrow> bool"
  assumes apply_ok: "inv s \<Longrightarrow> cas_settled {} ws \<Longrightarrow> commit x s ws = Inr s' \<Longrightarrow>
      inv s' \<and> spec_apply (spec s) ws = Inr (spec s')"
    and apply_conflict: "inv s \<Longrightarrow> cas_settled {} ws \<Longrightarrow> commit x s ws = Inl e \<Longrightarrow> is_conflict e \<Longrightarrow>
      spec_apply (spec s) ws = Inl e"
    and apply_healthy: "inv s \<Longrightarrow> cas_settled {} ws \<Longrightarrow> healthy x \<Longrightarrow>
      (case spec_apply (spec s) ws of Inl e \<Rightarrow> commit x s ws = Inl e | Inr p \<Rightarrow> \<exists>s'. commit x s ws = Inr s')"
    and get_ok: "inv s \<Longrightarrow> get x s k = Inr r \<Longrightarrow> r = map_of (sp_rows (spec s)) k"
    and rows_ok: "inv s \<Longrightarrow> listing x s c t = Inr bs \<Longrightarrow> bs = spec_list (spec s) c t"
    and reads_healthy: "inv s \<Longrightarrow> healthy x \<Longrightarrow> (\<exists>r. get x s k = Inr r) \<and> (\<exists>bs. listing x s c t = Inr bs)"

begin

text \<open>A claim, a batch that puts a card only where none is, is granted to one caller.\<close>

lemma claim_wins_once:
  assumes "inv s" "commit x s [W_Ensure t, W_Cas c t i None b] = Inr s'"
  shows "map_of (sp_rows (spec s)) (c, t, i) = None \<and> map_of (sp_rows (spec s')) (c, t, i) = Some b
    \<and> commit y s' [W_Ensure t', W_Cas c t i None b'] \<noteq> Inr s''"
proof -
  have s: "inv s'" "spec_apply (spec s) [W_Ensure t, W_Cas c t i None b] = Inr (spec s')"
    using apply_ok[OF assms(1) _ assms(2)] by simp_all
  then have r: "map_of (sp_rows (spec s)) (c, t, i) = None" "sp_rows (spec s') = row_put (c, t, i) b (sp_rows (spec s))"
    by (auto simp: spec_apply_def bindR_Inr split: if_splits dest: arg_cong[where f = sp_rows])
  then have "spec_apply (spec s') [W_Ensure t', W_Cas c t i None b'] \<noteq> Inr q" for q
    by (auto simp: spec_apply_def bindR_Inr map_of_row_put)
  then show ?thesis
    using r apply_ok[OF s(1), of "[W_Ensure t', W_Cas c t i None b']" y] by (auto simp: map_of_row_put)
qed

text \<open>What \<open>put\<close> stored is what \<open>get\<close> returns, sanitized, from any later healthy read.\<close>

lemma put_then_get:
  assumes "inv s" "store_put co cap look cnt (commit x s) t crd = Inr (crd', s')"
    and codec: "\<forall>c. co_decode co (co_encode co c) = Inr c" and "healthy y"
  shows "inv s' \<and> crd' = co_sanitize co crd \<and> store_get co (get y s') t (co_id co crd') = Inr crd'
    \<and> (\<forall>k. k \<noteq> (co_collection co, t, co_id co crd') \<longrightarrow>
        map_of (sp_rows (spec s')) k = map_of (sp_rows (spec s)) k)"
proof -
  let ?c = "co_collection co" and ?i = "co_id co crd'"
  let ?ws = "[W_Ensure t, W_Put ?c t ?i (co_encode co crd')]"
  have put: "crd' = co_sanitize co crd" "seg ''tenant'' t = Inr ()" "co_validate co crd' = Inr ()"
    "seg ''id'' ?i = Inr ()" "commit x s ?ws = Inr s'"
    using assms(2) by (auto simp: store_put_def Let_def result_simps)
  have s: "inv s'" "spec_apply (spec s) ?ws = Inr (spec s')"
    using apply_ok[OF assms(1) _ put(5)] by simp_all
  then have "sp_rows (spec s') = row_put (?c, t, ?i) (co_encode co crd') (sp_rows (spec s))"
    by (auto simp: spec_apply_def bindR_Inr dest: arg_cong[where f = sp_rows])
  then have rows: "map_of (sp_rows (spec s')) = (map_of (sp_rows (spec s)))((?c, t, ?i) \<mapsto> co_encode co crd')"
    by (simp add: map_of_row_put)
  obtain r where "get y s' (?c, t, ?i) = Inr r" using reads_healthy[OF s(1) assms(4)] by blast
  then have "get y s' (?c, t, ?i) = Inr (Some (co_encode co crd'))"
    using get_ok[OF s(1)] rows by fastforce
  then show ?thesis
    using put s(1) rows codec by (simp add: store_get_def load_card_def)
qed

text \<open>A history of batches: the outcome of each, and the state at the end; a failed batch leaves the state.\<close>

lemma commits_spec:
  assumes "inv s" "healthy x" "\<forall>ws \<in> set hist. cas_settled {} ws"
  shows "commits (commit x) s hist = (es, s') \<Longrightarrow> inv s' \<and> commits spec_apply (spec s) hist = (es, spec s')"
  using assms(1,3)
proof (induction hist arbitrary: s es)
  case (Cons ws hist)
  have settled: "cas_settled {} ws" and rest: "\<forall>ws \<in> set hist. cas_settled {} ws"
    using Cons.prems(3) by simp_all
  note step = apply_healthy[OF Cons.prems(2) settled assms(2)]
  show ?case
  proof (cases "commit x s ws")
    case (Inl e)
    then have "spec_apply (spec s) ws = Inl e" using step by (auto split: sum.splits)
    then show ?thesis using Cons.IH[OF _ Cons.prems(2) rest] Cons.prems(1) Inl by (auto split: prod.splits)
  next
    case (Inr t)
    then have "inv t" "spec_apply (spec s) ws = Inr (spec t)"
      using apply_ok[OF Cons.prems(2) settled] by blast+
    then show ?thesis using Cons.IH[OF _ _ rest] Cons.prems(1) Inr by (auto split: prod.splits)
  qed
qed simp

lemma reads_spec:
  assumes "inv s" "healthy x"
  shows "get x s k = Inr (map_of (sp_rows (spec s)) k)" "listing x s c t = Inr (spec_list (spec s) c t)"
  using reads_healthy[OF assms] get_ok[OF assms(1)] rows_ok[OF assms(1)] by metis+

end

text \<open>A backend that also counts; the count is the length of the listing.\<close>

locale counting_backend = config_backend commit get listing spec inv healthy
  for commit :: "'x \<Rightarrow> 's \<Rightarrow> cs_write list \<Rightarrow> cs_error + 's"
    and get :: "'x \<Rightarrow> 's \<Rightarrow> card_key \<Rightarrow> cs_error + rstr option"
    and listing :: "'x \<Rightarrow> 's \<Rightarrow> rstr \<Rightarrow> rstr \<Rightarrow> cs_error + rstr list"
    and spec :: "'s \<Rightarrow> cs_spec"
    and inv :: "'s \<Rightarrow> bool"
    and healthy :: "'x \<Rightarrow> bool" +
  fixes counting :: "'x \<Rightarrow> 's \<Rightarrow> rstr \<Rightarrow> rstr \<Rightarrow> cs_error + nat"
  assumes counts: "inv s \<Longrightarrow> counting x s c t = Inr n \<Longrightarrow> n = length (spec_list (spec s) c t)"

begin

lemma put_within_cap:
  assumes "inv s" "store_put co cap (get x s) (counting x s) (commit x s) t crd = Inr (crd', s')"
  shows "inv s' \<and> length (spec_list (spec s') (co_collection co) t)
      \<le> max (store_cap cap) (length (spec_list (spec s) (co_collection co) t))"
proof -
  let ?c = "co_collection co" and ?i = "co_id co crd'"
  have put: "commit x s [W_Ensure t, W_Put ?c t ?i (co_encode co crd')] = Inr s'"
    and full: "\<exists>old. get x s (?c, t, ?i) = Inr old \<and>
      (old = None \<longrightarrow> (\<exists>n. counting x s ?c t = Inr n \<and> n < store_cap cap))"
    using assms(2) by (auto simp: store_put_def Let_def result_simps split: if_splits)
  from apply_ok[OF assms(1) _ put] have s: "inv s'" "sp_rows (spec s') = row_put (?c, t, ?i) (co_encode co crd') (sp_rows (spec s))"
    by (auto simp: spec_apply_def bindR_Inr dest: arg_cong[where f = sp_rows])
  from full obtain old where old: "get x s (?c, t, ?i) = Inr old"
    "old = None \<longrightarrow> (\<exists>n. counting x s ?c t = Inr n \<and> n < store_cap cap)" by blast
  show ?thesis
  proof (cases old)
    case None
    then have "length (spec_list (spec s) ?c t) < store_cap cap" using old counts[OF assms(1)] by blast
    then show ?thesis
      using s length_row_put_le[of "in_scope ?c t" "(?c, t, ?i)" "co_encode co crd'" "sp_rows (spec s)"]
      by (simp add: spec_list_def)
  next
    case (Some b)
    then have "map_of (sp_rows (spec s)) (?c, t, ?i) \<noteq> None" using get_ok[OF assms(1) old(1)] by simp
    then have "(?c, t, ?i) \<in> fst ` set (sp_rows (spec s))" by (simp add: map_of_eq_None_iff)
    then show ?thesis using s by (simp add: spec_list_def length_row_put_same)
  qed
qed

lemma put_full_refused:
  assumes "inv s" "healthy x" "counting x s (co_collection co) t = Inr n" "n \<ge> store_cap cap"
    "get x s (co_collection co, t, co_id co (co_sanitize co crd)) = Inr None"
  shows "\<not> is_ok (store_put co cap (get x s) (counting x s) (commit x s) t crd)"
  using assms(3-5) by (auto simp: store_put_def Let_def is_ok_bindR)

end

section \<open>Checks that all backends share\<close>

lemma starts_with_Cons: "starts_with [] s" "starts_with (a # p) (c # s) \<longleftrightarrow> a = c \<and> starts_with p s" "\<not> starts_with (a # p) []"
  by (auto simp: starts_with_iff)

lemmas is_conflict_simps [simp] = is_conflict_def starts_with_Cons cs_not_found_def cs_conflict_def sql_err_def

lemma seg_no_conflict: "seg what s = Inl e \<Longrightarrow> \<not> is_conflict e"
  by (auto simp: seg_def split: if_splits)

lemma check_writes_no_conflict: "check_writes known es ws = Inl e \<Longrightarrow> \<not> is_conflict e"
  by (induction known es ws rule: check_writes.induct)
    (auto simp: bindR_Inl check_target_def Let_def split: if_splits dest: seg_no_conflict)

lemma cas_pass_cong: "(\<And>k. f k = g k) \<Longrightarrow> cas_pass f ws = cas_pass g ws"
  by (induction g ws rule: cas_pass.induct) simp_all

section \<open>The in-process backend\<close>

definition pos_of :: "card_key \<times> (nat \<times> rstr) \<Rightarrow> nat" where
  "pos_of e = fst (snd e)"

definition mem_spec :: "mem_store \<Rightarrow> cs_spec" where
  "mem_spec m = \<lparr>sp_tenants = ms_tenants m, sp_rows = map (\<lambda>(k, p, b). (k, b)) (sort_key pos_of (ms_cards m))\<rparr>"

definition mem_inv :: "mem_store \<Rightarrow> bool" where
  "mem_inv m \<longleftrightarrow> bt_wf (ms_cards m) \<and> inj_on pos_of (set (ms_cards m)) \<and> (\<forall>e \<in> set (ms_cards m). pos_of e < ms_next m)"

lemma mset_bt_insert_new: "k \<notin> fst ` set m \<Longrightarrow> mset (bt_insert k v m) = add_mset (k, v) (mset m)"
  by (induction k v m rule: bt_insert.induct) auto

lemma bt_insert_present:
  "bt_wf m \<Longrightarrow> k \<in> fst ` set m \<Longrightarrow> bt_insert k v m = map (\<lambda>(k', w). (k', if k' = k then v else w)) m"
proof (induction k v m rule: bt_insert.induct)
  case (2 k v k' w m)
  have fresh: "map (\<lambda>(k', w). (k', if k' = k then v else w)) m = m" if "\<forall>x \<in> fst ` set m. k < x"
    using that by (intro map_idI) auto
  show ?case using 2 fresh by (auto simp: bt_wf_Cons)
qed simp

lemma mem_rows_map: "map_of (map (\<lambda>(k, p, b). (k, b)) cards) k = map_option snd (map_of cards k)"
  by (induction cards) auto

lemma map_of_sort_key: "distinct (map fst xs) \<Longrightarrow> map_of (sort_key f xs) = map_of xs"
  by (rule map_of_eqI) (auto simp: distinct_map)

lemma mem_get_spec: "mem_inv m \<Longrightarrow> mem_get m k = map_of (sp_rows (mem_spec m)) k"
  by (simp add: mem_get_def mem_spec_def mem_rows_map map_of_sort_key mem_inv_def bt_distinct)

lemma mem_upsert_spec:
  assumes "mem_inv m"
  shows "mem_inv (mem_upsert k b m) \<and> mem_spec (mem_upsert k b m) = (mem_spec m)\<lparr>sp_rows := row_put k b (sp_rows (mem_spec m))\<rparr>"
proof (cases "map_of (ms_cards m) k")
  case None
  then have new: "k \<notin> fst ` set (ms_cards m)" by (simp add: map_of_eq_None_iff)
  let ?e = "(k, ms_next m, b)"
  have set_new: "set (bt_insert k (ms_next m, b) (ms_cards m)) = insert ?e (set (ms_cards m))"
    using mset_bt_insert_new[OF new, of "(ms_next m, b)"] by (metis set_mset_add_mset_insert set_mset_mset)
  have inj: "inj_on pos_of (insert ?e (set (ms_cards m)))"
    using assms by (auto simp: mem_inv_def inj_on_def pos_of_def)
  have "sort_key pos_of (bt_insert k (ms_next m, b) (ms_cards m)) = sort_key pos_of (ms_cards m) @ [?e]"
    using inj assms mset_bt_insert_new[OF new, of "(ms_next m, b)"]
    by (intro sort_key_inj_key_eq) (auto simp: set_new sorted_append mem_inv_def pos_of_def less_imp_le)
  then show ?thesis
    using assms None new set_new inj bt_wf_insert
    by (auto simp: mem_upsert_def mem_inv_def mem_spec_def row_put_def image_iff pos_of_def less_SucI)
next
  case (Some pb)
  then obtain p old where pb: "map_of (ms_cards m) k = Some (p, old)" by (cases pb) auto
  then have k: "k \<in> fst ` set (ms_cards m)" by (force dest: map_of_SomeD)
  define g :: "card_key \<times> (nat \<times> rstr) \<Rightarrow> card_key \<times> (nat \<times> rstr)"
    where "g e = (fst e, if fst e = k then (p, b) else snd e)" for e
  have ins: "bt_insert k (p, b) (ms_cards m) = map g (ms_cards m)"
    using bt_insert_present[OF _ k, of "(p, b)"] assms by (simp add: mem_inv_def g_def case_prod_beta)
  have pos: "pos_of (g e) = pos_of e" if "e \<in> set (ms_cards m)" for e
  proof (cases "fst e = k")
    case True
    then have "(k, snd e) \<in> set (ms_cards m)" using that by (metis prod.collapse)
    then have "snd e = (p, old)" using pb assms by (simp add: mem_inv_def bt_mem_iff)
    then show ?thesis by (simp add: g_def pos_of_def)
  qed (simp add: g_def pos_of_def)
  have inj: "inj_on pos_of (set (map g (ms_cards m)))"
    using assms pos by (auto simp: mem_inv_def inj_on_def)
  have "map pos_of (map g (sort_key pos_of (ms_cards m))) = map pos_of (sort_key pos_of (ms_cards m))"
    using pos by simp
  then have "sorted (map pos_of (map g (sort_key pos_of (ms_cards m))))" by (simp only: sorted_sort_key)
  then have "sort_key pos_of (map g (ms_cards m)) = map g (sort_key pos_of (ms_cards m))"
    using inj by (intro sort_key_inj_key_eq) simp_all
  then have "mem_spec (mem_upsert k b m) = (mem_spec m)\<lparr>sp_rows := row_put k b (sp_rows (mem_spec m))\<rparr>"
    using pb k by (auto simp: mem_upsert_def mem_spec_def ins row_put_def g_def image_iff case_prod_beta)
  moreover have "mem_inv (mem_upsert k b m)"
    using assms pb inj pos bt_wf_insert[of "ms_cards m" k "(p, b)"] by (auto simp: mem_upsert_def mem_inv_def ins)
  ultimately show ?thesis by blast
qed

lemma mem_write_spec:
  assumes "mem_inv m"
  shows "mem_inv (mem_write w m) \<and> mem_spec (mem_write w m) = spec_write w (mem_spec m)"
proof (cases w)
  case (W_Delete c t i)
  have "sort_key pos_of (filter P (ms_cards m)) = filter P (sort_key pos_of (ms_cards m))" for P
    by (simp add: filter_sort)
  then show ?thesis
    using assms bt_wf_remove
    by (auto simp: W_Delete mem_inv_def mem_spec_def bt_remove_def filter_map comp_def case_prod_beta inj_on_def)
qed (use assms mem_upsert_spec in \<open>auto simp: mem_inv_def mem_spec_def\<close>)

lemma mem_fold_spec:
  "mem_inv m \<Longrightarrow> mem_inv (fold mem_write ws m) \<and> mem_spec (fold mem_write ws m) = fold spec_write ws (mem_spec m)"
proof (induction ws arbitrary: m)
  case (Cons w ws)
  then show ?case using mem_write_spec[OF Cons.prems, of w] by simp
qed simp

lemma mem_apply_spec:
  assumes "mem_inv m"
  shows "(case mem_apply m ws of Inl e \<Rightarrow> spec_apply (mem_spec m) ws = Inl e
    | Inr m' \<Rightarrow> mem_inv m' \<and> spec_apply (mem_spec m) ws = Inr (mem_spec m'))"
proof -
  have "cas_pass (mem_get m) ws = cas_pass (map_of (sp_rows (mem_spec m))) ws"
    using mem_get_spec[OF assms] by (rule cas_pass_cong)
  moreover have "sp_tenants (mem_spec m) = ms_tenants m" by (simp add: mem_spec_def)
  ultimately show ?thesis
    using mem_fold_spec[OF assms, of ws]
    by (cases "check_writes (\<lambda>t. t \<in> ms_tenants m) {} ws"; cases "cas_pass (map_of (sp_rows (mem_spec m))) ws")
      (simp_all add: mem_apply_def spec_apply_def)
qed

section \<open>Rows in insertion order\<close>

definition rows_spec :: "card_row list \<Rightarrow> (card_key \<times> rstr) list" where
  "rows_spec rs = map (\<lambda>r. (card_row_key r, cr_blob r)) rs"

definition rows_inv :: "card_row list \<Rightarrow> bool" where
  "rows_inv rs \<longleftrightarrow> distinct (map card_row_key rs) \<and> sorted_wrt (<) (map cr_pos rs)"

definition above :: "nat \<Rightarrow> card_row list \<Rightarrow> bool" where
  "above p rs \<longleftrightarrow> (\<forall>r \<in> set rs. cr_pos r < p)"

lemma rows_get_spec: "rows_get rs k = map_of (rows_spec rs) k"
  by (induction rs) (auto simp: rows_get_def rows_spec_def)

lemma next_pos_above: "above (next_pos rs) rs"
  using fold_max_ge[of _ "map cr_pos rs" 0]
  by (cases rs) (auto simp: above_def next_pos_def less_Suc_eq_le simp del: fold.simps)

lemma set_first_map:
  "distinct (map card_row_key rs) \<Longrightarrow> set_first k b rs = map (\<lambda>r. if card_row_key r = k then r\<lparr>cr_blob := b\<rparr> else r) rs"
proof (induction k b rs rule: set_first.induct)
  case (2 k b r rs)
  have "map (\<lambda>r. if card_row_key r = k then r\<lparr>cr_blob := b\<rparr> else r) rs = rs" if "card_row_key r = k"
    using that 2(2) by (intro map_idI) (auto simp: image_iff)
  then show ?case using 2 by auto
qed simp

lemma row_key_blob [simp]: "card_row_key (r\<lparr>cr_blob := b\<rparr>) = card_row_key r"
  by (simp add: card_row_key_def)

lemma rows_upsert_spec:
  assumes "rows_inv rs" "above p rs"
  shows "rows_inv (fst (rows_upsert k b p rs)) \<and> above (snd (rows_upsert k b p rs)) (fst (rows_upsert k b p rs))
    \<and> rows_spec (fst (rows_upsert k b p rs)) = row_put k b (rows_spec rs)"
proof (cases "find (\<lambda>r. card_row_key r = k) rs")
  case None
  then have k: "k \<notin> card_row_key ` set rs" by (auto simp: find_None_iff)
  obtain c t i where kc: "k = (c, t, i)" by (cases k) auto
  let ?r = "\<lparr>cr_collection = c, cr_tenant = t, cr_id = i, cr_pos = p, cr_blob = b\<rparr>"
  have up: "rows_upsert k b p rs = (rs @ [?r], p + 1)" using None by (simp add: rows_upsert_def kc)
  have key: "card_row_key ?r = k" by (simp add: card_row_key_def kc)
  have "k \<notin> fst ` set (rows_spec rs)" using k by (auto simp: rows_spec_def)
  then have "rows_spec (rs @ [?r]) = row_put k b (rows_spec rs)"
    by (simp add: rows_spec_def row_put_def key[unfolded kc] kc)
  moreover have "rows_inv (rs @ [?r])"
    using assms k key by (auto simp: rows_inv_def above_def sorted_wrt_append)
  moreover have "above (p + 1) (rs @ [?r])" using assms(2) by (auto simp: above_def)
  ultimately show ?thesis unfolding up by simp
next
  case (Some r)
  have dist: "distinct (map card_row_key rs)" using assms(1) by (simp add: rows_inv_def)
  define h where "h r = (if card_row_key r = k then r\<lparr>cr_blob := b\<rparr> else r)" for r
  have up: "rows_upsert k b p rs = (map h rs, p)"
    using Some set_first_map[OF dist, of k b] by (simp add: rows_upsert_def h_def)
  have h: "card_row_key (h r) = card_row_key r" "cr_pos (h r) = cr_pos r" for r by (simp_all add: h_def)
  have "k \<in> fst ` set (rows_spec rs)" using Some by (force simp: find_Some_iff rows_spec_def)
  then have "rows_spec (map h rs) = row_put k b (rows_spec rs)"
    by (auto simp: rows_spec_def row_put_def h_def)
  then show ?thesis
    unfolding up using assms by (simp add: rows_inv_def above_def h comp_def)
qed

lemma rows_delete_spec:
  assumes "rows_inv rs"
  shows "rows_inv (filter (\<lambda>r. card_row_key r \<noteq> k) rs)"
    "rows_spec (filter (\<lambda>r. card_row_key r \<noteq> k) rs) = filter (\<lambda>e. fst e \<noteq> k) (rows_spec rs)"
  using assms
  by (auto simp: rows_inv_def rows_spec_def filter_map comp_def distinct_map_filter sorted_wrt_filter
      sorted_wrt_map)

lemma rows_in_order:
  assumes "rows_inv rs"
  shows "sort_key cr_pos (filter P rs) = filter P rs" "sort_key cr_pos (sort_key cr_id (filter P rs)) = filter P rs"
proof -
  have "sorted_wrt (\<lambda>a b. cr_pos a < cr_pos b) (filter P rs)"
    using assms by (simp add: rows_inv_def sorted_wrt_filter sorted_wrt_map)
  then have sorted: "sorted (map cr_pos (filter P rs))"
    by (auto simp: sorted_wrt_map intro: sorted_wrt_mono_rel[rotated])
  have "distinct (map cr_pos rs)"
    using assms by (simp add: rows_inv_def strict_sorted_iff)
  then have inj: "inj_on cr_pos (set (filter P rs))" by (auto simp: distinct_map intro: inj_on_subset)
  show "sort_key cr_pos (filter P rs) = filter P rs" using sorted by (simp add: sort_key_id_if_sorted)
  show "sort_key cr_pos (sort_key cr_id (filter P rs)) = filter P rs"
    using inj by (intro sort_key_inj_key_eq[OF _ _ sorted]) simp_all
qed

lemma rows_list_spec:
  assumes "rows_inv rs"
  shows "map cr_blob (filter (\<lambda>r. cr_collection r = c \<and> cr_tenant r = t) rs)
    = map snd (filter (\<lambda>e. in_scope c t (fst e)) (rows_spec rs))"
  by (simp add: rows_spec_def filter_map comp_def in_scope_def card_row_key_def)

section \<open>The file backend\<close>

definition file_bundle :: "store_bundle option \<Rightarrow> store_bundle" where
  "file_bundle disk = (case disk of None \<Rightarrow> \<lparr>bu_tenants = [], bu_cards = []\<rparr> | Some b \<Rightarrow> b)"

definition bundle_spec :: "store_bundle \<Rightarrow> cs_spec" where
  "bundle_spec b = \<lparr>sp_tenants = set (bu_tenants b), sp_rows = rows_spec (bu_cards b)\<rparr>"

definition file_healthy :: "file_env \<Rightarrow> bool" where
  "file_healthy env \<longleftrightarrow> fe_read_error env = None \<and> fe_write_error env = None \<and> fe_rename_error env = None
     \<and> (\<forall>b. \<not> fe_size env b > max_bundle_bytes)"

lemma file_write_spec:
  assumes "rows_inv (bu_cards b)" "above p (bu_cards b)"
  shows "rows_inv (bu_cards (fst (file_write w (b, p)))) \<and> above (snd (file_write w (b, p))) (bu_cards (fst (file_write w (b, p))))
    \<and> bundle_spec (fst (file_write w (b, p))) = spec_write w (bundle_spec b)"
  using assms rows_delete_spec rows_upsert_spec[OF assms]
  by (cases w) (auto simp: bundle_spec_def bundle_upsert_def case_prod_beta above_def)

lemma file_fold_spec:
  "rows_inv (bu_cards b) \<Longrightarrow> above p (bu_cards b) \<Longrightarrow>
    rows_inv (bu_cards (fst (fold file_write ws (b, p)))) \<and> bundle_spec (fst (fold file_write ws (b, p))) = fold spec_write ws (bundle_spec b)"
proof (induction ws arbitrary: b p)
  case (Cons w ws)
  then show ?case using file_write_spec[OF Cons.prems, of w] by (cases "file_write w (b, p)") simp
qed simp

lemma file_load_bundle: "file_load env disk = Inr b \<Longrightarrow> b = file_bundle disk"
  by (auto simp: file_load_def file_bundle_def split: option.splits if_splits)

lemma file_errors: "file_load env disk = Inl e \<Longrightarrow> \<not> is_conflict e" "file_persist env b = Inl e \<Longrightarrow> \<not> is_conflict e"
  by (auto simp: file_load_def file_persist_def store_named_def split: option.splits if_splits)

lemma file_healthy_io:
  "file_healthy env \<Longrightarrow> file_load env disk = Inr (file_bundle disk) \<and> file_persist env b = Inr (Some b)"
  by (auto simp: file_healthy_def file_load_def file_bundle_def file_persist_def split: option.splits)

lemma file_persist_Inr: "file_persist env b = Inr d \<Longrightarrow> d = Some b"
  by (auto simp: file_persist_def split: option.splits if_splits)

lemma file_apply_spec:
  assumes "rows_inv (bu_cards (file_bundle disk))" "file_load env disk = Inr b"
  shows "file_apply env disk ws = (case spec_apply (bundle_spec (file_bundle disk)) ws of
       Inl e \<Rightarrow> Inl e
     | Inr _ \<Rightarrow> file_persist env (fst (fold file_write ws (file_bundle disk, next_pos (bu_cards (file_bundle disk))))))"
proof -
  have b: "b = file_bundle disk" by (rule file_load_bundle[OF assms(2)])
  have "cas_pass (rows_get (bu_cards b)) ws = cas_pass (map_of (sp_rows (bundle_spec b))) ws"
    by (rule cas_pass_cong) (simp add: rows_get_spec bundle_spec_def)
  moreover have "sp_tenants (bundle_spec b) = set (bu_tenants b)" by (simp add: bundle_spec_def)
  ultimately show ?thesis
    using assms(2) b
    by (cases "check_writes (\<lambda>t. t \<in> set (bu_tenants b)) {} ws"; cases "cas_pass (map_of (sp_rows (bundle_spec b))) ws")
      (simp_all add: file_apply_def spec_apply_def)
qed

section \<open>The SQLite backend\<close>

definition sql_spec :: "sql_store \<Rightarrow> cs_spec" where
  "sql_spec s = \<lparr>sp_tenants = sq_tenants s, sp_rows = rows_spec (sq_cards s)\<rparr>"

definition sql_inv :: "sql_store \<Rightarrow> bool" where
  "sql_inv s \<longleftrightarrow> rows_inv (sq_cards s)"

fun write_key :: "cs_write \<Rightarrow> card_key set" where
  "write_key (W_Ensure t) = {}"
| "write_key (W_Put c t i b) = {(c, t, i)}"
| "write_key (W_Delete c t i) = {(c, t, i)}"
| "write_key (W_Cas c t i e b) = {(c, t, i)}"

lemma sql_upsert_spec:
  "sql_inv s \<Longrightarrow> sql_inv (sql_upsert k b s) \<and> sql_spec (sql_upsert k b s) = (sql_spec s)\<lparr>sp_rows := row_put k b (sp_rows (sql_spec s))\<rparr>"
  using rows_upsert_spec[OF _ next_pos_above, of "sq_cards s" k b]
  by (simp add: sql_inv_def sql_spec_def sql_upsert_def)

lemma sql_write_spec:
  assumes "sql_inv s" "sql_write w s = Inr s'"
  shows "sql_inv s' \<and> sql_spec s' = spec_write w (sql_spec s)"
  using assms sql_upsert_spec rows_delete_spec
  by (cases w) (auto simp: sql_inv_def sql_spec_def split: if_splits)

lemma spec_write_other: "k \<notin> write_key w \<Longrightarrow> map_of (sp_rows (spec_write w s)) k = map_of (sp_rows s) k"
  by (cases w) (auto simp: map_of_row_put map_of_filter_key)

text \<open>In a settled batch, comparing in order is comparing beforehand.\<close>

lemma cas_pass_settled:
  "cas_settled ks ws \<Longrightarrow> \<forall>k. k \<notin> ks \<longrightarrow> f k = g k \<Longrightarrow> cas_pass f ws = cas_pass g ws"
proof (induction ks ws rule: cas_settled.induct)
  case (5 ks c t i expected blob ws)
  then show ?case by simp
qed simp_all

lemma cas_settled_Cons: "cas_settled ks (w # ws) \<Longrightarrow> cas_settled (ks \<union> write_key w) ws"
  by (cases w) simp_all

lemma cas_settled_empty: "cas_settled ks ws \<Longrightarrow> ls \<subseteq> ks \<Longrightarrow> cas_settled ls ws"
proof (induction ks ws arbitrary: ls rule: cas_settled.induct)
  case (3 ks c t i blob ws)
  then show ?case using insert_mono[OF "3.prems"(2)] by simp
next
  case (4 ks c t i ws)
  then show ?case using insert_mono[OF "4.prems"(2)] by simp
next
  case (5 ks c t i expected blob ws)
  then show ?case using insert_mono[OF "5.prems"(2)] by auto
qed simp_all

lemma sql_run_spec:
  assumes "sql_inv s" "cas_settled {} ws"
  shows "(case cas_pass (map_of (sp_rows (sql_spec s))) ws of
      Inl e \<Rightarrow> sql_run ws s = Inl e
    | Inr _ \<Rightarrow> \<exists>s'. sql_run ws s = Inr s' \<and> sql_inv s' \<and> sql_spec s' = fold spec_write ws (sql_spec s))"
  using assms
proof (induction ws arbitrary: s)
  case (Cons w ws)
  have settled: "cas_settled (write_key w) ws" using cas_settled_Cons[OF Cons.prems(2)] by simp
  show ?case
  proof (cases "sql_write w s")
    case (Inl e)
    then show ?thesis by (cases w) (auto simp: rows_get_spec sql_spec_def split: if_splits)
  next
    case (Inr s1)
    note s1 = sql_write_spec[OF Cons.prems(1) Inr]
    have "cas_pass (map_of (sp_rows (sql_spec s))) (w # ws) = cas_pass (map_of (sp_rows (sql_spec s))) ws"
      using Inr by (cases w) (auto simp: rows_get_spec sql_spec_def split: if_splits)
    also have "\<dots> = cas_pass (map_of (sp_rows (sql_spec s1))) ws"
      using settled by (rule cas_pass_settled) (simp add: s1 spec_write_other)
    finally have eq: "cas_pass (map_of (sp_rows (sql_spec s))) (w # ws) = cas_pass (map_of (sp_rows (sql_spec s1))) ws" .
    have run: "sql_run (w # ws) s = sql_run ws s1" using Inr by simp
    have "cas_settled {} ws" using cas_settled_empty[OF settled] by simp
    from Cons.IH[OF _ this, of s1] s1 show ?thesis
      unfolding eq run by (auto split: sum.splits)
  qed
qed simp

lemma sql_apply_spec:
  assumes "sql_inv s" "cas_settled {} ws"
  shows "(case spec_apply (sql_spec s) ws of
      Inl e \<Rightarrow> sql_apply None s ws = Inl e
    | Inr p \<Rightarrow> \<exists>s'. sql_apply None s ws = Inr s' \<and> sql_inv s' \<and> p = sql_spec s')"
proof -
  have "sp_tenants (sql_spec s) = sq_tenants s" by (simp add: sql_spec_def)
  then show ?thesis
    using sql_run_spec[OF assms]
    by (cases "check_writes (\<lambda>t. t \<in> sq_tenants s) {} ws"; cases "cas_pass (map_of (sp_rows (sql_spec s))) ws")
      (auto simp: sql_apply_def spec_apply_def)
qed

section \<open>The three backends keep the contract\<close>

lemma mem_list_spec: "mem_inv m \<Longrightarrow> mem_list m c t = spec_list (mem_spec m) c t"
proof -
  assume inv: "mem_inv m"
  let ?f = "filter (\<lambda>e. in_scope c t (fst e)) (ms_cards m)"
  have "map snd (sort_key pos_of ?f) = sort_key fst (map snd ?f)"
  proof (rule sort_key_inj_key_eq[symmetric])
    show "inj_on fst (set (map snd ?f))"
      using inv by (fastforce simp: mem_inv_def inj_on_def pos_of_def)
    have "map fst (map snd (sort_key pos_of ?f)) = map pos_of (sort_key pos_of ?f)" by (simp add: pos_of_def)
    then show "sorted (map fst (map snd (sort_key pos_of ?f)))" by (simp only: sorted_sort_key)
  qed simp
  moreover have "map snd (map (\<lambda>(k, p, b). (k, b)) xs) = map snd (map snd xs)" for xs :: "(card_key \<times> nat \<times> rstr) list"
    by (simp add: case_prod_beta)
  moreover have "filter (\<lambda>e. in_scope c t (fst e)) (map (\<lambda>(k, p, b). (k, b)) xs)
      = map (\<lambda>(k, p, b). (k, b)) (filter (\<lambda>e. in_scope c t (fst e)) xs)" for xs :: "(card_key \<times> nat \<times> rstr) list"
    by (simp add: filter_map comp_def case_prod_beta)
  ultimately show ?thesis
    by (simp only: mem_list_def spec_list_def mem_spec_def filter_sort cs_spec.simps)
qed

interpretation mem: config_backend "\<lambda>_ :: unit. mem_apply" "\<lambda>_ m k. Inr (mem_get m k)" "\<lambda>_ m c t. Inr (mem_list m c t)"
  mem_spec mem_inv "\<lambda>_. True"
proof (unfold_locales, goal_cases)
  case (1 s ws x s')
  then show ?case using mem_apply_spec[of s ws] by simp
next
  case (2 s ws x e)
  then show ?case using mem_apply_spec[of s ws] by simp
next
  case (3 s ws x)
  then show ?case using mem_apply_spec[of s ws] by (cases "mem_apply s ws") auto
qed (use mem_get_spec mem_list_spec in auto)

interpretation fil: config_backend file_apply file_get file_list "\<lambda>d. bundle_spec (file_bundle d)"
  "\<lambda>d. rows_inv (bu_cards (file_bundle d))" file_healthy
proof (unfold_locales, goal_cases)
  case (1 s ws x s')
  then obtain b where b: "file_load x s = Inr b" by (auto simp: file_apply_def result_simps)
  then show ?case
    using 1 file_apply_spec[OF 1(1) b, of ws] file_fold_spec[OF 1(1) next_pos_above, of ws]
    by (auto simp: spec_apply_def result_simps file_bundle_def dest!: file_persist_Inr split: sum.splits)
next
  case (2 s ws x e)
  then obtain b where b: "file_load x s = Inr b"
    using file_errors by (cases "file_load x s") (auto simp: file_apply_def)
  then show ?case
    using 2 file_apply_spec[OF 2(1) b, of ws] file_errors by (auto split: sum.splits)
next
  case (3 s ws x)
  then show ?case
    using file_apply_spec[OF 3(1), of x _ ws] file_healthy_io[OF 3(3)] by (auto split: sum.splits)
next
  case (4 s x k r)
  then show ?case
    using file_load_bundle by (auto simp: file_get_def bindR_Inr rows_get_spec bundle_spec_def)
next
  case (5 s x c t bs)
  then show ?case
    using file_load_bundle rows_list_spec[OF 5(1), of c t]
    by (auto simp: file_list_def rows_in_order bindR_Inr spec_list_def bundle_spec_def)
next
  case (6 s x k c t)
  then show ?case using file_healthy_io[OF 6(2)] by (simp add: file_get_def file_list_def)
qed

interpretation sql: config_backend sql_apply sql_get sql_list sql_spec sql_inv "\<lambda>x. x = None"
proof (unfold_locales, goal_cases)
  case (1 s ws x s')
  then show ?case
    using sql_apply_spec[OF 1(1,2)] by (cases x) (auto simp: sql_apply_def split: sum.splits)
next
  case (2 s ws x e)
  then show ?case
    using sql_apply_spec[OF 2(1,2)] by (cases x) (auto simp: sql_apply_def split: sum.splits)
next
  case (3 s ws x)
  then show ?case using sql_apply_spec[OF 3(1,2)] by (auto split: sum.splits)
next
  case (4 s x k r)
  then show ?case by (auto simp: sql_get_def rows_get_spec sql_spec_def split: option.splits)
next
  case (5 s x c t bs)
  then show ?case
    using rows_list_spec[of "sq_cards s" c t]
    by (auto simp: sql_list_def sql_inv_def rows_in_order spec_list_def sql_spec_def split: option.splits)
qed (auto simp: sql_get_def sql_list_def)

lemma length_mem_list: "length (mem_list m c t) = mem_count m c t"
  by (simp add: mem_list_def mem_count_def filter_map comp_def)

interpretation mem: counting_backend "\<lambda>_ :: unit. mem_apply" "\<lambda>_ m k. Inr (mem_get m k)" "\<lambda>_ m c t. Inr (mem_list m c t)"
  mem_spec mem_inv "\<lambda>_. True" "\<lambda>_ m c t. Inr (mem_count m c t)"
  by unfold_locales (simp add: length_mem_list[symmetric] mem_list_spec)

interpretation fil: counting_backend file_apply file_get file_list "\<lambda>d. bundle_spec (file_bundle d)"
  "\<lambda>d. rows_inv (bu_cards (file_bundle d))" file_healthy file_count
proof (unfold_locales, goal_cases)
  case (1 d x c t n)
  then show ?case
    using file_load_bundle rows_list_spec[OF 1(1), of c t, THEN arg_cong, of length]
    by (auto simp: file_count_def bindR_Inr spec_list_def bundle_spec_def)
qed

interpretation sql: counting_backend sql_apply sql_get sql_list sql_spec sql_inv "\<lambda>x. x = None" sql_count
proof (unfold_locales, goal_cases)
  case (1 s x c t n)
  then show ?case
    using rows_list_spec[of "sq_cards s" c t, THEN arg_cong, of length]
    by (auto simp: sql_count_def sql_inv_def spec_list_def sql_spec_def split: option.splits)
qed

section \<open>What callers rely on\<close>

definition sql_new :: sql_store where
  "sql_new = \<lparr>sq_tenants = {}, sq_cards = []\<rparr>"

lemma fresh_stores:
  "mem_inv mem_new" "sql_inv sql_new" "rows_inv (bu_cards (file_bundle None))"
  "mem_spec mem_new = \<lparr>sp_tenants = {}, sp_rows = []\<rparr>" "sql_spec sql_new = \<lparr>sp_tenants = {}, sp_rows = []\<rparr>"
  "bundle_spec (file_bundle None) = \<lparr>sp_tenants = {}, sp_rows = []\<rparr>"
  by (simp_all add: mem_inv_def mem_new_def sql_inv_def sql_new_def rows_inv_def file_bundle_def mem_spec_def
      sql_spec_def bundle_spec_def rows_spec_def bt_wf_def)



text \<open>
  A put that runs alone never lifts a tenant's collection over the cap, in any of the
  three backends; SQLite is stated here. (Two concurrent puts may: \<open>put\<close> counts before it writes.)
\<close>

theorem put_respects_cap:
  assumes "sql_inv q" "store_put co cap (sql_get fail q) (sql_count fail q) (sql_apply fail q) t crd = Inr (got, q')"
    "length (filter (\<lambda>r. cr_collection r = co_collection co \<and> cr_tenant r = t) (sq_cards q)) \<le> store_cap cap"
  shows "length (filter (\<lambda>r. cr_collection r = co_collection co \<and> cr_tenant r = t) (sq_cards q')) \<le> store_cap cap"
proof -
  have len: "sql_inv r \<Longrightarrow> length (filter (\<lambda>r. cr_collection r = co_collection co \<and> cr_tenant r = t) (sq_cards r))
      = length (spec_list (sql_spec r) (co_collection co) t)" for r
    using sql.counts[of r None] by (simp add: sql_count_def)
  show ?thesis
    using sql.put_within_cap[OF assms(1,2)] assms(3) by (auto simp: len[OF assms(1)] len)
qed

section \<open>Where the backends differ\<close>

text \<open>
  The in-process and the file backend compare before they write anything, SQLite compares in
  order: a batch that deletes a card and then claims its key is refused by the first two and
  committed by the third.
\<close>

lemma delete_then_claim_diverges:
  defines "c \<equiv> ''jobs''" and "t \<equiv> ''a''" and "i \<equiv> ''x''"
  defines "setup \<equiv> [[W_Ensure t, W_Put c t i ''1'']]" and "claim \<equiv> [W_Delete c t i, W_Cas c t i None ''2'']"
  shows "mem_apply (snd (commits mem_apply mem_new setup)) claim = Inl (cs_conflict c i)
    \<and> is_ok (sql_apply None (snd (commits (sql_apply None) sql_new setup)) claim)"
  unfolding assms by code_simp

section \<open>Concrete runs\<close>

definition demo_env :: file_env where
  "demo_env = \<lparr>fe_path = ''s.json'', fe_size = (\<lambda>_. 0), fe_read_error = None, fe_write_error = None, fe_rename_error = None\<rparr>"

definition demo_card_ops :: "rstr card_ops" where
  "demo_card_ops = \<lparr>co_collection = ''jobs'', co_id = (\<lambda>s. s), co_sanitize = ascii_lowercase, co_validate = (\<lambda>_. Inr ()),
     co_encode = (\<lambda>s. s @ ''!''), co_decode = (\<lambda>b. Inr (butlast b))\<rparr>"

definition demo_history :: "cs_write list list" where
  "demo_history = [[W_Put ''jobs'' ''a'' ''x'' ''1''], [W_Ensure ''a'', W_Put ''jobs'' ''a'' ''y'' ''1''],
     [W_Cas ''jobs'' ''a'' ''x'' None ''2'', W_Put ''jobs'' ''a'' ''y'' ''3''], [W_Cas ''jobs'' ''a'' ''y'' (Some ''1'') ''4'']]"

lemma demo_env_healthy: "file_healthy demo_env"
  by (simp add: file_healthy_def demo_env_def)


lemma demo_history_outcome:
  "commits mem_apply mem_new demo_history =
     ([Some (cs_not_found ''tenant'' ''a''), None, None, Some (cs_conflict ''jobs'' ''y'')],
      snd (commits mem_apply mem_new demo_history))
   \<and> mem_list (snd (commits mem_apply mem_new demo_history)) ''jobs'' ''a'' = [''3'', ''2'']"
  by code_simp


lemma put_respects_cap_witness:
  "\<exists>got q. store_put demo_card_ops 1 (sql_get None sql_new) (sql_count None sql_new) (sql_apply None sql_new) ''a'' ''Xy'' = Inr (got, q)
    \<and> length (filter (\<lambda>r. cr_collection r = ''jobs'' \<and> cr_tenant r = ''a'') (sq_cards q)) \<le> 1
    \<and> \<not> is_ok (store_put demo_card_ops 1 (sql_get None q) (sql_count None q) (sql_apply None q) ''a'' ''z'')"
proof -
  let ?q = "sql_upsert (''jobs'', ''a'', ''xy'') ''xy!'' (sql_new\<lparr>sq_tenants := {''a''}\<rparr>)"
  have put: "store_put demo_card_ops 1 (sql_get None sql_new) (sql_count None sql_new) (sql_apply None sql_new) ''a'' ''Xy'' = Inr (''xy'', ?q)"
    by code_simp
  have full: "\<not> is_ok (store_put demo_card_ops 1 (sql_get None ?q) (sql_count None ?q) (sql_apply None ?q) ''a'' ''z'')"
    by code_simp
  show ?thesis
    using put_respects_cap[OF fresh_stores(2) put] put full
    by (auto simp: demo_card_ops_def store_cap_def sql_new_def)
qed

end
