(* ===== verification/Post_Lease.thy ===== *)
theory Post_Lease
  imports Config_Backend
begin

text \<open>
  The post lease of the review fleet: the claim that makes the one irreversible effect of an approve,
  the forge post, happen at most once per review. The seam and its two implementations
  (\<open>crates/agent-core/src/lib.rs\<close>, \<open>crates/agent-review-fleet/src/lease.rs\<close>), and its clients, the
  approver and the skipper (\<open>crates/agent-runtime/src/agent.rs\<close>). The clients run interleaved, one
  call of the lease or of the forge at a time, and may stop anywhere.
\<close>

section \<open>Forge refusals\<close>

definition forge_http_prefix :: rstr where "forge_http_prefix = ''forge api returned http ''"

definition forge_http_error :: "nat \<Rightarrow> cs_error" where
  "forge_http_error code = CE_Repo (forge_http_prefix @ show_nat code)"

definition forge_rate_limited :: "nat \<Rightarrow> nat \<Rightarrow> cs_error" where
  "forge_rate_limited code wait =
     CE_Repo (forge_http_prefix @ show_nat code @ '': rate limited for '' @ show_nat wait @ ''s'')"

definition forge_refusal_status :: "cs_error \<Rightarrow> nat option" where
  "forge_refusal_status e =
     (case e of
        CE_Repo m \<Rightarrow>
          (case strip_prefix forge_http_prefix m of
             Some code \<Rightarrow>
               if length code \<noteq> 3 \<or> \<not> list_all is_ascii_digit code then None else parse_uint 65535 code
           | None \<Rightarrow> None)
      | _ \<Rightarrow> None)"

definition refusal_why :: "nat \<Rightarrow> rstr option" where
  "refusal_why c =
     (if c = 401 then Some ''its credential was rejected (expired or revoked), so refresh it''
      else if c = 403 then Some (''its credential can't write PR reviews. It needs write access to pull ''
        @ ''requests (on a GitHub App, set Pull requests to Read and write, then ''
        @ ''accept the new permissions on the installation)'')
      else if c = 404 then Some ''the PR or repo isn't visible to its credential''
      else if c = 422 then Some ''it rejected the review (the PR may be closed or locked)''
      else None)"

definition post_failure :: "cs_error \<Rightarrow> nat \<Rightarrow> cs_error" where
  "post_failure e pr =
     (case forge_refusal_status e of
        None \<Rightarrow> e
      | Some c \<Rightarrow>
          (case refusal_why c of
             None \<Rightarrow> e
           | Some why \<Rightarrow> CE_Fleet (''forge refused to post the review of PR #'' @ show_nat pr
               @ '' (http '' @ show_nat c @ ''): '' @ why)))"

section \<open>Drafts and what to do with them\<close>

record 'f draft_record =
  dr_review_id :: rstr
  dr_repo :: rstr
  dr_pr_number :: nat
  dr_head_sha :: rstr
  dr_risk_score :: 'f
  dr_gate_failed :: bool
  dr_n_findings :: nat
  dr_files_changed :: nat
  dr_additions :: nat
  dr_deletions :: nat
  dr_draft_path :: rstr
  dr_status :: rstr
  dr_requested_by :: "rstr list"
  dr_approved_by :: rstr

record fleet_session =
  fl_id :: rstr
  fl_user :: rstr
  fl_repo :: rstr
  fl_backend :: rstr
  fl_base_url :: rstr
  fl_token_ref :: rstr
  fl_skill :: rstr
  fl_slack_trigger_channel :: rstr
  fl_slack_progress_channel :: rstr
  fl_poll_secs :: nat
  fl_enabled :: bool
  fl_created_at :: int
  fl_updated_at :: int
  fl_forge_id :: rstr
  fl_transport_id :: rstr

definition draft_drafted :: rstr where "draft_drafted = ''drafted''"
definition draft_approved :: rstr where "draft_approved = ''approved''"
definition draft_posted :: rstr where "draft_posted = ''posted''"
definition draft_superseded :: rstr where "draft_superseded = ''superseded''"
definition draft_skipped :: rstr where "draft_skipped = ''skipped''"

datatype 'f approve_plan =
  AP_NotFound | AP_AlreadyPosted | AP_Skipped | AP_Post "'f draft_record" fleet_session

datatype skip_outcome = SK_Skipped | SK_AlreadySkipped | SK_AlreadyPosted | SK_NotFound

text \<open>\<open>dbg\<close> is Rust's \<open>{:?}\<close> of a string.\<close>

definition plan_approve :: "(rstr \<Rightarrow> rstr) \<Rightarrow> 'f draft_record option \<Rightarrow> fleet_session list \<Rightarrow> cs_error + 'f approve_plan" where
  "plan_approve dbg rec rows =
     (case rec of
        None \<Rightarrow> Inr AP_NotFound
      | Some r \<Rightarrow>
          if dr_status r = draft_posted then Inr AP_AlreadyPosted
          else if dr_status r = draft_skipped then Inr AP_Skipped
          else
            (case (case find (\<lambda>w. fl_repo w = dr_repo r \<and> fl_enabled w) rows of
                     Some w \<Rightarrow> Some w
                   | None \<Rightarrow> find (\<lambda>w. fl_repo w = dr_repo r) rows) of
               Some w \<Rightarrow> Inr (AP_Post r w)
             | None \<Rightarrow> Inl (CE_Fleet (''no roster row for the draft's repo '' @ dbg (dr_repo r)
                 @ '' (deleted after drafting?)''))))"

definition plan_skip :: "'f draft_record option \<Rightarrow> skip_outcome + 'f draft_record" where
  "plan_skip rec =
     (case rec of
        None \<Rightarrow> Inl SK_NotFound
      | Some r \<Rightarrow>
          if dr_status r = draft_posted then Inl SK_AlreadyPosted
          else if dr_status r = draft_skipped then Inl SK_AlreadySkipped
          else Inr r)"

section \<open>The seam\<close>

datatype post_lease_result = PL_Acquired | PL_AlreadyPosted | PL_Held

text \<open>
  The outcome of each call is a parameter of the environment \<open>'x\<close> it runs in. \<open>acquire\<close> takes a second
  state: the one its read after a lost claim sees, when others have run in between.
\<close>

record ('x, 's) lease_ops =
  lo_acquire :: "'x \<Rightarrow> 's \<Rightarrow> 's \<Rightarrow> rstr \<Rightarrow> (cs_error + post_lease_result) \<times> 's"
  lo_commit :: "'x \<Rightarrow> 's \<Rightarrow> rstr \<Rightarrow> (cs_error + unit) \<times> 's"
  lo_release :: "'x \<Rightarrow> 's \<Rightarrow> rstr \<Rightarrow> (cs_error + unit) \<times> 's"

datatype lease_status = LS_Free | LS_Held | LS_Posted

section \<open>The in-process lease\<close>

definition max_posted_leases :: nat where "max_posted_leases = 100000"

record mem_lease =
  ml_states :: "rstr \<Rightarrow> bool option"
  ml_order :: "rstr list"
  ml_cap :: nat

definition mem_lease_new :: mem_lease where
  "mem_lease_new = \<lparr>ml_states = (\<lambda>_. None), ml_order = [], ml_cap = max_posted_leases\<rparr>"

definition mem_lease_with_cap :: "nat \<Rightarrow> mem_lease" where
  "mem_lease_with_cap cap =
     \<lparr>ml_states = (\<lambda>_. None), ml_order = [], ml_cap = (if cap = 0 then max_posted_leases else cap)\<rparr>"

definition mem_acquire :: "mem_lease \<Rightarrow> rstr \<Rightarrow> (cs_error + post_lease_result) \<times> mem_lease" where
  "mem_acquire g r =
     (case ml_states g r of
        None \<Rightarrow> (Inr PL_Acquired, g\<lparr>ml_states := (ml_states g)(r \<mapsto> False)\<rparr>)
      | Some False \<Rightarrow> (Inr PL_Held, g)
      | Some True \<Rightarrow> (Inr PL_AlreadyPosted, g))"

text \<open>The eviction loop: \<open>pop_front\<close> while the queue is over the cap.\<close>

fun mem_evict :: "nat \<Rightarrow> (rstr \<Rightarrow> bool option) \<Rightarrow> rstr list \<Rightarrow> (rstr \<Rightarrow> bool option) \<times> rstr list" where
  "mem_evict cap st [] = (st, [])"
| "mem_evict cap st (old # q) =
     (if Suc (length q) > cap
      then mem_evict cap (if st old = Some True then st(old := None) else st) q
      else (st, old # q))"

definition mem_commit :: "mem_lease \<Rightarrow> rstr \<Rightarrow> (cs_error + unit) \<times> mem_lease" where
  "mem_commit g r =
     (let newly_posted = (ml_states g r \<noteq> Some True); st = (ml_states g)(r \<mapsto> True) in
      if newly_posted
      then (case mem_evict (ml_cap g) st (ml_order g @ [r]) of
              (st', q) \<Rightarrow> (Inr (), g\<lparr>ml_states := st', ml_order := q\<rparr>))
      else (Inr (), g\<lparr>ml_states := st\<rparr>))"

definition mem_release :: "mem_lease \<Rightarrow> rstr \<Rightarrow> (cs_error + unit) \<times> mem_lease" where
  "mem_release g r =
     (Inr (), if ml_states g r = Some False then g\<lparr>ml_states := (ml_states g)(r := None)\<rparr> else g)"

section \<open>The lease over the config store\<close>

definition pl_collection :: rstr where "pl_collection = ''post_lease''"
definition pl_default_tenant :: rstr where "pl_default_tenant = ''local''"
definition pl_held :: rstr where "pl_held = ''held''"
definition pl_posted :: rstr where "pl_posted = ''posted''"

definition lease_check :: "rstr \<Rightarrow> cs_error + unit" where
  "lease_check r = (if safe_segment r then Inr () else Inl (CE_Fleet ''invalid review id''))"

definition lease_map_err :: "cs_error \<Rightarrow> cs_error" where
  "lease_map_err e = CE_Fleet (''post-lease store: '' @ error_str e)"

definition lease_with_tenant :: "rstr \<Rightarrow> cs_error + rstr" where
  "lease_with_tenant t = (if safe_segment t then Inr t else Inl (CE_Fleet (''invalid tenant '' @ backtick t)))"

definition store_acquire :: "('x \<Rightarrow> 's \<Rightarrow> cs_write list \<Rightarrow> cs_error + 's) \<Rightarrow> ('x \<Rightarrow> 's \<Rightarrow> card_key \<Rightarrow> cs_error + rstr option)
    \<Rightarrow> rstr \<Rightarrow> 'x \<times> 'x \<Rightarrow> 's \<Rightarrow> 's \<Rightarrow> rstr \<Rightarrow> (cs_error + post_lease_result) \<times> 's" where
  "store_acquire apply get tn x s later r =
     (case lease_check r of
        Inl e \<Rightarrow> (Inl e, s)
      | Inr _ \<Rightarrow>
          (case apply (fst x) s [W_Ensure tn, W_Cas pl_collection tn r None pl_held] of
             Inr s' \<Rightarrow> (Inr PL_Acquired, s')
           | Inl e \<Rightarrow>
               if is_conflict e
               then (case get (snd x) later (pl_collection, tn, r) of
                       Inl e' \<Rightarrow> (Inl e', s)
                     | Inr b \<Rightarrow> (Inr (if b = Some pl_posted then PL_AlreadyPosted else PL_Held), s))
               else (Inl (lease_map_err e), s)))"

definition store_commit :: "('x \<Rightarrow> 's \<Rightarrow> cs_write list \<Rightarrow> cs_error + 's) \<Rightarrow> rstr \<Rightarrow> 'x \<times> 'x \<Rightarrow> 's \<Rightarrow> rstr \<Rightarrow> (cs_error + unit) \<times> 's" where
  "store_commit apply tn x s r =
     (case lease_check r of
        Inl e \<Rightarrow> (Inl e, s)
      | Inr _ \<Rightarrow>
          (case apply (fst x) s [W_Ensure tn, W_Put pl_collection tn r pl_posted] of
             Inr s' \<Rightarrow> (Inr (), s')
           | Inl e \<Rightarrow> (Inl (lease_map_err e), s)))"

definition store_release :: "('x \<Rightarrow> 's \<Rightarrow> cs_write list \<Rightarrow> cs_error + 's) \<Rightarrow> rstr \<Rightarrow> 'x \<times> 'x \<Rightarrow> 's \<Rightarrow> rstr \<Rightarrow> (cs_error + unit) \<times> 's" where
  "store_release apply tn x s r =
     (case lease_check r of
        Inl e \<Rightarrow> (Inl e, s)
      | Inr _ \<Rightarrow>
          (case apply (fst x) s [W_Ensure tn, W_Cas pl_collection tn r (Some pl_held) pl_held, W_Delete pl_collection tn r] of
             Inr s' \<Rightarrow> (Inr (), s')
           | Inl e \<Rightarrow> if is_conflict e then (Inr (), s) else (Inl (lease_map_err e), s)))"

section \<open>Its clients\<close>

datatype 't post_attempt = PA_Posted 't | PA_Already | PA_Failed cs_error

definition post_with_lease :: "('x, 's) lease_ops \<Rightarrow> 'x \<Rightarrow> 's \<Rightarrow> rstr \<Rightarrow> nat \<Rightarrow> cs_error + 't \<Rightarrow> 's
    \<Rightarrow> (cs_error + 't post_attempt) \<times> 's" where
  "post_with_lease ops x later r pr post s =
     (case lo_acquire ops x s later r of
        (Inl e, s) \<Rightarrow> (Inl e, s)
      | (Inr PL_AlreadyPosted, s) \<Rightarrow> (Inr PA_Already, s)
      | (Inr PL_Held, s) \<Rightarrow> (Inr PA_Already, s)
      | (Inr PL_Acquired, s) \<Rightarrow>
          (case post of
             Inr posted \<Rightarrow> (case lo_commit ops x s r of (_, s) \<Rightarrow> (Inr (PA_Posted posted), s))
           | Inl e \<Rightarrow> (case lo_release ops x s r of (_, s) \<Rightarrow> (Inr (PA_Failed (post_failure e pr)), s))))"

definition skipped_record :: "'f draft_record \<Rightarrow> rstr option \<Rightarrow> 'f draft_record" where
  "skipped_record r who = r\<lparr>dr_status := draft_skipped, dr_approved_by := (case who of Some w \<Rightarrow> w | None \<Rightarrow> [])\<rparr>"

definition skip_with_lease :: "('x, 's) lease_ops \<Rightarrow> 'x \<Rightarrow> 's \<Rightarrow> 'f draft_record \<Rightarrow> rstr option \<Rightarrow> 's
    \<Rightarrow> (cs_error + skip_outcome \<times> 'f draft_record option) \<times> 's" where
  "skip_with_lease ops x later rec who s =
     (case lo_acquire ops x s later (dr_review_id rec) of
        (Inl e, s) \<Rightarrow> (Inl e, s)
      | (Inr PL_AlreadyPosted, s) \<Rightarrow> (Inr (SK_AlreadyPosted, None), s)
      | (Inr PL_Held, s) \<Rightarrow> (Inr (SK_AlreadyPosted, None), s)
      | (Inr PL_Acquired, s) \<Rightarrow>
          (case lo_commit ops x s (dr_review_id rec) of
             (_, s) \<Rightarrow> (Inr (SK_Skipped, Some (skipped_record rec who)), s)))"

text \<open>
  The same two functions cut at their awaits: a task is where it stands, and a step is one call of the
  lease or of the forge.
\<close>

datatype ('f, 't) fleet_task =
    FT_Idle
  | FT_Approve rstr nat
  | FT_Posting rstr nat
  | FT_Commit rstr 't
  | FT_Release rstr nat cs_error
  | FT_Skip "'f draft_record" "rstr option"
  | FT_Skip_Commit "'f draft_record" "rstr option"
  | FT_Approved "cs_error + 't post_attempt"
  | FT_Skipped "cs_error + skip_outcome \<times> 'f draft_record option"

fun task_step :: "('x, 's) lease_ops \<Rightarrow> 'x \<Rightarrow> 's \<Rightarrow> cs_error + 't \<Rightarrow> ('f, 't) fleet_task \<Rightarrow> 's \<Rightarrow> ('f, 't) fleet_task \<times> 's" where
  "task_step ops x later post (FT_Approve r pr) s =
     (case lo_acquire ops x s later r of
        (Inl e, s) \<Rightarrow> (FT_Approved (Inl e), s)
      | (Inr PL_Acquired, s) \<Rightarrow> (FT_Posting r pr, s)
      | (Inr _, s) \<Rightarrow> (FT_Approved (Inr PA_Already), s))"
| "task_step ops x later post (FT_Posting r pr) s =
     (case post of Inr posted \<Rightarrow> (FT_Commit r posted, s) | Inl e \<Rightarrow> (FT_Release r pr e, s))"
| "task_step ops x later post (FT_Commit r posted) s =
     (FT_Approved (Inr (PA_Posted posted)), snd (lo_commit ops x s r))"
| "task_step ops x later post (FT_Release r pr e) s =
     (FT_Approved (Inr (PA_Failed (post_failure e pr))), snd (lo_release ops x s r))"
| "task_step ops x later post (FT_Skip rec who) s =
     (case lo_acquire ops x s later (dr_review_id rec) of
        (Inl e, s) \<Rightarrow> (FT_Skipped (Inl e), s)
      | (Inr PL_Acquired, s) \<Rightarrow> (FT_Skip_Commit rec who, s)
      | (Inr _, s) \<Rightarrow> (FT_Skipped (Inr (SK_AlreadyPosted, None)), s))"
| "task_step ops x later post (FT_Skip_Commit rec who) s =
     (FT_Skipped (Inr (SK_Skipped, Some (skipped_record rec who))), snd (lo_commit ops x s (dr_review_id rec)))"
| "task_step ops x later post t s = (t, s)"

text \<open>What a step makes final for a review: the forge took the post, or the skip was decided.\<close>

datatype review_verdict = V_Posted rstr | V_Skipped rstr

fun verdict_review :: "review_verdict \<Rightarrow> rstr" where
  "verdict_review (V_Posted r) = r"
| "verdict_review (V_Skipped r) = r"

fun step_verdict :: "cs_error + 't \<Rightarrow> ('f, 't) fleet_task \<Rightarrow> review_verdict list" where
  "step_verdict (Inr posted) (FT_Posting r pr) = [V_Posted r]"
| "step_verdict post (FT_Skip_Commit rec who) = [V_Skipped (dr_review_id rec)]"
| "step_verdict post t = []"

record ('s, 'f, 't) fleet =
  ft_store :: 's
  ft_tasks :: "nat \<Rightarrow> ('f, 't) fleet_task"
  ft_log :: "review_verdict list"

definition fleet_start :: "'s \<Rightarrow> ('s, 'f, 't) fleet" where
  "fleet_start s = \<lparr>ft_store = s, ft_tasks = (\<lambda>_. FT_Idle), ft_log = []\<rparr>"

fun fresh_task :: "('f, 't) fleet_task \<Rightarrow> bool" where
  "fresh_task (FT_Approve r pr) = True"
| "fresh_task (FT_Skip rec who) = True"
| "fresh_task t = False"

inductive fleet_step :: "('x, 's) lease_ops \<Rightarrow> ('s, 'f, 't) fleet \<Rightarrow> ('s, 'f, 't) fleet \<Rightarrow> bool" for ops where
  begin_task: "ft_tasks w i = FT_Idle \<Longrightarrow> fresh_task t \<Longrightarrow> fleet_step ops w (w\<lparr>ft_tasks := (ft_tasks w)(i := t)\<rparr>)"
| run_task: "task_step ops x later post (ft_tasks w i) (ft_store w) = (t, s) \<Longrightarrow>
    fleet_step ops w \<lparr>ft_store = s, ft_tasks = (ft_tasks w)(i := t), ft_log = ft_log w @ step_verdict post (ft_tasks w i)\<rparr>"
| crash_task: "fleet_step ops w (w\<lparr>ft_tasks := (ft_tasks w)(i := FT_Idle)\<rparr>)"

inductive fleet_reaches :: "('x, 's) lease_ops \<Rightarrow> ('s, 'f, 't) fleet \<Rightarrow> ('s, 'f, 't) fleet \<Rightarrow> bool" for ops where
  reach_start: "fleet_reaches ops w w"
| reach_step: "fleet_reaches ops w v \<Longrightarrow> fleet_step ops v u \<Longrightarrow> fleet_reaches ops w u"

inductive_cases fleet_step_cases: "fleet_step ops w u"

text \<open>The functions and their steps agree: run alone, a task returns what the function returns.\<close>

fun task_steps :: "nat \<Rightarrow> ('x, 's) lease_ops \<Rightarrow> 'x \<Rightarrow> 's \<Rightarrow> cs_error + 't \<Rightarrow> ('f, 't) fleet_task \<times> 's \<Rightarrow> ('f, 't) fleet_task \<times> 's" where
  "task_steps 0 ops x later post ts = ts"
| "task_steps (Suc n) ops x later post (t, s) = task_steps n ops x later post (task_step ops x later post t s)"

lemma approve_steps:
  "task_steps 3 ops x later post (FT_Approve r pr, s) =
     (case post_with_lease ops x later r pr post s of (res, s') \<Rightarrow> (FT_Approved res, s'))"
  by (simp add: numeral_3_eq_3 post_with_lease_def case_prod_beta
      split: prod.splits sum.splits post_lease_result.splits)

lemma skip_steps:
  "task_steps 2 ops x later post (FT_Skip rec who, s) =
     (case skip_with_lease ops x later rec who s of (res, s') \<Rightarrow> (FT_Skipped res, s'))"
  by (simp add: numeral_2_eq_2 skip_with_lease_def case_prod_beta
      split: prod.splits sum.splits post_lease_result.splits)

end
