(* ===== verification/Post_Once.thy ===== *)
theory Post_Once
  imports Post_Lease
begin

text \<open>
  The contract of the post lease as a locale, its durable extension, and what interleaved approvers
  and skippers get from each: mutual exclusion from both, at most one verdict per review from the
  durable one. The in-process lease keeps the first; the lease over any config-store backend keeps
  both.
\<close>

section \<open>The contract\<close>

fun in_flight :: "rstr \<Rightarrow> ('f, 't) fleet_task \<Rightarrow> bool" where
  "in_flight q (FT_Posting r pr) \<longleftrightarrow> r = q"
| "in_flight q (FT_Commit r posted) \<longleftrightarrow> r = q"
| "in_flight q (FT_Release r pr e) \<longleftrightarrow> r = q"
| "in_flight q (FT_Skip_Commit rec who) \<longleftrightarrow> dr_review_id rec = q"
| "in_flight q t \<longleftrightarrow> False"

fun undecided :: "rstr \<Rightarrow> ('f, 't) fleet_task \<Rightarrow> bool" where
  "undecided q (FT_Posting r pr) \<longleftrightarrow> r = q"
| "undecided q (FT_Release r pr e) \<longleftrightarrow> r = q"
| "undecided q (FT_Skip_Commit rec who) \<longleftrightarrow> dr_review_id rec = q"
| "undecided q t \<longleftrightarrow> False"

definition commits_of :: "('f, 't) fleet_task \<Rightarrow> rstr option" where
  "commits_of t = (case t of FT_Commit r _ \<Rightarrow> Some r | FT_Skip_Commit rec _ \<Rightarrow> Some (dr_review_id rec) | _ \<Rightarrow> None)"

locale post_lease =
  fixes acquire :: "'x \<Rightarrow> 's \<Rightarrow> 's \<Rightarrow> rstr \<Rightarrow> (cs_error + post_lease_result) \<times> 's"
    and commit :: "'x \<Rightarrow> 's \<Rightarrow> rstr \<Rightarrow> (cs_error + unit) \<times> 's"
    and release :: "'x \<Rightarrow> 's \<Rightarrow> rstr \<Rightarrow> (cs_error + unit) \<times> 's"
    and status :: "'s \<Rightarrow> rstr \<Rightarrow> lease_status"
    and inv :: "'s \<Rightarrow> bool"
    and healthy :: "'x \<Rightarrow> rstr \<Rightarrow> bool"
  assumes acquire_law: "inv s \<Longrightarrow> acquire x s later r = (res, s') \<Longrightarrow> inv s' \<and>
      (if res = Inr PL_Acquired then status s r = LS_Free \<and> status s' = (status s)(r := LS_Held)
       else status s' = status s)"
    and commit_law: "inv s \<Longrightarrow> commit x s r = (out, s') \<Longrightarrow> inv s' \<and>
      (status s' r = LS_Posted \<or> status s' r = status s r) \<and>
      (\<forall>q. q \<noteq> r \<longrightarrow> status s' q = status s q \<or> (status s q = LS_Posted \<and> status s' q = LS_Free))"
    and release_law: "inv s \<Longrightarrow> release x s r = (out, s') \<Longrightarrow> inv s' \<and>
      (status s' = status s \<or> (status s r = LS_Held \<and> status s' = (status s)(r := LS_Free)))"
    and acquire_free: "inv s \<Longrightarrow> healthy x r \<Longrightarrow> status s r = LS_Free \<Longrightarrow> fst (acquire x s later r) = Inr PL_Acquired"
    and release_held: "inv s \<Longrightarrow> healthy x r \<Longrightarrow> status s r = LS_Held \<Longrightarrow> status (snd (release x s r)) r = LS_Free"

begin

abbreviation ops :: "('x, 's) lease_ops" where
  "ops \<equiv> \<lparr>lo_acquire = acquire, lo_commit = commit, lo_release = release\<rparr>"

definition exclusive :: "('s, 'f, 't) fleet \<Rightarrow> bool" where
  "exclusive w \<longleftrightarrow> inv (ft_store w)
     \<and> (\<forall>q i. in_flight q (ft_tasks w i) \<longrightarrow> status (ft_store w) q = LS_Held)
     \<and> (\<forall>q i j. in_flight q (ft_tasks w i) \<longrightarrow> in_flight q (ft_tasks w j) \<longrightarrow> i = j)"

lemma exclusive_start: "inv s \<Longrightarrow> exclusive (fleet_start s)"
  by (simp add: exclusive_def fleet_start_def)

lemma commit_snd: "inv s \<Longrightarrow> inv (snd (commit x s r))"
  "inv s \<Longrightarrow> status (snd (commit x s r)) r = LS_Posted \<or> status (snd (commit x s r)) r = status s r"
  "inv s \<Longrightarrow> q \<noteq> r \<Longrightarrow> status s q = LS_Held \<Longrightarrow> status (snd (commit x s r)) q = LS_Held"
  using commit_law[of s x r "fst (commit x s r)" "snd (commit x s r)"] by force+

lemma release_snd: "inv s \<Longrightarrow> inv (snd (release x s r))"
  "inv s \<Longrightarrow> q \<noteq> r \<Longrightarrow> status (snd (release x s r)) q = status s q"
  using release_law[of s x r "fst (release x s r)" "snd (release x s r)"] by auto

text \<open>A step of task \<open>i\<close>: who is in flight after it, and the status of the reviews the others hold.\<close>

lemma task_frame:
  assumes "inv s" "task_step ops x later post t s = (t', s')"
  shows "inv s' \<and> (\<forall>q. status s q = LS_Held \<and> \<not> in_flight q t \<longrightarrow> status s' q = LS_Held \<and> \<not> in_flight q t')
    \<and> (\<forall>q. in_flight q t' \<longrightarrow> status s' q = LS_Held \<and> (in_flight q t \<or> status s q = LS_Free)
        \<or> (in_flight q t \<and> status s' q = status s q))"
  using assms
proof (cases t)
  case (FT_Approve r pr)
  then show ?thesis
    using assms acquire_law[OF assms(1), of x later r]
    by (auto split: prod.splits sum.splits post_lease_result.splits if_splits)
next
  case (FT_Skip rec who)
  then show ?thesis
    using assms acquire_law[OF assms(1), of x later "dr_review_id rec"]
    by (auto split: prod.splits sum.splits post_lease_result.splits if_splits)
next
  case (FT_Posting r pr)
  then show ?thesis using assms by (auto split: sum.splits)
next
  case (FT_Commit r p)
  then show ?thesis
    using assms by (auto simp: commit_snd)
next
  case (FT_Release r pr e)
  then show ?thesis
    using assms by (auto simp: release_snd)
next
  case (FT_Skip_Commit rec who)
  then show ?thesis
    using assms by (auto simp: commit_snd)
qed auto

lemma fresh_not_in_flight: "fresh_task t \<Longrightarrow> \<not> in_flight q t"
  by (cases t) auto

lemma exclusive_step: "exclusive w \<Longrightarrow> fleet_step ops w u \<Longrightarrow> exclusive u"
proof (elim fleet_step_cases)
  fix i and t :: "('a, 'b) fleet_task"
  assume ex: "exclusive w" and u: "u = w\<lparr>ft_tasks := (ft_tasks w)(i := t)\<rparr>" "fresh_task t"
  show "exclusive u" using ex u(2) unfolding u(1) exclusive_def by (auto dest: fresh_not_in_flight)
next
  fix i
  assume "exclusive w" "u = w\<lparr>ft_tasks := (ft_tasks w)(i := FT_Idle)\<rparr>"
  then show "exclusive u" by (auto simp: exclusive_def)
next
  fix x later post i t s
  assume ex: "exclusive w"
    and u: "u = \<lparr>ft_store = s, ft_tasks = (ft_tasks w)(i := t), ft_log = ft_log w @ step_verdict post (ft_tasks w i)\<rparr>"
    and run: "task_step ops x later post (ft_tasks w i) (ft_store w) = (t, s)"
  have inv: "inv (ft_store w)" using ex by (simp add: exclusive_def)
  note frame = task_frame[OF inv run]
  have held: "in_flight q (ft_tasks w j) \<Longrightarrow> status (ft_store w) q = LS_Held" for q j
    using ex unfolding exclusive_def by blast
  have uniq: "in_flight q (ft_tasks w j) \<Longrightarrow> in_flight q (ft_tasks w k) \<Longrightarrow> j = k" for q j k
    using ex unfolding exclusive_def by blast
  have other: "status s q = LS_Held \<and> \<not> in_flight q t" if "in_flight q (ft_tasks w j)" "j \<noteq> i" for q j
    using frame held[OF that(1)] uniq[OF that(1), of i] that(2) by blast
  have own: "status s q = LS_Held" if "in_flight q t" for q
    using frame that held[of q i] by auto
  show "exclusive u"
    unfolding exclusive_def u using frame other own by (auto dest: uniq split: if_splits)
qed

lemma exclusive_reaches: "fleet_reaches ops w u \<Longrightarrow> exclusive w \<Longrightarrow> exclusive u"
  by (induction rule: fleet_reaches.induct) (auto intro: exclusive_step)

text \<open>At no moment are two tasks between the claim and the end of the same review.\<close>

lemma one_in_flight:
  assumes "inv s" "fleet_reaches ops (fleet_start s) w" "in_flight q (ft_tasks w i)" "in_flight q (ft_tasks w j)"
  shows "i = j"
  using exclusive_reaches[OF assms(2) exclusive_start[OF assms(1)]] assms(3,4) by (auto simp: exclusive_def)

text \<open>A post that failed leaves the claim free: the next approve posts.\<close>

lemma failed_post_retries:
  assumes "inv s" "healthy x r" "healthy y r" "status s r = LS_Free"
    and fail: "post_with_lease ops x later r pr (Inl e) s = (res, s')"
  shows "res = Inr (PA_Failed (post_failure e pr))
    \<and> (\<exists>s''. post_with_lease ops y later' r pr' (Inr posted) s' = (Inr (PA_Posted posted), s''))"
proof -
  obtain s1 where a: "acquire x s later r = (Inr PL_Acquired, s1)"
    using acquire_free[OF assms(1,2,4), of later] by (metis prod.collapse)
  then have s1: "inv s1" "status s1 r = LS_Held" using acquire_law[OF assms(1) a] by simp_all
  obtain u s2 where r: "release x s1 r = (u, s2)" by fastforce
  then have s2: "inv s2" "status s2 r = LS_Free"
    using release_law[OF s1(1) r] release_held[OF s1(1) assms(2) s1(2)] by simp_all
  have res: "res = Inr (PA_Failed (post_failure e pr)) \<and> s' = s2" using fail a r by (auto simp: post_with_lease_def)
  obtain s3 where a2: "acquire y s2 later' r = (Inr PL_Acquired, s3)"
    using acquire_free[OF s2(1) assms(3) s2(2), of later'] by (metis prod.collapse)
  obtain v s4 where c: "commit y s3 r = (v, s4)" by fastforce
  show ?thesis using a2 c res by (simp add: post_with_lease_def)
qed

end

text \<open>A durable lease forgets nothing: committing one review leaves the others.\<close>

locale durable_lease = post_lease acquire commit release status inv healthy
  for acquire :: "'x \<Rightarrow> 's \<Rightarrow> 's \<Rightarrow> rstr \<Rightarrow> (cs_error + post_lease_result) \<times> 's"
    and commit :: "'x \<Rightarrow> 's \<Rightarrow> rstr \<Rightarrow> (cs_error + unit) \<times> 's"
    and release :: "'x \<Rightarrow> 's \<Rightarrow> rstr \<Rightarrow> (cs_error + unit) \<times> 's"
    and status :: "'s \<Rightarrow> rstr \<Rightarrow> lease_status"
    and inv :: "'s \<Rightarrow> bool"
    and healthy :: "'x \<Rightarrow> rstr \<Rightarrow> bool" +
  assumes commit_keeps: "inv s \<Longrightarrow> commit x s r = (out, s') \<Longrightarrow> q \<noteq> r \<Longrightarrow> status s' q = status s q"

begin

definition decided :: "('s, 'f, 't) fleet \<Rightarrow> bool" where
  "decided w \<longleftrightarrow> inv (ft_store w)
     \<and> distinct (map verdict_review (ft_log w))
     \<and> (\<forall>q \<in> verdict_review ` set (ft_log w). status (ft_store w) q \<noteq> LS_Free \<and> (\<forall>i. \<not> undecided q (ft_tasks w i)))
     \<and> (\<forall>i q. undecided q (ft_tasks w i) \<longrightarrow> status (ft_store w) q \<noteq> LS_Free)
     \<and> (\<forall>q i j. undecided q (ft_tasks w i) \<longrightarrow> undecided q (ft_tasks w j) \<longrightarrow> i = j)"

lemma commit_taken: "inv s \<Longrightarrow> status s q \<noteq> LS_Free \<Longrightarrow> status (snd (commit x s r)) q \<noteq> LS_Free"
  using commit_keeps[of s x r "fst (commit x s r)" "snd (commit x s r)" q] commit_snd(2)[of s x r] by (cases "q = r") auto

text \<open>
  A step of a task: a claim it enters was free and is taken; one it is not in stays taken, with it
  outside; a verdict ends a claim it was in.
\<close>

lemma step_decides:
  assumes "inv s" "task_step ops x later post t s = (t', s')"
  shows "inv s' \<and> length (step_verdict post t) \<le> 1
    \<and> (\<forall>q. undecided q t' \<longrightarrow> (undecided q t \<or> status s q = LS_Free) \<and> (status s q = LS_Free \<or> status s' q \<noteq> LS_Free)
        \<and> (undecided q t \<or> status s' q \<noteq> LS_Free))
    \<and> (\<forall>q. status s q \<noteq> LS_Free \<and> \<not> undecided q t \<longrightarrow> status s' q \<noteq> LS_Free \<and> \<not> undecided q t')
    \<and> (\<forall>q \<in> verdict_review ` set (step_verdict post t). undecided q t \<and> \<not> undecided q t'
        \<and> (status s q \<noteq> LS_Free \<longrightarrow> status s' q \<noteq> LS_Free))"
proof (cases t)
  case (FT_Approve r pr)
  then show ?thesis
    using assms acquire_law[OF assms(1), of x later r]
    by (auto split: prod.splits sum.splits post_lease_result.splits if_splits)
next
  case (FT_Skip rec who)
  then show ?thesis
    using assms acquire_law[OF assms(1), of x later "dr_review_id rec"]
    by (auto split: prod.splits sum.splits post_lease_result.splits if_splits)
next
  case (FT_Posting r pr)
  then show ?thesis using assms by (cases post) auto
qed (use assms in \<open>auto simp: commit_snd commit_taken release_snd\<close>)

lemma decided_step: "decided w \<Longrightarrow> fleet_step ops w u \<Longrightarrow> decided u"
proof (elim fleet_step_cases)
  fix i and t :: "('a, 'b) fleet_task"
  assume "decided w" "u = w\<lparr>ft_tasks := (ft_tasks w)(i := t)\<rparr>" "fresh_task t"
  then show "decided u" by (cases t) (auto simp: decided_def)
next
  fix i
  assume "decided w" "u = w\<lparr>ft_tasks := (ft_tasks w)(i := FT_Idle)\<rparr>"
  then show "decided u" by (auto simp: decided_def)
next
  fix x later post i t s
  assume d: "decided w"
    and u: "u = \<lparr>ft_store = s, ft_tasks = (ft_tasks w)(i := t), ft_log = ft_log w @ step_verdict post (ft_tasks w i)\<rparr>"
    and run: "task_step ops x later post (ft_tasks w i) (ft_store w) = (t, s)"
  have inv: "inv (ft_store w)" using d by (simp add: decided_def)
  note step = step_decides[OF inv run]
  let ?old = "verdict_review ` set (ft_log w)" and ?new = "verdict_review ` set (step_verdict post (ft_tasks w i))"
  have taken: "undecided q (ft_tasks w j) \<Longrightarrow> status (ft_store w) q \<noteq> LS_Free \<and> q \<notin> ?old" for q j
    using d unfolding decided_def by blast
  have uniq: "undecided q (ft_tasks w j) \<Longrightarrow> undecided q (ft_tasks w k) \<Longrightarrow> j = k" for q j k
    using d unfolding decided_def by blast
  have closed: "q \<in> ?old \<Longrightarrow> status (ft_store w) q \<noteq> LS_Free \<and> (\<forall>j. \<not> undecided q (ft_tasks w j))" for q
    using d unfolding decided_def by blast
  have other: "status s q \<noteq> LS_Free \<and> \<not> undecided q t" if "undecided q (ft_tasks w j)" "j \<noteq> i" for q j
    using step taken[OF that(1)] uniq[OF that(1), of i] that(2) by blast
  have own: "status s q \<noteq> LS_Free" if "undecided q t" for q
    using step that taken[of q i] by blast
  have logged: "status s q \<noteq> LS_Free \<and> \<not> undecided q t" if "q \<in> ?old" for q
    using step closed[OF that] by blast
  have new: "status s q \<noteq> LS_Free \<and> q \<notin> ?old \<and> \<not> undecided q t \<and> (\<forall>j. j \<noteq> i \<longrightarrow> \<not> undecided q (ft_tasks w j))" if "q \<in> ?new" for q
  proof -
    have q: "undecided q (ft_tasks w i)" "\<not> undecided q t" "status (ft_store w) q \<noteq> LS_Free \<longrightarrow> status s q \<noteq> LS_Free"
      using step that by blast+
    then have "\<not> undecided q (ft_tasks w j)" if "j \<noteq> i" for j using uniq[OF q(1), of j] that by auto
    then show ?thesis using q taken[OF q(1)] by blast
  qed
  have "distinct (map verdict_review (step_verdict post (ft_tasks w i)))"
    using step by (cases "step_verdict post (ft_tasks w i)") auto
  then have log: "distinct (map verdict_review (ft_log u))"
    using d new unfolding u decided_def by auto
  show "decided u"
    unfolding decided_def
  proof (intro conjI)
    show "inv (ft_store u)" using step by (simp add: u)
    show "\<forall>q \<in> verdict_review ` set (ft_log u). status (ft_store u) q \<noteq> LS_Free \<and> (\<forall>i. \<not> undecided q (ft_tasks u i))"
    proof
      fix q
      assume "q \<in> verdict_review ` set (ft_log u)"
      then have "q \<in> ?old \<or> q \<in> ?new" by (auto simp: u)
      then show "status (ft_store u) q \<noteq> LS_Free \<and> (\<forall>j. \<not> undecided q (ft_tasks u j))"
        using new[of q] logged[of q] closed[of q] by (auto simp: u)
    qed
    show "\<forall>j q. undecided q (ft_tasks u j) \<longrightarrow> status (ft_store u) q \<noteq> LS_Free"
      using own other by (auto simp: u)
    show "\<forall>q j k. undecided q (ft_tasks u j) \<longrightarrow> undecided q (ft_tasks u k) \<longrightarrow> j = k"
      using other uniq by (auto simp: u)
  qed (rule log)
qed

lemma decided_reaches: "fleet_reaches ops w u \<Longrightarrow> decided w \<Longrightarrow> decided u"
  by (induction rule: fleet_reaches.induct) (auto intro: decided_step)

lemma decided_start: "inv s \<Longrightarrow> decided (fleet_start s)"
  by (simp add: decided_def fleet_start_def)

text \<open>Over any interleaving, crashes included, a review gets one verdict at most: one post or one skip.\<close>

lemma one_verdict:
  assumes "inv s" "fleet_reaches ops (fleet_start s) w"
  shows "distinct (map verdict_review (ft_log w))"
  using decided_reaches[OF assms(2) decided_start[OF assms(1)]] by (simp add: decided_def)

end

section \<open>The in-process lease keeps the contract\<close>

definition mem_status :: "mem_lease \<Rightarrow> rstr \<Rightarrow> lease_status" where
  "mem_status g r = (case ml_states g r of None \<Rightarrow> LS_Free | Some b \<Rightarrow> if b then LS_Posted else LS_Held)"

definition mem_lease_inv :: "mem_lease \<Rightarrow> bool" where
  "mem_lease_inv g \<longleftrightarrow> ml_cap g > 0 \<and> length (ml_order g) \<le> ml_cap g \<and> distinct (ml_order g)
     \<and> (\<forall>r. r \<in> set (ml_order g) \<longleftrightarrow> ml_states g r = Some True)"

lemma mem_lease_start: "mem_lease_inv mem_lease_new" "mem_lease_inv (mem_lease_with_cap cap)"
  by (simp_all add: mem_lease_inv_def mem_lease_new_def mem_lease_with_cap_def max_posted_leases_def)

text \<open>One post over the cap evicts exactly the oldest posted lease.\<close>

lemma mem_commit_new:
  assumes "mem_lease_inv g" "ml_states g r \<noteq> Some True"
  shows "mem_commit g r = (Inr (),
    (if length (ml_order g) < ml_cap g
     then g\<lparr>ml_states := (ml_states g)(r \<mapsto> True), ml_order := ml_order g @ [r]\<rparr>
     else g\<lparr>ml_states := (ml_states g)(r \<mapsto> True, hd (ml_order g) := None), ml_order := tl (ml_order g) @ [r]\<rparr>))"
proof (cases "ml_order g")
  case Nil
  then show ?thesis using assms by (simp add: mem_commit_def mem_lease_inv_def)
next
  case (Cons old q)
  have old: "ml_states g old = Some True" using assms Cons by (auto simp: mem_lease_inv_def)
  have stop: "mem_evict (ml_cap g) st (q @ [r]) = (st, q @ [r])" for st
    using assms(1) Cons by (cases q) (auto simp: mem_lease_inv_def)
  have "old \<noteq> r" using old assms(2) by auto
  then show ?thesis
    using assms Cons old stop by (auto simp: mem_commit_def mem_lease_inv_def Let_def)
qed

lemma mem_commit_again:
  "ml_states g r = Some True \<Longrightarrow> mem_commit g r = (Inr (), g)"
  by (simp add: mem_commit_def Let_def fun_upd_idem)

lemma mem_commit_inv: "mem_lease_inv g \<Longrightarrow> mem_lease_inv (snd (mem_commit g r))"
proof (cases "ml_states g r = Some True")
  case False
  assume inv: "mem_lease_inv g"
  show ?thesis
  proof (cases "ml_order g")
    case Nil
    then show ?thesis using inv False by (auto simp: mem_commit_new mem_lease_inv_def)
  next
    case (Cons old q)
    then show ?thesis using inv False by (auto simp: mem_commit_new mem_lease_inv_def)
  qed
qed (simp add: mem_commit_again)

lemma mem_status_upd:
  "mem_status (g\<lparr>ml_states := (ml_states g)(r := v)\<rparr>)
     = (mem_status g)(r := (case v of None \<Rightarrow> LS_Free | Some b \<Rightarrow> if b then LS_Posted else LS_Held))"
  by (simp add: mem_status_def fun_eq_iff)

interpretation ml: post_lease "\<lambda>_ :: unit. \<lambda>s _ r. mem_acquire s r" "\<lambda>_. mem_commit" "\<lambda>_. mem_release"
  mem_status mem_lease_inv "\<lambda>_ _. True"
proof (unfold_locales, goal_cases)
  case (1 s x later r res s')
  then have "mem_lease_inv s'"
    by (auto simp: mem_acquire_def mem_lease_inv_def split: option.splits bool.splits if_splits)
  then show ?case
    using 1 by (auto simp: mem_acquire_def mem_status_upd mem_status_def[of s r] split: option.splits bool.splits)
next
  case (2 s x r out s')
  show ?case
  proof (cases "ml_states s r = Some True")
    case True
    then show ?thesis using 2 by (simp add: mem_commit_again)
  next
    case False
    have inv: "mem_lease_inv s'" using 2 mem_commit_inv[of s r] by simp
    have eq: "snd (mem_commit s r) = s'" using 2 by simp
    have hd: "ml_states s (hd (ml_order s)) = Some True" if "\<not> length (ml_order s) < ml_cap s"
      using 2(1) that by (cases "ml_order s") (auto simp: mem_lease_inv_def)
    show ?thesis using inv hd eq False 2(1) by (auto simp: mem_commit_new mem_status_def split: if_splits)
  qed
next
  case (3 s x r out s')
  then have "mem_lease_inv s'" by (auto simp: mem_release_def mem_lease_inv_def split: if_splits)
  then show ?case
    using 3 by (auto simp: mem_release_def mem_status_upd mem_status_def[of s r] split: if_splits)
qed (auto simp: mem_acquire_def mem_release_def mem_status_def split: option.splits bool.splits if_splits)

section \<open>The lease over a backend keeps the durable contract\<close>

definition row_status :: "rstr \<Rightarrow> cs_spec \<Rightarrow> rstr \<Rightarrow> lease_status" where
  "row_status tn p r =
     (case map_of (sp_rows p) (pl_collection, tn, r) of
        None \<Rightarrow> LS_Free
      | Some b \<Rightarrow> if b = pl_posted then LS_Posted else LS_Held)"

definition lease_rows :: "rstr \<Rightarrow> cs_spec \<Rightarrow> bool" where
  "lease_rows tn p \<longleftrightarrow> (\<forall>r b. map_of (sp_rows p) (pl_collection, tn, r) = Some b \<longrightarrow> b = pl_held \<or> b = pl_posted)"

lemmas lease_consts = pl_collection_def pl_held_def pl_posted_def

lemma check_lease_batch:
  "safe_segment tn \<Longrightarrow> safe_segment r \<Longrightarrow> b \<noteq> [] \<Longrightarrow>
     check_writes known es [W_Ensure tn, W_Cas c tn r x b] = Inr ()
   \<and> check_writes known es [W_Ensure tn, W_Put c tn r b] = Inr ()
   \<and> check_writes known es [W_Ensure tn, W_Cas c tn r x b, W_Delete c tn r] = Inr ()"
  by (simp add: seg_def check_target_def)

lemma spec_lease_batches:
  assumes "safe_segment tn" "safe_segment r"
  shows "spec_apply p [W_Ensure tn, W_Cas pl_collection tn r None pl_held] =
      (if row_status tn p r = LS_Free
       then Inr (p\<lparr>sp_tenants := insert tn (sp_tenants p), sp_rows := row_put (pl_collection, tn, r) pl_held (sp_rows p)\<rparr>)
       else Inl (cs_conflict pl_collection r))"
    and "spec_apply p [W_Ensure tn, W_Put pl_collection tn r pl_posted] =
      Inr (p\<lparr>sp_tenants := insert tn (sp_tenants p), sp_rows := row_put (pl_collection, tn, r) pl_posted (sp_rows p)\<rparr>)"
    and "lease_rows tn p \<Longrightarrow>
      spec_apply p [W_Ensure tn, W_Cas pl_collection tn r (Some pl_held) pl_held, W_Delete pl_collection tn r] =
      (if row_status tn p r = LS_Held
       then Inr (p\<lparr>sp_tenants := insert tn (sp_tenants p),
         sp_rows := filter (\<lambda>e. fst e \<noteq> (pl_collection, tn, r)) (row_put (pl_collection, tn, r) pl_held (sp_rows p))\<rparr>)
       else Inl (cs_conflict pl_collection r))"
  using check_lease_batch[OF assms, of pl_held] check_lease_batch[OF assms, of pl_posted]
  by (auto simp: spec_apply_def row_status_def lease_rows_def lease_consts split: option.splits)

lemma row_status_put:
  "row_status tn (p\<lparr>sp_tenants := T, sp_rows := row_put (pl_collection, tn, r) b (sp_rows p)\<rparr>)
     = (row_status tn p)(r := (if b = pl_posted then LS_Posted else LS_Held))"
  by (simp add: row_status_def map_of_row_put fun_eq_iff)

lemma row_status_delete:
  "row_status tn (p\<lparr>sp_tenants := T,
     sp_rows := filter (\<lambda>e. fst e \<noteq> (pl_collection, tn, r)) (row_put (pl_collection, tn, r) b (sp_rows p))\<rparr>)
     = (row_status tn p)(r := LS_Free)"
  by (simp add: row_status_def map_of_row_put map_of_filter_key fun_eq_iff)

lemma held_not_posted [simp]: "pl_held \<noteq> pl_posted"
  by (simp add: lease_consts)

lemma lease_rows_put:
  "lease_rows tn p \<Longrightarrow> b = pl_held \<or> b = pl_posted \<Longrightarrow>
     lease_rows tn (p\<lparr>sp_tenants := T, sp_rows := row_put (pl_collection, tn, r) b (sp_rows p)\<rparr>)"
  "lease_rows tn p \<Longrightarrow>
     lease_rows tn (p\<lparr>sp_tenants := T,
       sp_rows := filter (\<lambda>e. fst e \<noteq> (pl_collection, tn, r)) (row_put (pl_collection, tn, r) b (sp_rows p))\<rparr>)"
  by (simp_all add: lease_rows_def map_of_row_put map_of_filter_key)

locale store_lease = config_backend commit get listing spec inv healthy
  for commit :: "'x \<Rightarrow> 's \<Rightarrow> cs_write list \<Rightarrow> cs_error + 's"
    and get :: "'x \<Rightarrow> 's \<Rightarrow> card_key \<Rightarrow> cs_error + rstr option"
    and listing :: "'x \<Rightarrow> 's \<Rightarrow> rstr \<Rightarrow> rstr \<Rightarrow> cs_error + rstr list"
    and spec :: "'s \<Rightarrow> cs_spec"
    and inv :: "'s \<Rightarrow> bool"
    and healthy :: "'x \<Rightarrow> bool" +
  fixes tn :: rstr
  assumes tenant: "safe_segment tn"

begin

text \<open>What a lease batch does to a backend: its specified effect, or no effect and an error.\<close>

lemma lease_batch:
  assumes "inv s" "cas_settled {} ws"
  shows "(\<exists>s'. commit x s ws = Inr s' \<and> inv s' \<and> spec_apply (spec s) ws = Inr (spec s'))
    \<or> (\<exists>e. commit x s ws = Inl e \<and> (is_conflict e \<or> healthy x \<longrightarrow> spec_apply (spec s) ws = Inl e))"
proof (cases "commit x s ws")
  case (Inl e)
  then show ?thesis
    using apply_conflict[OF assms Inl] apply_healthy[OF assms, of x] by (auto split: sum.splits)
next
  case (Inr s')
  then show ?thesis using apply_ok[OF assms Inr] by blast
qed

abbreviation lease_put :: "rstr \<Rightarrow> rstr \<Rightarrow> cs_spec \<Rightarrow> cs_spec" where
  "lease_put r b p \<equiv> p\<lparr>sp_tenants := insert tn (sp_tenants p), sp_rows := row_put (pl_collection, tn, r) b (sp_rows p)\<rparr>"

abbreviation lease_drop :: "rstr \<Rightarrow> cs_spec \<Rightarrow> cs_spec" where
  "lease_drop r p \<equiv> p\<lparr>sp_tenants := insert tn (sp_tenants p),
     sp_rows := filter (\<lambda>e. fst e \<noteq> (pl_collection, tn, r)) (row_put (pl_collection, tn, r) pl_held (sp_rows p))\<rparr>"

lemma acquire_effect:
  assumes "inv s" "store_acquire commit get tn x s later r = (res, s')"
  shows "(res = Inr PL_Acquired \<and> inv s' \<and> row_status tn (spec s) r = LS_Free \<and> spec s' = lease_put r pl_held (spec s))
    \<or> (res \<noteq> Inr PL_Acquired \<and> s' = s)"
  using assms(2) lease_batch[OF assms(1), of "[W_Ensure tn, W_Cas pl_collection tn r None pl_held]" "fst x"]
    spec_lease_batches(1)[OF tenant, of r "spec s"]
  by (auto simp: store_acquire_def lease_check_def split: if_splits sum.splits)

lemma commit_effect:
  assumes "inv s" "store_commit commit tn x s r = (out, s')"
  shows "(inv s' \<and> spec s' = lease_put r pl_posted (spec s)) \<or> s' = s"
  using assms(2) lease_batch[OF assms(1), of "[W_Ensure tn, W_Put pl_collection tn r pl_posted]" "fst x"]
    spec_lease_batches(2)[OF tenant, of r "spec s"]
  by (auto simp: store_commit_def lease_check_def split: if_splits sum.splits)

lemma release_effect:
  assumes "inv s" "lease_rows tn (spec s)" "store_release commit tn x s r = (out, s')"
  shows "(inv s' \<and> row_status tn (spec s) r = LS_Held \<and> spec s' = lease_drop r (spec s)) \<or> s' = s"
  using assms(3) spec_lease_batches(3)[OF tenant _ assms(2), of r]
    lease_batch[OF assms(1), of "[W_Ensure tn, W_Cas pl_collection tn r (Some pl_held) pl_held, W_Delete pl_collection tn r]" "fst x"]
  by (auto simp: store_release_def lease_check_def split: if_splits sum.splits)

lemma healthy_acquire:
  assumes "inv s" "healthy (fst x)" "safe_segment r" "row_status tn (spec s) r = LS_Free"
  shows "fst (store_acquire commit get tn x s later r) = Inr PL_Acquired"
  using spec_lease_batches(1)[OF tenant assms(3), of "spec s"] assms
    lease_batch[OF assms(1), of "[W_Ensure tn, W_Cas pl_collection tn r None pl_held]" "fst x"]
  by (auto simp: store_acquire_def lease_check_def)

lemma healthy_release:
  assumes "inv s" "lease_rows tn (spec s)" "healthy (fst x)" "safe_segment r" "row_status tn (spec s) r = LS_Held"
  shows "row_status tn (spec (snd (store_release commit tn x s r))) r = LS_Free"
proof -
  let ?ws = "[W_Ensure tn, W_Cas pl_collection tn r (Some pl_held) pl_held, W_Delete pl_collection tn r]"
  have sp: "spec_apply (spec s) ?ws = Inr (lease_drop r (spec s))"
    using spec_lease_batches(3)[OF tenant assms(4,2)] assms(5) by simp
  then obtain s' where s': "commit (fst x) s ?ws = Inr s'" "lease_drop r (spec s) = spec s'"
    using lease_batch[OF assms(1), of ?ws "fst x"] assms(3) by auto
  then have "snd (store_release commit tn x s r) = s'" using assms(4) by (simp add: store_release_def lease_check_def)
  then show ?thesis using row_status_delete[where p = "spec s"] s'(2)[symmetric] by simp
qed

end

sublocale store_lease \<subseteq> lease: durable_lease "store_acquire commit get tn" "store_commit commit tn"
  "store_release commit tn" "\<lambda>s. row_status tn (spec s)" "\<lambda>s. inv s \<and> lease_rows tn (spec s)"
  "\<lambda>x r. healthy (fst x) \<and> safe_segment r"
proof (unfold_locales, goal_cases)
  case (1 s x later r res s')
  then show ?case
    using acquire_effect[of s x later r res s'] by (auto simp: row_status_put lease_rows_put held_not_posted)
next
  case (2 s x r out s')
  then show ?case
    using commit_effect[of s x r out s'] by (auto simp: row_status_put lease_rows_put)
next
  case (3 s x r out s')
  then show ?case
    using release_effect[of s x r out s'] by (auto simp: row_status_delete lease_rows_put)
next
  case (6 s x r out s' q)
  then show ?case
    using commit_effect[of s x r out s'] by (auto simp: row_status_put)
qed (auto intro: healthy_acquire healthy_release)

section \<open>Over the three backends\<close>

text \<open>\<open>DEFAULT_TENANT\<close>, the scope \<open>StorePostLease::new\<close> takes.\<close>

lemma default_tenant_safe: "safe_segment pl_default_tenant"
  by code_simp

interpretation mem_pl: store_lease "\<lambda>_ :: unit. mem_apply" "\<lambda>_ m k. Inr (mem_get m k)" "\<lambda>_ m c t. Inr (mem_list m c t)"
  mem_spec mem_inv "\<lambda>_. True" pl_default_tenant
  by unfold_locales (rule default_tenant_safe)

interpretation fil_pl: store_lease file_apply file_get file_list "\<lambda>d. bundle_spec (file_bundle d)"
  "\<lambda>d. rows_inv (bu_cards (file_bundle d))" file_healthy pl_default_tenant
  by unfold_locales (rule default_tenant_safe)

interpretation sql_pl: store_lease sql_apply sql_get sql_list sql_spec sql_inv "\<lambda>x. x = None" pl_default_tenant
  by unfold_locales (rule default_tenant_safe)

definition sql_lease :: "(rstr option \<times> rstr option, sql_store) lease_ops" where
  "sql_lease = \<lparr>lo_acquire = store_acquire sql_apply sql_get pl_default_tenant,
     lo_commit = store_commit sql_apply pl_default_tenant, lo_release = store_release sql_apply pl_default_tenant\<rparr>"

definition file_lease :: "(file_env \<times> file_env, store_bundle option) lease_ops" where
  "file_lease = \<lparr>lo_acquire = store_acquire file_apply file_get pl_default_tenant,
     lo_commit = store_commit file_apply pl_default_tenant, lo_release = store_release file_apply pl_default_tenant\<rparr>"

definition memory_lease :: "(unit, mem_lease) lease_ops" where
  "memory_lease = \<lparr>lo_acquire = (\<lambda>_ s _ r. mem_acquire s r), lo_commit = (\<lambda>_. mem_commit), lo_release = (\<lambda>_. mem_release)\<rparr>"


text \<open>
  Property C28. With the in-process lease two tasks never stand between the claim and the end of the same
  review: no two posts of one review are ever in flight together.
\<close>

theorem posting_is_exclusive:
  assumes "fleet_reaches memory_lease (fleet_start (mem_lease_with_cap cap)) w"
    "in_flight r (ft_tasks w i)" "in_flight r (ft_tasks w j)"
  shows "i = j"
  using ml.one_in_flight[OF mem_lease_start(2)] assms unfolding memory_lease_def by blast

text \<open>
  A post the forge refused gives the claim back: over a store that answers, the approve
  returns the refusal and the next approve of the review posts.
\<close>

theorem refused_post_retries:
  assumes "sql_inv q" "lease_rows pl_default_tenant (sql_spec q)" "safe_segment r"
    "row_status pl_default_tenant (sql_spec q) r = LS_Free"
    "post_with_lease sql_lease (None, None) later r pr (Inl e) q = (res, q')"
  shows "res = Inr (PA_Failed (post_failure e pr))
    \<and> (\<exists>q''. post_with_lease sql_lease (None, None) later' r pr' (Inr posted) q' = (Inr (PA_Posted posted), q''))"
  using sql_pl.lease.failed_post_retries[of q "(None, None)" r "(None, None)" later pr e res q' later' pr' posted] assms
  by (simp add: sql_lease_def)

section \<open>Concrete runs\<close>

definition fleet_begin :: "nat \<Rightarrow> ('f, 't) fleet_task \<Rightarrow> ('s, 'f, 't) fleet \<Rightarrow> ('s, 'f, 't) fleet" where
  "fleet_begin i t w = w\<lparr>ft_tasks := (ft_tasks w)(i := t)\<rparr>"

definition fleet_run :: "('x, 's) lease_ops \<Rightarrow> 'x \<Rightarrow> cs_error + 't \<Rightarrow> nat \<Rightarrow> ('s, 'f, 't) fleet \<Rightarrow> ('s, 'f, 't) fleet" where
  "fleet_run ops x post i w =
     (let ts = task_step ops x (ft_store w) post (ft_tasks w i) (ft_store w) in
      \<lparr>ft_store = snd ts, ft_tasks = (ft_tasks w)(i := fst ts), ft_log = ft_log w @ step_verdict post (ft_tasks w i)\<rparr>)"

lemma reaches_begin:
  "fleet_reaches ops w v \<Longrightarrow> ft_tasks v i = FT_Idle \<Longrightarrow> fresh_task t \<Longrightarrow> fleet_reaches ops w (fleet_begin i t v)"
  unfolding fleet_begin_def by (rule reach_step) (auto intro: begin_task)

lemma reaches_run: "fleet_reaches ops w v \<Longrightarrow> fleet_reaches ops w (fleet_run ops x post i v)"
  unfolding fleet_run_def Let_def by (rule reach_step) (auto intro!: run_task simp: prod_eq_iff)

definition demo_draft :: "nat draft_record" where
  "demo_draft = \<lparr>dr_review_id = ''r1'', dr_repo = ''o__r'', dr_pr_number = 7, dr_head_sha = ''abc'', dr_risk_score = 0,
     dr_gate_failed = False, dr_n_findings = 0, dr_files_changed = 0, dr_additions = 0, dr_deletions = 0,
     dr_draft_path = ''p'', dr_status = ''drafted'', dr_requested_by = [], dr_approved_by = []\<rparr>"

text \<open>An approve claims, a skip of the same review stands down, the post lands, its commit is lost.\<close>

definition demo_race :: "(rstr option \<times> rstr option, 's) lease_ops \<Rightarrow> 's \<Rightarrow> ('s, nat, nat) fleet" where
  "demo_race ops s =
     fleet_run ops (Some ''disk full'', None) (Inr 1) 0 (fleet_run ops (None, None) (Inr 1) 0
     (fleet_run ops (None, None) (Inr 1) 1 (fleet_run ops (None, None) (Inr 1) 0
     (fleet_begin 1 (FT_Skip demo_draft None) (fleet_begin 0 (FT_Approve ''r1'' 7) (fleet_start s))))))"

lemma demo_race_reaches: "fleet_reaches ops (fleet_start s) (demo_race ops s)"
  unfolding demo_race_def
  by (intro reaches_run reaches_begin reach_start) (simp_all add: fleet_start_def fleet_begin_def)

lemma demo_race_result:
  "ft_log (demo_race sql_lease sql_new) = [V_Posted ''r1'']
   \<and> ft_tasks (demo_race sql_lease sql_new) 1 = FT_Skipped (Inr (SK_AlreadyPosted, None))"
  by code_simp


lemma memory_race_reaches: "fleet_reaches memory_lease (fleet_start s)
    (fleet_run memory_lease () (Inr 2) 0 (fleet_begin 0 (FT_Approve ''r1'' 7) (fleet_start s)))"
  by (intro reaches_run reaches_begin reach_start) (simp_all add: fleet_start_def)

lemma posting_is_exclusive_witness:
  "let w = fleet_run memory_lease () (Inr (2::nat)) 0 (fleet_begin 0 (FT_Approve ''r1'' 7) (fleet_start (mem_lease_with_cap 0))
      :: (mem_lease, nat, nat) fleet)
   in in_flight ''r1'' (ft_tasks w 0) \<and> (\<forall>j. in_flight ''r1'' (ft_tasks w j) \<longrightarrow> 0 = j)"
proof -
  let ?w = "fleet_run memory_lease () (Inr (2::nat)) 0 (fleet_begin 0 (FT_Approve ''r1'' 7) (fleet_start (mem_lease_with_cap 0))
      :: (mem_lease, nat, nat) fleet)"
  have "in_flight ''r1'' (ft_tasks ?w 0)" by code_simp
  then show ?thesis using posting_is_exclusive[OF memory_race_reaches[of "mem_lease_with_cap 0"]] by (auto simp: Let_def)
qed

lemma demo_id_safe: "safe_segment ''r1''"
  by code_simp

lemma refused_post_retries_witness:
  "let refusal = CE_Repo ''forge api returned http 403'';
       run = post_with_lease sql_lease (None, None) sql_new ''r1'' 7 (Inl refusal :: cs_error + nat) sql_new
   in fst run = Inr (PA_Failed (post_failure refusal 7))
     \<and> (\<exists>q. post_with_lease sql_lease (None, None) sql_new ''r1'' 7 (Inr (2::nat)) (snd run) = (Inr (PA_Posted 2), q))"
  using refused_post_retries[OF fresh_stores(2) _ demo_id_safe _ surjective_pairing,
      of sql_new 7 "CE_Repo ''forge api returned http 403''" sql_new 7 2]
  by (simp add: fresh_stores lease_rows_def row_status_def Let_def)

text \<open>The in-process lease forgets what it evicts: with room for one review, the first posts again after the second.\<close>

lemma evicted_review_posts_again:
  "fst (mem_acquire (snd (mem_commit (snd (mem_acquire (snd (mem_commit (snd (mem_acquire (mem_lease_with_cap 1) ''a'')) ''a'')) ''b'')) ''b'')) ''a'')
     = Inr PL_Acquired"
  by (simp add: mem_acquire_def mem_commit_def mem_lease_with_cap_def)

end
