(* ===== verification/Schedule.thy ===== *)
theory Schedule
  imports Prelude
begin

text \<open>
  Schedule specs and next fire times, \<open>crates/agent-scheduler/src/schedule.rs\<close>: the parser of
  operator-written specs, the five-field cron subset, the civil clock and \<open>next_fire\<close>. A
  \<open>Scheduler\<close> error is its text. The one unchecked multiplication of \<open>next_fire\<close> that can leave
  64 bits is the value \<open>P_Overflow\<close>.
\<close>

section \<open>Cron fields\<close>

datatype field = Field_Any | Field_Set "nat list"

definition u32_max :: nat where "u32_max = 4294967295"

definition parse_num :: "rstr \<Rightarrow> nat \<Rightarrow> nat \<Rightarrow> rstr + nat" where
  "parse_num s lo hi =
     (case parse_uint u32_max (str_trim s) of
        None \<Rightarrow> Inl (''bad cron value `'' @ s @ ''`'')
      | Some n \<Rightarrow>
          if n < lo \<or> n > hi
          then Inl (''cron value `'' @ show_nat n @ ''` out of range '' @ show_nat lo @ ''..='' @ show_nat hi)
          else Inr n)"

text \<open>The value loop; the caller has refused a zero step.\<close>

function step_values :: "nat \<Rightarrow> nat \<Rightarrow> nat \<Rightarrow> nat list" where
  "step_values v hi step =
     (if v \<le> hi \<and> 0 < step
      then v # (if v + step \<le> u32_max then step_values (v + step) hi step else [])
      else [])"
  by pat_completeness auto
termination
  by (relation "measure (\<lambda>(v, hi, step). Suc hi - v)") auto

declare step_values.simps [simp del]

definition parse_part :: "rstr \<Rightarrow> nat \<Rightarrow> nat \<Rightarrow> rstr + nat list" where
  "parse_part part lo hi =
     (let part = str_trim part in
      if part = [] then Inl ''empty cron field element''
      else
        bindR (case split_once CHR ''/'' part of
            Some (r, s) \<Rightarrow> (case parse_uint u32_max s of
                None \<Rightarrow> Inl (''bad cron step `'' @ s @ ''`'') | Some step \<Rightarrow> Inr (r, step))
          | None \<Rightarrow> Inr (part, 1)) (\<lambda>(range, step).
        if step = 0 then Inl ''cron step must be greater than zero''
        else
          bindR (if range = ''*'' then Inr (lo, hi)
              else (case split_once CHR ''-'' range of
                  Some (a, b) \<Rightarrow> bindR (parse_num a lo hi) (\<lambda>x. bindR (parse_num b lo hi) (\<lambda>y. Inr (x, y)))
                | None \<Rightarrow> bindR (parse_num range lo hi) (\<lambda>n. Inr (n, n)))) (\<lambda>(a, b).
          if a > b then Inl (''inverted cron range `'' @ range @ ''`'')
          else Inr (step_values a b step))))"

fun parse_parts :: "rstr list \<Rightarrow> nat \<Rightarrow> nat \<Rightarrow> rstr + nat list" where
  "parse_parts [] lo hi = Inr []"
| "parse_parts (p # ps) lo hi =
     bindR (parse_part p lo hi) (\<lambda>vs. bindR (parse_parts ps lo hi) (\<lambda>ws. Inr (vs @ ws)))"

definition field_parse :: "rstr \<Rightarrow> nat \<Rightarrow> nat \<Rightarrow> rstr + field" where
  "field_parse spec lo hi =
     (if spec = ''*'' then Inr Field_Any
      else bindR (parse_parts (split_on CHR '','' spec) lo hi) (\<lambda>vs.
        let out = remdups_adj (sort vs)
        in if out = [] then Inl ''cron field matches nothing'' else Inr (Field_Set out)))"

fun field_contains :: "field \<Rightarrow> nat \<Rightarrow> bool" where
  "field_contains Field_Any v = True"
| "field_contains (Field_Set s) v = (v \<in> set s)"

record cron_fields =
  cf_minute :: field
  cf_hour :: field
  cf_dom :: field
  cf_month :: field
  cf_dow :: field

text \<open>\<open>split_whitespace\<close>.\<close>

fun words_of :: "rstr list \<Rightarrow> rstr \<Rightarrow> rstr list" where
  "words_of [] acc = (if acc = [] then [] else [acc])"
| "words_of (c # cs) acc =
     (if ws_char c then (if acc = [] then words_of cs [] else acc # words_of cs []) else words_of cs (acc @ c))"

definition split_whitespace :: "rstr \<Rightarrow> rstr list" where
  "split_whitespace s = words_of (str_chars s) []"

definition cron_parse :: "rstr \<Rightarrow> rstr + cron_fields" where
  "cron_parse expr =
     (case split_whitespace expr of
        [a, b, c, d, e] \<Rightarrow>
          bindR (field_parse a 0 59) (\<lambda>minute.
          bindR (field_parse b 0 23) (\<lambda>hour.
          bindR (field_parse c 1 31) (\<lambda>dom.
          bindR (field_parse d 1 12) (\<lambda>month.
          bindR (field_parse e 0 7) (\<lambda>dow.
          Inr \<lparr>cf_minute = minute, cf_hour = hour, cf_dom = dom, cf_month = month, cf_dow = dow\<rparr>)))))
      | f \<Rightarrow> Inl (''cron expression needs 5 fields (minute hour day month weekday), got '' @ show_nat (length f)))"

section \<open>The civil clock\<close>

record civil =
  cv_month :: nat
  cv_day :: nat
  cv_hour :: nat
  cv_minute :: nat
  cv_weekday :: nat

text \<open>Every quantity of the code is non-negative here: \<open>days\<close> comes from an unsigned value.\<close>

definition year_of_era :: "nat \<Rightarrow> nat" where
  "year_of_era doe = (doe - doe div 1460 + doe div 36524 - doe div 146096) div 365"

definition day_of_year :: "nat \<Rightarrow> nat" where
  "day_of_year doe = (let yoe = year_of_era doe in doe - (365 * yoe + yoe div 4 - yoe div 100))"

definition month_day :: "nat \<Rightarrow> nat \<times> nat" where
  "month_day doy =
     (let mp = (5 * doy + 2) div 153;
          day = doy - (153 * mp + 2) div 5 + 1;
          month = (if mp < 10 then mp + 3 else mp - 9)
      in (month, day))"

definition civil_from_epoch_ms :: "nat \<Rightarrow> civil" where
  "civil_from_epoch_ms ms =
     (let secs = ms div 1000;
          days = secs div 86400;
          rem = secs mod 86400;
          weekday = (days mod 7 + 4 + 7) mod 7;
          doe = (days + 719468) mod 146097;
          (month, day) = month_day (day_of_year doe)
      in \<lparr>cv_month = month, cv_day = day, cv_hour = rem div 3600, cv_minute = (rem mod 3600) div 60,
          cv_weekday = weekday\<rparr>)"

definition cron_matches :: "cron_fields \<Rightarrow> nat \<Rightarrow> bool" where
  "cron_matches f ms =
     (let t = civil_from_epoch_ms ms;
          dow_ok = (field_contains (cf_dow f) (cv_weekday t)
            \<or> (cv_weekday t = 0 \<and> field_contains (cf_dow f) 7)
            \<or> (cv_weekday t = 7 \<and> field_contains (cf_dow f) 0))
      in field_contains (cf_minute f) (cv_minute t) \<and> field_contains (cf_hour f) (cv_hour t)
         \<and> field_contains (cf_month f) (cv_month t)
         \<and> (if cf_dom f = Field_Any \<or> cf_dow f = Field_Any
            then field_contains (cf_dom f) (cv_day t) \<and> dow_ok
            else field_contains (cf_dom f) (cv_day t) \<or> dow_ok))"

section \<open>Specs\<close>

datatype schedule = Sched_Once nat | Sched_Interval nat | Sched_Cron rstr

definition minute_ms :: nat where "minute_ms = 60000"

definition duration_unit :: "rstr \<Rightarrow> (rstr \<times> nat) option" where
  "duration_unit s =
     (if str_chars s = [] then None
      else (let c = last (str_chars s); num = take (length s - 1) s in
        if c = ''s'' then Some (num, 1) else if c = ''m'' then Some (num, 60)
        else if c = ''h'' then Some (num, 3600) else if c = ''d'' then Some (num, 86400)
        else (case c of [b] \<Rightarrow> if is_ascii_digit b then Some (s, 1) else None | _ \<Rightarrow> None)))"

definition parse_duration_secs :: "rstr \<Rightarrow> rstr + nat" where
  "parse_duration_secs s =
     (let s = str_trim s; bad = Inl (''unrecognised duration `'' @ s @ ''`'') in
      case duration_unit s of
        None \<Rightarrow> bad
      | Some (num, mult) \<Rightarrow>
          (case parse_uint u64_max (str_trim num) of
             None \<Rightarrow> bad
           | Some n \<Rightarrow> if n * mult > u64_max then Inl (''duration `'' @ s @ ''` overflows'') else Inr (n * mult)))"

definition sched_parse :: "rstr \<Rightarrow> nat \<Rightarrow> rstr + schedule" where
  "sched_parse spec now =
     (let s = str_trim spec in
      if s = [] then Inl ''schedule spec is empty''
      else
        (let lower = ascii_lowercase s in
         case strip_prefix ''every '' lower of
           Some rest \<Rightarrow> bindR (parse_duration_secs (str_trim rest)) (\<lambda>secs.
             if secs = 0 then Inl ''interval must be greater than zero'' else Inr (Sched_Interval secs))
         | None \<Rightarrow>
             (case strip_prefix ''in '' lower of
                Some rest \<Rightarrow> bindR (parse_duration_secs (str_trim rest)) (\<lambda>secs.
                  Inr (Sched_Once (sat_add64 now (sat_mul64 secs 1000))))
              | None \<Rightarrow>
                  (case strip_prefix ''once:'' lower of
                     Some rest \<Rightarrow> (case parse_uint u64_max (str_trim rest) of
                         None \<Rightarrow> Inl ''`once:` needs an epoch-millisecond value''
                       | Some at \<Rightarrow> Inr (Sched_Once at))
                   | None \<Rightarrow>
                       (let body = str_trim (case strip_prefix ''cron:'' lower of Some b \<Rightarrow> b | None \<Rightarrow> lower)
                        in bindR (cron_parse body) (\<lambda>_. Inr (Sched_Cron body)))))))"

section \<open>The next fire\<close>

datatype sched_panic = P_Overflow

definition scan_minutes :: nat where "scan_minutes = 366 * 24 * 60"

definition fire_at :: "nat \<Rightarrow> nat \<Rightarrow> nat" where
  "fire_at start i = sat_add64 start (i * minute_ms)"

definition next_fire :: "schedule \<Rightarrow> nat \<Rightarrow> sched_panic + nat option" where
  "next_fire s after =
     (case s of
        Sched_Once at \<Rightarrow> Inr (if at > after then Some at else None)
      | Sched_Interval secs \<Rightarrow> Inr (Some (sat_add64 after (sat_mul64 (max secs 1) 1000)))
      | Sched_Cron expr \<Rightarrow>
          (case cron_parse expr of
             Inl _ \<Rightarrow> Inr None
           | Inr f \<Rightarrow>
               (let start = (after div minute_ms + 1) * minute_ms
                in if start > u64_max then Inl P_Overflow
                   else Inr (map_option (fire_at start)
                     (find (\<lambda>i. cron_matches f (fire_at start i)) [0..<scan_minutes])))))"

section \<open>Field values\<close>

lemma step_values_range: "x \<in> set (step_values v hi step) \<Longrightarrow> v \<le> x \<and> x \<le> hi"
  by (induction v hi step rule: step_values.induct)
    (subst (asm) (2) step_values.simps, auto split: if_splits)

lemma step_values_iff:
  "0 < step \<Longrightarrow> hi + step \<le> u32_max \<Longrightarrow>
    x \<in> set (step_values v hi step) \<longleftrightarrow> (\<exists>k. x = v + k * step \<and> x \<le> hi)"
proof (induction v hi step rule: step_values.induct)
  case (1 v hi step)
  show ?case
  proof (cases "v \<le> hi")
    case True
    then have ih: "x \<in> set (step_values (v + step) hi step) \<longleftrightarrow> (\<exists>k. x = v + step + k * step \<and> x \<le> hi)"
      using 1 by auto
    have "x \<in> set (step_values v hi step) \<longleftrightarrow> x = v \<or> x \<in> set (step_values (v + step) hi step)"
      using True 1(2,3) by (subst step_values.simps) auto
    also have "\<dots> \<longleftrightarrow> (\<exists>k. x = v + k * step \<and> x \<le> hi)"
    proof
      assume "x = v \<or> x \<in> set (step_values (v + step) hi step)"
      then show "\<exists>k. x = v + k * step \<and> x \<le> hi"
      proof
        assume "x = v"
        then show ?thesis using True by (intro exI[of _ 0]) simp
      next
        assume "x \<in> set (step_values (v + step) hi step)"
        then obtain k where "x = v + step + k * step" "x \<le> hi" using ih by blast
        then show ?thesis by (intro exI[of _ "Suc k"]) simp
      qed
    next
      assume "\<exists>k. x = v + k * step \<and> x \<le> hi"
      then obtain k where k: "x = v + k * step" "x \<le> hi" by blast
      then show "x = v \<or> x \<in> set (step_values (v + step) hi step)"
        unfolding ih by (cases k) auto
    qed
    finally show ?thesis .
  next
    case False
    then show ?thesis by (subst step_values.simps) auto
  qed
qed

lemma parse_num_range: "parse_num s lo hi = Inr n \<Longrightarrow> lo \<le> n \<and> n \<le> hi"
  by (auto simp: parse_num_def split: option.splits if_splits)

lemma parse_part_range:
  "parse_part p lo hi = Inr vs \<Longrightarrow> x \<in> set vs \<Longrightarrow> lo \<le> x \<and> x \<le> hi"
  unfolding parse_part_def Let_def
  by (auto simp: bindR_Inr dest!: step_values_range dest: parse_num_range split: if_splits option.splits)
    (auto dest!: parse_num_range)

lemma parse_parts_range: "parse_parts ps lo hi = Inr vs \<Longrightarrow> x \<in> set vs \<Longrightarrow> lo \<le> x \<and> x \<le> hi"
proof (induction ps arbitrary: vs)
  case (Cons p ps)
  then show ?case using parse_part_range by (fastforce simp: bindR_Inr)
qed simp

lemma sorted_dedup:
  "sorted (remdups_adj (sort vs)) \<and> distinct (remdups_adj (sort (vs :: nat list)))
   \<and> set (remdups_adj (sort vs)) = set vs"
proof -
  have "sorted xs \<Longrightarrow> distinct (remdups_adj xs)" for xs :: "nat list"
    by (induction xs rule: remdups_adj.induct) auto
  then show ?thesis by (simp add: sorted_remdups_adj)
qed

definition field_ok :: "nat \<Rightarrow> nat \<Rightarrow> field \<Rightarrow> bool" where
  "field_ok lo hi f = (case f of Field_Any \<Rightarrow> True
     | Field_Set vs \<Rightarrow> vs \<noteq> [] \<and> sorted vs \<and> distinct vs \<and> list_all (\<lambda>v. lo \<le> v \<and> v \<le> hi) vs)"

lemma field_parse_ok: "field_parse spec lo hi = Inr f \<Longrightarrow> field_ok lo hi f"
  using sorted_dedup parse_parts_range
  by (fastforce simp: field_parse_def field_ok_def bindR_Inr Let_def list_all_iff split: if_splits)

text \<open>
  A cron expression that is accepted has five non-empty fields of strictly increasing
  values inside their ranges, so no field can name an impossible minute, hour, day, month or
  weekday, however large the steps written.
\<close>

theorem cron_fields_in_range:
  "case cron_parse expr of Inl _ \<Rightarrow> True
   | Inr f \<Rightarrow> field_ok 0 59 (cf_minute f) \<and> field_ok 0 23 (cf_hour f) \<and> field_ok 1 31 (cf_dom f)
       \<and> field_ok 1 12 (cf_month f) \<and> field_ok 0 7 (cf_dow f)"
proof (cases "cron_parse expr")
  case (Inr f)
  then obtain a b c d e where "split_whitespace expr = [a, b, c, d, e]"
    by (auto simp: cron_parse_def split: list.splits)
  then show ?thesis
    using Inr by (auto simp: cron_parse_def bindR_Inr intro: field_parse_ok)
qed simp

end
