(* ===== verification/Calendar.thy ===== *)
theory Calendar
  imports Schedule
begin

text \<open>
  The civil clock of \<open>crates/agent-scheduler/src/schedule.rs\<close> against the Gregorian calendar, which
  is stated here on its own as a day-by-day step from 1970-01-01, and the next fire of a schedule
  against the minutes it stands for.
\<close>

section \<open>The calendar\<close>

definition leap :: "nat \<Rightarrow> bool" where
  "leap y \<longleftrightarrow> 4 dvd y \<and> (100 dvd y \<longrightarrow> 400 dvd y)"

definition month_len :: "nat \<Rightarrow> nat \<Rightarrow> nat" where
  "month_len y m = (if m = 2 then (if leap y then 29 else 28) else if m \<in> {4, 6, 9, 11} then 30 else 31)"

fun next_day :: "nat \<times> nat \<times> nat \<Rightarrow> nat \<times> nat \<times> nat" where
  "next_day (y, m, d) =
     (if d < month_len y m then (y, m, d + 1)
      else if m < 12 then (y, m + 1, 1) else (y + 1, 1, 1))"

primrec calendar :: "nat \<Rightarrow> nat \<times> nat \<times> nat" where
  "calendar 0 = (1970, 1, 1)"
| "calendar (Suc n) = next_day (calendar n)"

section \<open>Years that begin in March\<close>

definition year_start :: "nat \<Rightarrow> nat" where
  "year_start y = 365 * y + y div 4 - y div 100 + y div 400"

definition march_len :: "nat \<Rightarrow> nat" where
  "march_len y = (if leap (y + 1) then 366 else 365)"

lemma div_Suc_dvd: "0 < k \<Longrightarrow> Suc y div k = y div k + (if k dvd Suc y then 1 else 0)"
  by (simp add: div_Suc dvd_eq_mod_eq_0)

lemma year_start_Suc: "year_start (Suc y) = year_start y + march_len y"
proof -
  define p q r where "p = (4 dvd Suc y)" "q = (100 dvd Suc y)" "r = (400 dvd Suc y)"
  have steps: "Suc y div 4 = y div 4 + (if p then 1 else 0)" "Suc y div 100 = y div 100 + (if q then 1 else 0)"
    "Suc y div 400 = y div 400 + (if r then 1 else 0)"
    unfolding p_q_r_def by (rule div_Suc_dvd, simp)+
  have imp: "q \<Longrightarrow> p" "r \<Longrightarrow> q"
    unfolding p_q_r_def by (auto intro: dvd_trans[rotated])
  have len: "march_len y = (if p \<and> (q \<longrightarrow> r) then 366 else 365)"
    by (simp add: march_len_def leap_def p_q_r_def)
  have "y div 100 \<le> y" by simp
  then show ?thesis
    unfolding year_start_def steps len using imp by (cases p; cases q; cases r) simp_all
qed

definition era_sum :: "nat \<Rightarrow> nat" where
  "era_sum doe = doe - doe div 1460 + doe div 36524 - doe div 146096"

lemma year_of_era_sum: "year_of_era doe = era_sum doe div 365"
  by (simp add: year_of_era_def era_sum_def)

lemma era_sum_Suc: "Suc n < 146097 \<Longrightarrow> era_sum n \<le> era_sum (Suc n)"
proof -
  assume n: "Suc n < 146097"
  define p q r where "p = (1460 dvd Suc n)" "q = (36524 dvd Suc n)" "r = (146096 dvd Suc n)"
  have steps: "Suc n div 1460 = n div 1460 + (if p then 1 else 0)" "Suc n div 36524 = n div 36524 + (if q then 1 else 0)"
    "Suc n div 146096 = n div 146096 + (if r then 1 else 0)"
    unfolding p_q_r_def by (rule div_Suc_dvd, simp)+
  have imp: "r \<Longrightarrow> q"
    unfolding p_q_r_def by (auto intro: dvd_trans[rotated])
  have bounds: "n div 1460 \<le> n" "n div 146096 \<le> n div 36524"
    by (simp_all add: div_le_mono2)
  have arith: "n - a + b - c \<le> Suc n - (a + (if p then 1 else 0)) + (b + (if q then 1 else 0)) - (c + (if r then 1 else 0))"
    if "a \<le> n" "c \<le> b" for a b c
    using imp that by (cases p; cases q; cases r) auto
  show ?thesis
    unfolding era_sum_def steps by (rule arith) (use bounds in auto)
qed

lemma era_sum_mono: "m \<le> n \<Longrightarrow> n < 146097 \<Longrightarrow> era_sum m \<le> era_sum n"
proof (induction n rule: dec_induct)
  case (step n)
  then show ?case using era_sum_Suc[of n] by linarith
qed simp

text \<open>A year of the era, by its century, its leap cycle and its place in the cycle.\<close>

lemma era_year:
  assumes "y = 100 * c + 4 * q + r" "c < 4" "q < 25" "r < 4"
  shows "year_start y = 36524 * c + 1461 * q + 365 * r"
    "march_len y = (if r = 3 \<and> (q = 24 \<longrightarrow> c = 3) then 366 else 365)"
proof -
  have k: "4 * q + r < 100" using assms(3,4) by simp
  have "y div 4 = 25 * c + q" "y div 100 = c" "y div 400 = 0"
    using k assms by (auto intro!: div_nat_eqI)
  then show "year_start y = 36524 * c + 1461 * q + 365 * r"
    using assms(1) by (simp add: year_start_def)
  have "4 dvd 4 * (25 * c + q) + (r + 1) \<longleftrightarrow> 4 dvd r + 1" "100 dvd 100 * c + (4 * q + 4) \<longleftrightarrow> 100 dvd 4 * q + 4"
    by (intro dvd_add_right_iff; simp)+
  moreover have "4 dvd r + 1 \<longleftrightarrow> r = 3" "100 dvd 4 * q + 4 \<longleftrightarrow> q = 24" "400 dvd 100 * c + 100 \<longleftrightarrow> c = 3"
    using assms(2-4) dvd_imp_le[of 4 "r + 1"] dvd_imp_le[of 100 "4 * q + 4"] dvd_imp_le[of 400 "100 * c + 100"]
    by (auto simp: le_Suc_eq)
  moreover have "y + 1 = 4 * (25 * c + q) + (r + 1)" using assms(1) by simp
  moreover have "y + 1 = 100 * c + (4 * q + 4)" if "r = 3" using assms(1) that by simp
  moreover have "y + 1 = 100 * c + 100" if "r = 3" "q = 24" using assms(1) that by simp
  ultimately have "4 dvd y + 1 \<longleftrightarrow> r = 3" "r = 3 \<Longrightarrow> 100 dvd y + 1 \<longleftrightarrow> q = 24" "q = 24 \<Longrightarrow> r = 3 \<Longrightarrow> 400 dvd y + 1 \<longleftrightarrow> c = 3"
    by metis+
  then show "march_len y = (if r = 3 \<and> (q = 24 \<longrightarrow> c = 3) then 366 else 365)"
    by (auto simp: march_len_def leap_def)
qed

lemma era_boundaries:
  assumes "y < 400"
  shows "365 * y \<le> era_sum (year_start y)" "era_sum (year_start (Suc y) - 1) < 365 * Suc y"
proof -
  define c k where "c = y div 100" "k = y mod 100"
  define q r where "q = k div 4" "r = k mod 4"
  have y: "y = 100 * c + 4 * q + r" and b: "c < 4" "q < 25" "r < 4"
    using assms by (auto simp: c_k_def q_r_def less_mult_imp_div_less)
  note s = era_year[OF y b]
  have d: "year_start y div 1460 = 25 * c + q" "year_start y div 36524 = c" "year_start y div 146096 = 0"
    unfolding s using b by (auto intro!: div_nat_eqI)
  have "era_sum (year_start y) = 365 * (100 * c + 4 * q + r)"
    unfolding era_sum_def d unfolding s(1) by simp
  then show "365 * y \<le> era_sum (year_start y)" by (simp add: y)
  define e where "e = year_start (Suc y) - 1"
  have e: "e = 36524 * c + 1461 * q + 365 * r + (if r = 3 \<and> (q = 24 \<longrightarrow> c = 3) then 365 else 364)"
    by (simp add: e_def year_start_Suc s)
  have "era_sum e < 365 * (100 * c + 4 * q + r) + 365"
  proof (cases "r = 3 \<and> (q = 24 \<longrightarrow> c = 3)")
    case True
    then have e': "e = 36524 * c + 1461 * q + 1460" using e by simp
    have "e div 1460 = 25 * c + q + 1" unfolding e' using b by (auto intro!: div_nat_eqI)
    moreover have "e div 36524 \<le> c + e div 146096"
    proof (cases "q = 24")
      case q: True
      then show ?thesis using True e' by simp
    next
      case False
      then have "e div 36524 = c" unfolding e' using b by (auto intro!: div_nat_eqI)
      then show ?thesis by simp
    qed
    ultimately show ?thesis unfolding era_sum_def using e' True by simp
  next
    case False
    then have e': "e = 36524 * c + 1461 * q + 365 * r + 364" using e by auto
    have "25 * c + q \<le> e div 1460"
      unfolding e' by (simp add: less_eq_div_iff_mult_less_eq)
    moreover have "e div 36524 = c" unfolding e' using b by (auto intro!: div_nat_eqI)
    ultimately show ?thesis unfolding era_sum_def using e' by simp
  qed
  then have "era_sum e < 365 * Suc y" by (simp add: y)
  then show "era_sum (year_start (Suc y) - 1) < 365 * Suc y" by (simp add: e_def)
qed

lemma year_start_mono: "x \<le> y \<Longrightarrow> year_start x \<le> year_start y"
  by (induction y rule: dec_induct) (auto simp: year_start_Suc)

lemma year_start_400: "year_start 400 = 146097"
  by (simp add: year_start_def)

lemma year_of_era_eq:
  assumes "y < 400" "doy < march_len y"
  shows "year_of_era (year_start y + doy) = y" "day_of_year (year_start y + doy) = doy"
proof -
  have end_day: "year_start y + doy \<le> year_start (Suc y) - 1"
    using assms(2) by (simp add: year_start_Suc)
  have le: "year_start (Suc y) \<le> 146097"
    using year_start_mono[of "Suc y" 400] assms(1) by (simp add: year_start_400)
  have pos: "0 < march_len y" by (simp add: march_len_def)
  have b: "365 * y \<le> era_sum (year_start y)" "era_sum (year_start (Suc y) - 1) < 365 * Suc y"
    using era_boundaries assms(1) by blast+
  have "era_sum (year_start y) \<le> era_sum (year_start y + doy)"
    "era_sum (year_start y + doy) \<le> era_sum (year_start (Suc y) - 1)"
    using end_day le pos by (auto intro!: era_sum_mono simp: year_start_Suc)
  then show "year_of_era (year_start y + doy) = y"
    using b unfolding year_of_era_sum by (intro div_nat_eqI) simp_all
  then show "day_of_year (year_start y + doy) = doy"
    using assms(1) by (simp add: day_of_year_def year_start_def)
qed


section \<open>Months of a year that begins in March\<close>

text \<open>In such a year month number \<open>mp\<close> begins \<open>(153 * mp + 2) div 5\<close> days in.\<close>

lemma month_day_eq:
  assumes "mp < 12" "(153 * mp + 2) div 5 \<le> doy" "5 * doy + 2 < 153 * mp + 153"
  shows "month_day doy = (if mp < 10 then mp + 3 else mp - 9, doy - (153 * mp + 2) div 5 + 1)"
proof -
  have "153 * mp \<le> 5 * doy + 2" using assms(2) by linarith
  then have "(5 * doy + 2) div 153 = mp" using assms(3) by (intro div_nat_eqI) simp_all
  then show ?thesis by (simp add: month_day_def Let_def)
qed

lemma month_days:
  "doy < 31 \<Longrightarrow> month_day doy = (3, doy + 1)"
  "31 \<le> doy \<Longrightarrow> doy < 61 \<Longrightarrow> month_day doy = (4, doy - 31 + 1)"
  "61 \<le> doy \<Longrightarrow> doy < 92 \<Longrightarrow> month_day doy = (5, doy - 61 + 1)"
  "92 \<le> doy \<Longrightarrow> doy < 122 \<Longrightarrow> month_day doy = (6, doy - 92 + 1)"
  "122 \<le> doy \<Longrightarrow> doy < 153 \<Longrightarrow> month_day doy = (7, doy - 122 + 1)"
  "153 \<le> doy \<Longrightarrow> doy < 184 \<Longrightarrow> month_day doy = (8, doy - 153 + 1)"
  "184 \<le> doy \<Longrightarrow> doy < 214 \<Longrightarrow> month_day doy = (9, doy - 184 + 1)"
  "214 \<le> doy \<Longrightarrow> doy < 245 \<Longrightarrow> month_day doy = (10, doy - 214 + 1)"
  "245 \<le> doy \<Longrightarrow> doy < 275 \<Longrightarrow> month_day doy = (11, doy - 245 + 1)"
  "275 \<le> doy \<Longrightarrow> doy < 306 \<Longrightarrow> month_day doy = (12, doy - 275 + 1)"
  "306 \<le> doy \<Longrightarrow> doy < 337 \<Longrightarrow> month_day doy = (1, doy - 306 + 1)"
  "337 \<le> doy \<Longrightarrow> doy < 366 \<Longrightarrow> month_day doy = (2, doy - 337 + 1)"
proof -
  show "doy < 31 \<Longrightarrow> month_day doy = (3, doy + 1)" using month_day_eq[of 0 doy] by simp
  show "31 \<le> doy \<Longrightarrow> doy < 61 \<Longrightarrow> month_day doy = (4, doy - 31 + 1)" using month_day_eq[of 1 doy] by simp
  show "61 \<le> doy \<Longrightarrow> doy < 92 \<Longrightarrow> month_day doy = (5, doy - 61 + 1)" using month_day_eq[of 2 doy] by simp
  show "92 \<le> doy \<Longrightarrow> doy < 122 \<Longrightarrow> month_day doy = (6, doy - 92 + 1)" using month_day_eq[of 3 doy] by simp
  show "122 \<le> doy \<Longrightarrow> doy < 153 \<Longrightarrow> month_day doy = (7, doy - 122 + 1)" using month_day_eq[of 4 doy] by simp
  show "153 \<le> doy \<Longrightarrow> doy < 184 \<Longrightarrow> month_day doy = (8, doy - 153 + 1)" using month_day_eq[of 5 doy] by simp
  show "184 \<le> doy \<Longrightarrow> doy < 214 \<Longrightarrow> month_day doy = (9, doy - 184 + 1)" using month_day_eq[of 6 doy] by simp
  show "214 \<le> doy \<Longrightarrow> doy < 245 \<Longrightarrow> month_day doy = (10, doy - 214 + 1)" using month_day_eq[of 7 doy] by simp
  show "245 \<le> doy \<Longrightarrow> doy < 275 \<Longrightarrow> month_day doy = (11, doy - 245 + 1)" using month_day_eq[of 8 doy] by simp
  show "275 \<le> doy \<Longrightarrow> doy < 306 \<Longrightarrow> month_day doy = (12, doy - 275 + 1)" using month_day_eq[of 9 doy] by simp
  show "306 \<le> doy \<Longrightarrow> doy < 337 \<Longrightarrow> month_day doy = (1, doy - 306 + 1)" using month_day_eq[of 10 doy] by simp
  show "337 \<le> doy \<Longrightarrow> doy < 366 \<Longrightarrow> month_day doy = (2, doy - 337 + 1)" using month_day_eq[of 11 doy] by simp
qed

text \<open>The date of day \<open>doy\<close> of the year that begins in March \<open>y\<close>.\<close>

definition march_date :: "nat \<Rightarrow> nat \<Rightarrow> nat \<times> nat \<times> nat" where
  "march_date y doy = (let (m, d) = month_day doy in (if m \<le> 2 then y + 1 else y, m, d))"

lemma month_intervals:
  "doy < (366::nat) \<Longrightarrow>
    doy < 31 \<or> (31 \<le> doy \<and> doy < 61) \<or> (61 \<le> doy \<and> doy < 92) \<or> (92 \<le> doy \<and> doy < 122)
    \<or> (122 \<le> doy \<and> doy < 153) \<or> (153 \<le> doy \<and> doy < 184) \<or> (184 \<le> doy \<and> doy < 214)
    \<or> (214 \<le> doy \<and> doy < 245) \<or> (245 \<le> doy \<and> doy < 275) \<or> (275 \<le> doy \<and> doy < 306)
    \<or> (306 \<le> doy \<and> doy < 337) \<or> (337 \<le> doy \<and> doy < 366)"
  by linarith

lemma same_month:
  assumes "mp < 12" "(153 * mp + 2) div 5 \<le> doy" "5 * doy + 7 < 153 * mp + 153"
    "doy - (153 * mp + 2) div 5 + 1 < month_len (if mp < 10 then y else y + 1) (if mp < 10 then mp + 3 else mp - 9)"
  shows "march_date y (Suc doy) = next_day (march_date y doy)"
proof -
  have "month_day doy = (if mp < 10 then mp + 3 else mp - 9, doy - (153 * mp + 2) div 5 + 1)"
    "month_day (Suc doy) = (if mp < 10 then mp + 3 else mp - 9, Suc doy - (153 * mp + 2) div 5 + 1)"
    using assms(1-3) by (intro month_day_eq; simp)+
  moreover have "\<not> mp < 10 \<Longrightarrow> mp - 9 \<le> 2" using assms(1) by simp
  ultimately show ?thesis
    using assms(2,4) by (cases "mp < 10") (simp_all add: march_date_def Suc_diff_le)
qed

lemma month_ends:
  "doy \<in> {30, 60, 91, 121, 152, 183, 213, 244, 274, 305, 336} \<Longrightarrow>
    march_date y (Suc doy) = next_day (march_date y doy)"
  by (elim insertE emptyE) (simp_all add: march_date_def month_day_def month_len_def)

lemma march_date_step:
  assumes "Suc doy < march_len y"
  shows "march_date y (Suc doy) = next_day (march_date y doy)"
proof (cases "doy \<in> {30, 60, 91, 121, 152, 183, 213, 244, 274, 305, 336}")
  case True
  then show ?thesis by (rule month_ends)
next
  case False
  have d: "doy < 366" and feb: "337 \<le> doy \<Longrightarrow> doy - 337 + 1 < month_len (y + 1) 2"
    using assms by (auto simp: march_len_def month_len_def split: if_splits)
  have ne: "doy \<noteq> 30" "doy \<noteq> 60" "doy \<noteq> 91" "doy \<noteq> 121" "doy \<noteq> 152" "doy \<noteq> 183" "doy \<noteq> 213"
    "doy \<noteq> 244" "doy \<noteq> 274" "doy \<noteq> 305" "doy \<noteq> 336"
    using False by simp_all
  from month_intervals[OF d] show ?thesis
  proof (elim disjE conjE)
    assume "doy < 31"
    then show ?thesis using ne(1) by (intro same_month[of 0]) (simp_all add: month_len_def)
  next
    assume "31 \<le> doy" "doy < 61"
    then show ?thesis using ne(2) by (intro same_month[of 1]) (simp_all add: month_len_def)
  next
    assume "61 \<le> doy" "doy < 92"
    then show ?thesis using ne(3) by (intro same_month[of 2]) (simp_all add: month_len_def)
  next
    assume "92 \<le> doy" "doy < 122"
    then show ?thesis using ne(4) by (intro same_month[of 3]) (simp_all add: month_len_def)
  next
    assume "122 \<le> doy" "doy < 153"
    then show ?thesis using ne(5) by (intro same_month[of 4]) (simp_all add: month_len_def)
  next
    assume "153 \<le> doy" "doy < 184"
    then show ?thesis using ne(6) by (intro same_month[of 5]) (simp_all add: month_len_def)
  next
    assume "184 \<le> doy" "doy < 214"
    then show ?thesis using ne(7) by (intro same_month[of 6]) (simp_all add: month_len_def)
  next
    assume "214 \<le> doy" "doy < 245"
    then show ?thesis using ne(8) by (intro same_month[of 7]) (simp_all add: month_len_def)
  next
    assume "245 \<le> doy" "doy < 275"
    then show ?thesis using ne(9) by (intro same_month[of 8]) (simp_all add: month_len_def)
  next
    assume "275 \<le> doy" "doy < 306"
    then show ?thesis using ne(10) by (intro same_month[of 9]) (simp_all add: month_len_def)
  next
    assume "306 \<le> doy" "doy < 337"
    then show ?thesis using ne(11) by (intro same_month[of 10]) (simp_all add: month_len_def)
  next
    assume "337 \<le> doy" "doy < 366"
    then show ?thesis using d feb by (intro same_month[of 11]) (simp_all add: month_len_def)
  qed
qed

lemma march_date_last:
  assumes "Suc doy = march_len y"
  shows "march_date (Suc y) 0 = next_day (march_date y doy)"
  using assms by (auto simp: march_date_def month_days month_len_def march_len_def split: if_splits)

lemma year_start_era: "year_start (400 * e + y) = 146097 * e + year_start y"
proof -
  have k: "(400 * e + y) div 4 = 100 * e + y div 4" "(400 * e + y) div 100 = 4 * e + y div 100"
    "(400 * e + y) div 400 = e + y div 400"
    using div_mult_self1[of 4 y "100 * e"] div_mult_self1[of 100 y "4 * e"] div_mult_self1[of 400 y e]
    by (simp_all add: algebra_simps)
  have arith: "365 * (400 * e + y) + (100 * e + a) - (4 * e + b) + (e + c) = 146097 * e + (365 * y + a - b + c)"
    if "b \<le> y" for a b c using that by simp
  show ?thesis unfolding year_start_def k by (rule arith) simp
qed

lemma march_len_era: "march_len (400 * e + y) = march_len y"
proof -
  have "k dvd 400 * e + (y + 1) \<longleftrightarrow> k dvd y + 1" if "k dvd 400" for k
    using that by (intro dvd_add_right_iff) simp
  from this[of 4] this[of 100] this[of 400]
  have "4 dvd 400 * e + y + 1 \<longleftrightarrow> 4 dvd y + 1" "100 dvd 400 * e + y + 1 \<longleftrightarrow> 100 dvd y + 1"
    "400 dvd 400 * e + y + 1 \<longleftrightarrow> 400 dvd y + 1"
    by (simp_all add: add.assoc)
  then show ?thesis by (simp add: march_len_def leap_def)
qed

lemma calendar_march:
  "\<exists>y doy. n + 719468 = year_start y + doy \<and> doy < march_len y \<and> calendar n = march_date y doy"
proof (induction n)
  case 0
  have "(0::nat) + 719468 = year_start 1969 + 306 \<and> 306 < march_len 1969 \<and> calendar 0 = march_date 1969 306"
    by (simp add: year_start_def march_len_def march_date_def month_days)
  then show ?case by blast
next
  case (Suc n)
  then obtain y doy where y: "n + 719468 = year_start y + doy" "doy < march_len y" "calendar n = march_date y doy"
    by blast
  show ?case
  proof (cases "Suc doy < march_len y")
    case True
    then show ?thesis using y march_date_step[OF True] by (intro exI[of _ y] exI[of _ "Suc doy"]) simp
  next
    case False
    then have last: "Suc doy = march_len y" using y(2) by simp
    then have "Suc n + 719468 = year_start (Suc y) + 0" using y(1) by (simp add: year_start_Suc)
    moreover have "0 < march_len (Suc y)" by (simp add: march_len_def)
    ultimately show ?thesis
      using y(3) march_date_last[OF last] by (intro exI[of _ "Suc y"] exI[of _ 0]) simp
  qed
qed

lemma clock_date:
  "month_day (day_of_year ((n + 719468) mod 146097)) = snd (calendar n)"
proof -
  obtain y doy where y: "n + 719468 = year_start y + doy" "doy < march_len y" "calendar n = march_date y doy"
    using calendar_march by blast
  define e r where "e = y div 400" "r = y mod 400"
  have yr: "y = 400 * e + r" "r < 400" by (simp_all add: e_r_def)
  have len: "doy < march_len r" using y(2) march_len_era yr(1) by simp
  have "year_start r + doy < 146097"
    using year_start_mono[of "Suc r" 400] yr(2) len by (simp add: year_start_400 year_start_Suc)
  then have "(n + 719468) mod 146097 = year_start r + doy"
    unfolding y(1) yr(1) year_start_era by (simp add: add.assoc)
  then have "day_of_year ((n + 719468) mod 146097) = doy"
    using year_of_era_eq(2)[OF yr(2) len] by simp
  then show ?thesis
    unfolding y(3) march_date_def by (simp add: case_prod_beta Let_def)
qed

lemma week_mod: "(11 + n mod 7) mod 7 = (n + 4) mod (7 :: nat)"
  by presburger

lemma civil_clock:
  "let c = civil_from_epoch_ms ms; n = ms div 86400000 in
     (cv_month c, cv_day c) = snd (calendar n) \<and> cv_weekday c = (n + 4) mod 7
     \<and> ms div 60000 = (n * 24 + cv_hour c) * 60 + cv_minute c \<and> cv_hour c < 24 \<and> cv_minute c < 60"
proof -
  define n where "n = ms div 86400000"
  have day: "ms div 1000 div 86400 = n" by (simp add: n_def div_mult2_eq[symmetric])
  have month: "(cv_month (civil_from_epoch_ms ms), cv_day (civil_from_epoch_ms ms)) = snd (calendar n)"
    using clock_date[of n]
    by (simp add: civil_from_epoch_ms_def Let_def day case_prod_beta)
  have week: "cv_weekday (civil_from_epoch_ms ms) = (n + 4) mod 7"
    by (simp add: civil_from_epoch_ms_def Let_def day case_prod_beta week_mod)
  define s where "s = ms div 1000"
  define r h z m where "r = s mod 86400" "h = r div 3600" "z = r mod 3600" "m = z div 60"
  note d = r_h_z_m_def
  have "s = 86400 * (s div 86400) + r" by (simp add: d)
  then have s: "s = 86400 * n + r" using day by (simp add: s_def)
  have r: "r = 3600 * h + z" by (simp add: d)
  have q: "60 * m \<le> z" "z < 60 * m + 60" unfolding d(4) by linarith+
  have "s div 60 = (n * 24 + h) * 60 + m"
    using s r q by (intro div_nat_eqI; simp)
  moreover have "ms div 60000 = s div 60" by (simp add: s_def div_mult2_eq[symmetric])
  moreover have "r < 86400" "z < 3600" by (simp_all add: d)
  then have "h < 24" "m < 60" using r q by linarith+
  moreover have "cv_hour (civil_from_epoch_ms ms) = h" "cv_minute (civil_from_epoch_ms ms) = m"
    by (simp_all add: civil_from_epoch_ms_def Let_def case_prod_beta d s_def)
  ultimately show ?thesis
    using month week by (simp add: n_def[symmetric] Let_def)
qed

text \<open>
  Property C22: the clock of the scheduler is the Gregorian calendar: for every epoch millisecond
  the month and the day it computes are those reached by stepping day by day from 1970-01-01
  (leap years included), the weekday counts on from that Thursday, and hour and minute are those of
  the day.
\<close>

theorem civil_clock_gregorian:
  "let c = civil_from_epoch_ms ms; n = ms div 86400000 in
     (cv_month c, cv_day c) = snd (calendar n) \<and> cv_weekday c = (n + 4) mod 7
     \<and> ms div 60000 = (n * 24 + cv_hour c) * 60 + cv_minute c \<and> cv_hour c < 24 \<and> cv_minute c < 60"
  by (rule civil_clock)

section \<open>The next fire\<close>

lemma unique_split: "x * k + r = y * k + s \<Longrightarrow> r < k \<Longrightarrow> s < (k :: nat) \<Longrightarrow> x = y \<and> r = s"
proof -
  assume e: "x * k + r = y * k + s" "r < k" "s < k"
  have "(x * k + r) div k = x" "(y * k + s) div k = y" using e(2,3) by simp_all
  then show ?thesis using e(1) by simp
qed

lemma next_minute: "n < (n div 60000 + 1) * (60000 :: nat)"
  using dividend_less_div_times[of 60000 n] by simp

lemma same_minute:
  assumes "a div 60000 = b div 60000"
  shows "cron_matches f a = cron_matches f b"
proof -
  define ca cb where "ca = civil_from_epoch_ms a" "cb = civil_from_epoch_ms b"
  obtain na nb where
    a: "(cv_month ca, cv_day ca) = snd (calendar na)" "cv_weekday ca = (na + 4) mod 7"
      "a div 60000 = (na * 24 + cv_hour ca) * 60 + cv_minute ca" "cv_hour ca < 24" "cv_minute ca < 60" and
    b: "(cv_month cb, cv_day cb) = snd (calendar nb)" "cv_weekday cb = (nb + 4) mod 7"
      "b div 60000 = (nb * 24 + cv_hour cb) * 60 + cv_minute cb" "cv_hour cb < 24" "cv_minute cb < 60"
    using civil_clock[of a] civil_clock[of b] unfolding ca_cb_def by (auto simp: Let_def)
  have hm: "na * 24 + cv_hour ca = nb * 24 + cv_hour cb" "cv_minute ca = cv_minute cb"
    using unique_split[OF _ a(5) b(5), of "na * 24 + cv_hour ca" "nb * 24 + cv_hour cb"]
    unfolding a(3)[symmetric] b(3)[symmetric] using assms by blast+
  have "na = nb" "cv_hour ca = cv_hour cb" using unique_split[OF hm(1) a(4) b(4)] by blast+
  moreover have "cv_month ca = cv_month cb" "cv_day ca = cv_day cb"
    using a(1) b(1) calculation(1) by (metis Pair_inject)+
  ultimately have "ca = cb" using a(2) b(2) hm(2) by (cases ca; cases cb) simp
  then show ?thesis by (simp add: cron_matches_def ca_cb_def)
qed

lemma find_first:
  "find P [0..<n] = Some i \<longleftrightarrow> i < n \<and> P i \<and> (\<forall>j<i. \<not> P j)"
  by (auto simp: find_Some_iff)

lemma find_none: "find P [0..<n] = None \<longleftrightarrow> (\<forall>i<n. \<not> P i)"
  by (auto simp: find_None_iff)

lemma fire_at_plain:
  "i < scan_minutes \<Longrightarrow> start + scan_minutes * minute_ms \<le> u64_max \<Longrightarrow> fire_at start i = start + i * minute_ms"
  by (simp add: fire_at_def sat_add64_def minute_ms_def scan_minutes_def)

text \<open>
  Property C21: the next fire of a cron job is the first matching minute. Where 366 days still fit
  into 64 bits, the instant found lies strictly after \<open>after\<close>, on a minute, within 366 days, the
  expression matches there and at no minute between; no instant is found exactly when no minute of
  the 366 days after \<open>after\<close> matches.
\<close>

theorem cron_fire_is_next:
  assumes "cron_parse expr = Inr f" "after + 366 * 86400000 + 60000 \<le> u64_max"
  shows "case next_fire (Sched_Cron expr) after of
      Inl _ \<Rightarrow> False
    | Inr (Some t) \<Rightarrow> after < t \<and> t \<le> after + 366 * 86400000 \<and> t mod 60000 = 0 \<and> cron_matches f t
        \<and> (\<forall>m < t. after div 60000 < m div 60000 \<longrightarrow> \<not> cron_matches f m)
    | Inr None \<Rightarrow> \<forall>m. after div 60000 < m div 60000 \<and> m div 60000 \<le> after div 60000 + 366 * 1440
        \<longrightarrow> \<not> cron_matches f m"
proof -
  define a start where "a = after div 60000" "start = (a + 1) * 60000"
  have aft: "a * 60000 \<le> after" "after < start"
    using next_minute[of after] unfolding a_start_def by simp_all
  have fits: "start + scan_minutes * minute_ms \<le> u64_max"
    using assms(2) aft by (simp add: a_start_def(2) scan_minutes_def minute_ms_def)
  then have start: "start \<le> u64_max" by simp
  define P where "P i = cron_matches f (fire_at start i)" for i
  have hit: "P i = cron_matches f m" if "m div 60000 = a + 1 + i" "i < scan_minutes" for m i
  proof -
    have "fire_at start i = (a + 1 + i) * 60000"
      using fire_at_plain[OF that(2) fits] by (simp add: a_start_def(2) minute_ms_def algebra_simps)
    then show ?thesis unfolding P_def by (intro same_minute) (simp add: that(1))
  qed
  have run: "next_fire (Sched_Cron expr) after = Inr (map_option (fire_at start) (find P [0..<scan_minutes]))"
    using start assms(1)
    by (simp add: next_fire_def P_def[abs_def] a_start_def minute_ms_def not_less Let_def)
  show ?thesis
  proof (cases "find P [0..<scan_minutes]")
    case None
    have "\<not> cron_matches f m" if "a < m div 60000" "m div 60000 \<le> a + 366 * 1440" for m
      using None hit[of m "m div 60000 - (a + 1)"] that by (simp add: find_none scan_minutes_def)
    then show ?thesis unfolding run None a_start_def(1) by simp
  next
    case (Some i)
    then have i: "i < scan_minutes" "P i" "\<forall>j<i. \<not> P j" by (simp_all add: find_first)
    have t: "fire_at start i = (a + 1 + i) * 60000"
      using fire_at_plain[OF i(1) fits] by (simp add: a_start_def(2) minute_ms_def algebra_simps)
    have "\<not> cron_matches f m" if m: "m < (a + 1 + i) * 60000" "a < m div 60000" for m
    proof -
      have "m div 60000 < a + 1 + i" using m(1) by (simp add: less_mult_imp_div_less)
      then show ?thesis using i(1,3) hit[of m "m div 60000 - (a + 1)"] m(2) by simp
    qed
    then show ?thesis
      using i(2) aft i(1) hit[of "(a + 1 + i) * 60000" i]
      unfolding run Some option.map sum.case option.case t
      by (simp add: a_start_def scan_minutes_def)
  qed
qed

theorem cron_fire_is_next_witness:
  "\<exists>f. cron_parse ''30 4 * * 1'' = Inr f \<and> next_fire (Sched_Cron ''30 4 * * 1'') 0 \<noteq> Inl P_Overflow"
proof -
  obtain f where f: "cron_parse ''30 4 * * 1'' = Inr f"
    by (cases "cron_parse ''30 4 * * 1''") (code_simp, blast)
  show ?thesis
    using cron_fire_is_next[OF f, of 0] f by (auto simp: u64_max_def split: sum.splits)
qed

text \<open>
  Re-arming makes progress. Computed from the instant a job just fired, the next fire
  is strictly later, except that an interval saturates at the last 64-bit millisecond; a one-shot is
  spent from its instant on; and the computation leaves 64 bits only in the last minute.
\<close>

theorem next_fire_advances:
  "case next_fire s after of
     Inl _ \<Rightarrow> (\<exists>e. s = Sched_Cron e) \<and> u64_max div 60000 \<le> after div 60000
   | Inr None \<Rightarrow> (\<exists>at. s = Sched_Once at \<and> at \<le> after) \<or> (\<exists>e. s = Sched_Cron e)
   | Inr (Some t) \<Rightarrow> after < t \<or> (t = u64_max \<and> u64_max \<le> after)"
proof (cases s)
  case (Sched_Interval n)
  have "0 < sat_mul64 (max n 1) 1000" by (simp add: sat_mul64_def u64_max_def)
  then show ?thesis using Sched_Interval by (auto simp: next_fire_def sat_add64_def)
next
  case (Sched_Cron e)
  define start where "start = (after div 60000 + 1) * 60000"
  have late: "after < start" using next_minute[of after] by (simp add: start_def)
  have "after < fire_at start i" if "start \<le> u64_max" for i
    using late that by (auto simp: fire_at_def sat_add64_def)
  moreover have "u64_max div 60000 \<le> after div 60000" if "u64_max < start"
    using that div_le_mono[of u64_max "(after div 60000 + 1) * 60000 - 1" 60000] less_mult_imp_div_less[of u64_max _ 60000]
    unfolding start_def by fastforce
  ultimately show ?thesis
    unfolding Sched_Cron next_fire_def
    by (auto simp: minute_ms_def start_def Let_def split: sum.splits option.splits)
qed (auto simp: next_fire_def)

end
