(* ===== verification/Jobs.thy ===== *)
theory Jobs
  imports Calendar Config_Backend
begin

text \<open>
  Scheduled jobs: the overlap guard and the bounded history both schedulers share, the in-process
  scheduler (\<open>crates/agent-scheduler/src/lib.rs\<close>), the durable scheduler over the config store
  (\<open>store.rs\<close>) and the interleaving of its multi-tenant driver
  (\<open>agent-runtime/src/scheduler_driver.rs\<close>). Clocks and the results of runs are arguments; the JSON
  codec of a stored job is a parameter.
\<close>

section \<open>Jobs and runs\<close>

record job =
  jb_id :: rstr
  jb_spec :: rstr
  jb_schedule :: schedule
  jb_goal :: rstr
  jb_next :: "nat option"
  jb_enabled :: bool

datatype run_outcome = RO_Completed | RO_Failed | RO_Skipped

fun run_outcome_str :: "run_outcome \<Rightarrow> rstr" where
  "run_outcome_str RO_Completed = ''completed''"
| "run_outcome_str RO_Failed = ''failed''"
| "run_outcome_str RO_Skipped = ''skipped''"

record job_run =
  rn_job :: rstr
  rn_started :: nat
  rn_finished :: nat
  rn_outcome :: run_outcome
  rn_detail :: rstr

text \<open>An error of the seam, or the panic of an unchecked multiplication.\<close>

datatype job_fault = JF_Error cs_error | JF_Panic sched_panic

definition faultE :: "cs_error + 'a \<Rightarrow> job_fault + 'a" where
  "faultE r = (case r of Inl e \<Rightarrow> Inl (JF_Error e) | Inr a \<Rightarrow> Inr a)"

definition faultP :: "sched_panic + 'a \<Rightarrow> job_fault + 'a" where
  "faultP r = (case r of Inl p \<Rightarrow> Inl (JF_Panic p) | Inr a \<Rightarrow> Inr a)"

definition default_claim_ttl_ms :: nat where "default_claim_ttl_ms = 15 * 60 * 1000"
definition max_history :: nat where "max_history = 100"
definition max_detail_chars :: nat where "max_detail_chars = 2000"

definition claim_is_live :: "nat \<Rightarrow> nat \<Rightarrow> nat \<Rightarrow> bool" where
  "claim_is_live claimed now ttl = (if claimed > now then False else now - claimed < ttl)"

definition push_history :: "job_run list \<Rightarrow> job_run \<Rightarrow> job_run list" where
  "push_history h r =
     (let h = h @ [r] in if length h > max_history then drop (length h - max_history) h else h)"

definition skipped_run :: "rstr \<Rightarrow> nat \<Rightarrow> job_run" where
  "skipped_run i now = \<lparr>rn_job = i, rn_started = now, rn_finished = now, rn_outcome = RO_Skipped,
     rn_detail = ''previous run still in flight''\<rparr>"

text \<open>The run a finished execution records; the detail is cut to whole characters.\<close>

definition finished_run :: "rstr \<Rightarrow> nat \<Rightarrow> nat \<Rightarrow> cs_error + rstr \<Rightarrow> job_run" where
  "finished_run i started finished out =
     (let (outcome, detail) = (case out of Inr answer \<Rightarrow> (RO_Completed, answer) | Inl e \<Rightarrow> (RO_Failed, error_str e)) in
      \<lparr>rn_job = i, rn_started = started, rn_finished = finished, rn_outcome = outcome,
       rn_detail = concat (take max_detail_chars (str_chars detail))\<rparr>)"

section \<open>The in-process scheduler\<close>

record job_state =
  js_job :: job
  js_claimed :: "nat option"
  js_history :: "job_run list"

text \<open>The job map is a \<open>HashMap\<close>: an association list in the order it iterates.\<close>

record local_sched =
  ls_jobs :: "(rstr \<times> job_state) list"
  ls_next_id :: nat
  ls_ttl :: nat
  ls_max_jobs :: nat

definition local_new :: local_sched where
  "local_new = \<lparr>ls_jobs = [], ls_next_id = 1, ls_ttl = default_claim_ttl_ms, ls_max_jobs = 64\<rparr>"

definition with_claim_ttl :: "nat \<Rightarrow> local_sched \<Rightarrow> local_sched" where
  "with_claim_ttl ms s = s\<lparr>ls_ttl := max ms 1\<rparr>"

definition with_max_jobs :: "nat \<Rightarrow> local_sched \<Rightarrow> local_sched" where
  "with_max_jobs n s = s\<lparr>ls_max_jobs := max n 1\<rparr>"

datatype claim_out = CO_Pass | CO_Skip | CO_Due

text \<open>What the claim loop does with one job.\<close>

definition claim_one_job :: "nat \<Rightarrow> nat \<Rightarrow> job_state \<Rightarrow> sched_panic + (job_state \<times> claim_out)" where
  "claim_one_job ttl now s =
     (if \<not> jb_enabled (js_job s) then Inr (s, CO_Pass)
      else
        (case jb_next (js_job s) of
           None \<Rightarrow> Inr (s, CO_Pass)
         | Some next_at \<Rightarrow>
             if next_at > now then Inr (s, CO_Pass)
             else
               bindR (next_fire (jb_schedule (js_job s)) now) (\<lambda>rearmed.
                 let armed = s\<lparr>js_job := (js_job s)\<lparr>jb_next := rearmed\<rparr>\<rparr> in
                 (case js_claimed s of
                    Some c \<Rightarrow> if claim_is_live c now ttl then Inr (armed, CO_Skip)
                      else Inr (armed\<lparr>js_claimed := Some now\<rparr>, CO_Due)
                  | None \<Rightarrow> Inr (armed\<lparr>js_claimed := Some now\<rparr>, CO_Due)))))"

fun claim_all :: "nat \<Rightarrow> nat \<Rightarrow> (rstr \<times> job_state) list \<Rightarrow>
    sched_panic + ((rstr \<times> job_state) list \<times> (rstr \<times> rstr) list \<times> job_run list)" where
  "claim_all ttl now [] = Inr ([], [], [])"
| "claim_all ttl now ((k, s) # jobs) =
     bindR (claim_one_job ttl now s) (\<lambda>(s', out).
     bindR (claim_all ttl now jobs) (\<lambda>(jobs', due, skipped).
       Inr ((k, s') # jobs',
            (if out = CO_Due then (jb_id (js_job s), jb_goal (js_job s)) # due else due),
            (if out = CO_Skip then skipped_run (jb_id (js_job s)) now # skipped else skipped))))"

definition push_skipped :: "job_run \<Rightarrow> (rstr \<times> job_state) list \<Rightarrow> (rstr \<times> job_state) list" where
  "push_skipped r jobs =
     map (\<lambda>(k, s). (k, if k = rn_job r then s\<lparr>js_history := push_history (js_history s) r\<rparr> else s)) jobs"

definition local_claim_due :: "nat \<Rightarrow> local_sched \<Rightarrow> sched_panic + (local_sched \<times> (rstr \<times> rstr) list)" where
  "local_claim_due now s =
     bindR (claim_all (ls_ttl s) now (ls_jobs s)) (\<lambda>(jobs, due, skipped).
       Inr (s\<lparr>ls_jobs := fold push_skipped skipped jobs\<rparr>, due))"

definition finish_state :: "job_run \<Rightarrow> job_state \<Rightarrow> job_state" where
  "finish_state r s =
     (let s = s\<lparr>js_claimed := None, js_history := push_history (js_history s) r\<rparr> in
      if jb_next (js_job s) = None then s\<lparr>js_job := (js_job s)\<lparr>jb_enabled := False\<rparr>\<rparr> else s)"

definition local_finish :: "rstr \<Rightarrow> job_run \<Rightarrow> local_sched \<Rightarrow> local_sched" where
  "local_finish i r s = s\<lparr>ls_jobs := map (\<lambda>(k, js). (k, if k = i then finish_state r js else js)) (ls_jobs s)\<rparr>"

text \<open>\<open>tick_with\<close> alone: \<open>exec\<close> gives, for each claimed job, its start, its result and its end.\<close>

definition local_tick :: "nat \<Rightarrow> (rstr \<Rightarrow> rstr \<Rightarrow> nat \<times> (cs_error + rstr) \<times> nat) \<Rightarrow> local_sched \<Rightarrow>
    sched_panic + (local_sched \<times> nat)" where
  "local_tick now exec s =
     bindR (local_claim_due now s) (\<lambda>(s, due).
       Inr (fold (\<lambda>(i, goal) s. case exec i goal of (started, out, finished) \<Rightarrow>
              local_finish i (finished_run i started finished out) s) due s, length due))"

definition local_schedule :: "nat \<Rightarrow> rstr \<Rightarrow> rstr \<Rightarrow> local_sched \<Rightarrow> (job_fault + rstr) \<times> local_sched" where
  "local_schedule now spec goal s =
     (if str_trim goal = [] then (Inl (JF_Error (CE_Scheduler ''a scheduled job needs a goal'')), s)
      else
        (case sched_parse spec now of
           Inl e \<Rightarrow> (Inl (JF_Error (CE_Scheduler e)), s)
         | Inr sched \<Rightarrow>
             if length (ls_jobs s) \<ge> ls_max_jobs s
             then (Inl (JF_Error (CE_Scheduler (''too many scheduled jobs (limit '' @ show_nat (ls_max_jobs s) @ '')''))), s)
             else
               (let i = ''job-'' @ show_nat (ls_next_id s); s = s\<lparr>ls_next_id := ls_next_id s + 1\<rparr> in
                (case next_fire sched now of
                   Inl p \<Rightarrow> (Inl (JF_Panic p), s)
                 | Inr None \<Rightarrow> (Inl (JF_Error (CE_Scheduler ''that one-shot time is already in the past'')), s)
                 | Inr (Some next_at) \<Rightarrow>
                     (Inr i, s\<lparr>ls_jobs := ls_jobs s @ [(i, \<lparr>js_job = \<lparr>jb_id = i, jb_spec = str_trim spec,
                       jb_schedule = sched, jb_goal = str_trim goal, jb_next = Some next_at, jb_enabled = True\<rparr>,
                       js_claimed = None, js_history = []\<rparr>)]\<rparr>)))))"

definition local_list :: "local_sched \<Rightarrow> job list" where
  "local_list s = sort_key jb_id (map (js_job \<circ> snd) (ls_jobs s))"

definition local_cancel :: "rstr \<Rightarrow> local_sched \<Rightarrow> bool \<times> local_sched" where
  "local_cancel i s =
     (map_of (ls_jobs s) i \<noteq> None, s\<lparr>ls_jobs := filter (\<lambda>e. fst e \<noteq> i) (ls_jobs s)\<rparr>)"

definition local_history :: "rstr \<Rightarrow> local_sched \<Rightarrow> job_run list" where
  "local_history i s = (case map_of (ls_jobs s) i of Some js \<Rightarrow> js_history js | None \<Rightarrow> [])"

section \<open>The durable scheduler\<close>

record stored_job =
  sj_job :: job
  sj_claimed_at :: "nat option"
  sj_claimed_by :: "rstr option"
  sj_history :: "job_run list"

record job_codec =
  jc_encode :: "stored_job \<Rightarrow> rstr + rstr"
  jc_decode :: "rstr \<Rightarrow> rstr + stored_job"

definition sched_collection :: rstr where "sched_collection = ''scheduler''"
definition sched_default_tenant :: rstr where "sched_default_tenant = ''local''"

definition encode_job :: "job_codec \<Rightarrow> stored_job \<Rightarrow> cs_error + rstr" where
  "encode_job co sj = (case jc_encode co sj of Inr b \<Rightarrow> Inr b | Inl e \<Rightarrow> Inl (CE_Scheduler (''encode job: '' @ e)))"

definition decode_job :: "job_codec \<Rightarrow> rstr \<Rightarrow> cs_error + stored_job" where
  "decode_job co b = (case jc_decode co b of Inr sj \<Rightarrow> Inr sj | Inl e \<Rightarrow> Inl (CE_Scheduler (''decode job: '' @ e)))"

text \<open>One \<open>StoreScheduler\<close>: its tenant, its claim owner and its tunables.\<close>

record store_sched =
  ss_tenant :: rstr
  ss_owner :: rstr
  ss_ttl :: nat
  ss_max_jobs :: nat

definition sched_with_tenant :: "rstr \<Rightarrow> rstr \<Rightarrow> cs_error + store_sched" where
  "sched_with_tenant t owner =
     (if safe_segment t
      then Inr \<lparr>ss_tenant = t, ss_owner = owner, ss_ttl = default_claim_ttl_ms, ss_max_jobs = 64\<rparr>
      else Inl (CE_Scheduler (''invalid tenant '' @ backtick t)))"

definition job_put_writes :: "store_sched \<Rightarrow> rstr \<Rightarrow> rstr \<Rightarrow> cs_write list" where
  "job_put_writes d i b = [W_Ensure (ss_tenant d), W_Put sched_collection (ss_tenant d) i b]"

definition job_cas_writes :: "store_sched \<Rightarrow> rstr \<Rightarrow> rstr \<Rightarrow> rstr \<Rightarrow> cs_write list" where
  "job_cas_writes d i prior b = [W_Ensure (ss_tenant d), W_Cas sched_collection (ss_tenant d) i (Some prior) b]"

definition write_job :: "job_codec \<Rightarrow> (cs_write list \<Rightarrow> cs_error + 's) \<Rightarrow> store_sched \<Rightarrow> stored_job \<Rightarrow> cs_error + 's" where
  "write_job co apply d sj =
     bindR (encode_job co sj) (\<lambda>b. apply (job_put_writes d (jb_id (sj_job sj)) b))"

definition cas_apply :: "job_codec \<Rightarrow> (cs_write list \<Rightarrow> cs_error + 's) \<Rightarrow> store_sched \<Rightarrow> stored_job \<Rightarrow> rstr \<Rightarrow> cs_error + 's" where
  "cas_apply co apply d sj prior =
     bindR (encode_job co sj) (\<lambda>b. apply (job_cas_writes d (jb_id (sj_job sj)) prior b))"

fun decode_all :: "job_codec \<Rightarrow> rstr list \<Rightarrow> cs_error + (stored_job \<times> rstr) list" where
  "decode_all co [] = Inr []"
| "decode_all co (b # bs) =
     bindR (decode_job co b) (\<lambda>sj. bindR (decode_all co bs) (\<lambda>rest. Inr ((sj, b) # rest)))"

definition load_raw :: "job_codec \<Rightarrow> (rstr \<Rightarrow> rstr \<Rightarrow> cs_error + rstr list) \<Rightarrow> store_sched \<Rightarrow>
    cs_error + (stored_job \<times> rstr) list" where
  "load_raw co rows d = bindR (rows sched_collection (ss_tenant d)) (decode_all co)"

text \<open>The decision for one loaded job, before its compare-and-swap.\<close>

datatype claim_plan = CP_Pass | CP_Skip stored_job job_run | CP_Claim stored_job nat

definition plan_claim :: "store_sched \<Rightarrow> nat \<Rightarrow> stored_job \<Rightarrow> sched_panic + claim_plan" where
  "plan_claim d now sj =
     (if \<not> jb_enabled (sj_job sj) then Inr CP_Pass
      else
        (case jb_next (sj_job sj) of
           None \<Rightarrow> Inr CP_Pass
         | Some next_at \<Rightarrow>
             if next_at > now then Inr CP_Pass
             else
               bindR (next_fire (jb_schedule (sj_job sj)) now) (\<lambda>rearmed.
                 let armed = sj\<lparr>sj_job := (sj_job sj)\<lparr>jb_next := rearmed\<rparr>\<rparr>;
                     skipping = CP_Skip (armed\<lparr>sj_history := push_history (sj_history sj)
                       (skipped_run (jb_id (sj_job sj)) now)\<rparr>) (skipped_run (jb_id (sj_job sj)) now);
                     claiming = CP_Claim (armed\<lparr>sj_claimed_at := Some now, sj_claimed_by := Some (ss_owner d)\<rparr>) next_at in
                 Inr (case sj_claimed_at sj of
                    Some c \<Rightarrow> if claim_is_live c now (ss_ttl d) then skipping else claiming
                  | None \<Rightarrow> claiming))))"

datatype claim_step_out = CS_Pass | CS_Lost | CS_Skipped job_run | CS_Won rstr rstr nat

text \<open>One entry of the claim loop: the decision, then one conditional write.\<close>

definition claim_step :: "job_codec \<Rightarrow> (cs_write list \<Rightarrow> cs_error + 's) \<Rightarrow> store_sched \<Rightarrow> nat \<Rightarrow> stored_job \<times> rstr \<Rightarrow> 's
    \<Rightarrow> (job_fault + claim_step_out) \<times> 's" where
  "claim_step co apply d now e s =
     (case plan_claim d now (fst e) of
        Inl p \<Rightarrow> (Inl (JF_Panic p), s)
      | Inr CP_Pass \<Rightarrow> (Inr CS_Pass, s)
      | Inr (CP_Skip sj r) \<Rightarrow>
          (case cas_apply co apply d sj (snd e) of
             Inr s' \<Rightarrow> (Inr (CS_Skipped r), s')
           | Inl err \<Rightarrow> if is_conflict err then (Inr CS_Lost, s) else (Inl (JF_Error err), s))
      | Inr (CP_Claim sj next_at) \<Rightarrow>
          (case cas_apply co apply d sj (snd e) of
             Inr s' \<Rightarrow> (Inr (CS_Won (jb_id (sj_job sj)) (jb_goal (sj_job sj)) next_at), s')
           | Inl err \<Rightarrow> if is_conflict err then (Inr CS_Lost, s) else (Inl (JF_Error err), s)))"

text \<open>The loop, alone: \<open>xs n\<close> is the environment of its \<open>n\<close>-th call of the backend.\<close>

fun claim_loop :: "job_codec \<Rightarrow> ('x \<Rightarrow> 's \<Rightarrow> cs_write list \<Rightarrow> cs_error + 's) \<Rightarrow> store_sched \<Rightarrow> nat \<Rightarrow>
    (stored_job \<times> rstr) list \<Rightarrow> (nat \<Rightarrow> 'x) \<Rightarrow> 's \<Rightarrow> (job_fault + (rstr \<times> rstr) list) \<times> 's" where
  "claim_loop co apply d now [] xs s = (Inr [], s)"
| "claim_loop co apply d now (e # es) xs s =
     (case claim_step co (apply (xs 0) s) d now e s of
        (Inl f, s) \<Rightarrow> (Inl f, s)
      | (Inr out, s) \<Rightarrow>
          (case claim_loop co apply d now es (\<lambda>n. xs (Suc n)) s of
             (Inl f, s) \<Rightarrow> (Inl f, s)
           | (Inr due, s) \<Rightarrow> (Inr (case out of CS_Won i goal _ \<Rightarrow> (i, goal) # due | _ \<Rightarrow> due), s)))"

definition store_claim_due :: "job_codec \<Rightarrow> ('x \<Rightarrow> 's \<Rightarrow> cs_write list \<Rightarrow> cs_error + 's) \<Rightarrow>
    ('x \<Rightarrow> 's \<Rightarrow> rstr \<Rightarrow> rstr \<Rightarrow> cs_error + rstr list) \<Rightarrow> store_sched \<Rightarrow> nat \<Rightarrow> (nat \<Rightarrow> 'x) \<Rightarrow> 's \<Rightarrow>
    (job_fault + (rstr \<times> rstr) list) \<times> 's" where
  "store_claim_due co apply rows d now xs s =
     (case load_raw co (rows (xs 0) s) d of
        Inl e \<Rightarrow> (Inl (JF_Error e), s)
      | Inr es \<Rightarrow> claim_loop co apply d now es (\<lambda>n. xs (Suc n)) s)"

text \<open>\<open>finish\<close>: what it writes, if anything, from the card it read; then one conditional write.\<close>

definition finish_card :: "store_sched \<Rightarrow> job_run \<Rightarrow> stored_job \<Rightarrow> stored_job option" where
  "finish_card d r sj =
     (if sj_claimed_by sj = Some (ss_owner d)
      then
        (let sj = sj\<lparr>sj_claimed_at := None, sj_claimed_by := None, sj_history := push_history (sj_history sj) r\<rparr> in
         Some (if jb_next (sj_job sj) = None then sj\<lparr>sj_job := (sj_job sj)\<lparr>jb_enabled := False\<rparr>\<rparr> else sj))
      else None)"

definition finish_read :: "job_codec \<Rightarrow> (card_key \<Rightarrow> cs_error + rstr option) \<Rightarrow> store_sched \<Rightarrow> rstr \<Rightarrow> job_run \<Rightarrow>
    cs_error + (stored_job \<times> rstr) option" where
  "finish_read co look d i r =
     (if safe_segment i
      then bindR (look (sched_collection, ss_tenant d, i)) (\<lambda>b.
        case b of
          None \<Rightarrow> Inr None
        | Some b \<Rightarrow> bindR (decode_job co b) (\<lambda>sj. Inr (map_option (\<lambda>sj'. (sj', b)) (finish_card d r sj))))
      else Inr None)"

definition finish_write :: "job_codec \<Rightarrow> (cs_write list \<Rightarrow> cs_error + 's) \<Rightarrow> store_sched \<Rightarrow> stored_job \<times> rstr \<Rightarrow> 's \<Rightarrow>
    (cs_error + unit) \<times> 's" where
  "finish_write co apply d e s =
     (case cas_apply co apply d (fst e) (snd e) of
        Inr s' \<Rightarrow> (Inr (), s')
      | Inl err \<Rightarrow> if is_conflict err then (Inr (), s) else (Inl err, s))"

definition store_finish :: "job_codec \<Rightarrow> ('x \<Rightarrow> 's \<Rightarrow> cs_write list \<Rightarrow> cs_error + 's) \<Rightarrow>
    ('x \<Rightarrow> 's \<Rightarrow> card_key \<Rightarrow> cs_error + rstr option) \<Rightarrow> store_sched \<Rightarrow> rstr \<Rightarrow> job_run \<Rightarrow> 'x \<Rightarrow> 'x \<Rightarrow> 's \<Rightarrow> (cs_error + unit) \<times> 's" where
  "store_finish co apply get d i r x y s =
     (case finish_read co (get x s) d i r of
        Inl e \<Rightarrow> (Inl e, s)
      | Inr None \<Rightarrow> (Inr (), s)
      | Inr (Some e) \<Rightarrow> finish_write co (apply y s) d e s)"

definition run_claimed :: "job_codec \<Rightarrow> ('x \<Rightarrow> 's \<Rightarrow> cs_write list \<Rightarrow> cs_error + 's) \<Rightarrow>
    ('x \<Rightarrow> 's \<Rightarrow> card_key \<Rightarrow> cs_error + rstr option) \<Rightarrow> store_sched \<Rightarrow> rstr \<Rightarrow> nat \<Rightarrow> cs_error + rstr \<Rightarrow> nat \<Rightarrow> 'x \<Rightarrow> 'x \<Rightarrow> 's \<Rightarrow>
    (cs_error + unit) \<times> 's" where
  "run_claimed co apply get d i started out finished x y s =
     store_finish co apply get d i (finished_run i started finished out) x y s"

text \<open>\<open>uuid\<close> is the fresh id; the count and the write are two calls.\<close>

definition store_schedule :: "job_codec \<Rightarrow> (rstr \<Rightarrow> rstr \<Rightarrow> cs_error + nat) \<Rightarrow> (cs_write list \<Rightarrow> cs_error + 's) \<Rightarrow>
    store_sched \<Rightarrow> nat \<Rightarrow> rstr \<Rightarrow> rstr \<Rightarrow> rstr \<Rightarrow> job_fault + (rstr \<times> 's)" where
  "store_schedule co counting apply d now uuid spec goal =
     (if str_trim goal = [] then Inl (JF_Error (CE_Scheduler ''a scheduled job needs a goal''))
      else
        (case sched_parse spec now of
           Inl e \<Rightarrow> Inl (JF_Error (CE_Scheduler e))
         | Inr sched \<Rightarrow>
             bindR (faultP (next_fire sched now)) (\<lambda>next_at.
             if next_at = None then Inl (JF_Error (CE_Scheduler ''that one-shot time is already in the past''))
             else
               bindR (faultE (counting sched_collection (ss_tenant d))) (\<lambda>n.
               if n \<ge> ss_max_jobs d
               then Inl (JF_Error (CE_Scheduler (''too many scheduled jobs (limit '' @ show_nat (ss_max_jobs d) @ '')'')))
               else
                 (let i = ''job-'' @ uuid in
                  bindR (faultE (write_job co apply d \<lparr>sj_job = \<lparr>jb_id = i, jb_spec = str_trim spec, jb_schedule = sched,
                      jb_goal = str_trim goal, jb_next = next_at, jb_enabled = True\<rparr>,
                      sj_claimed_at = None, sj_claimed_by = None, sj_history = []\<rparr>)) (\<lambda>s.
                    Inr (i, s)))))))"

definition store_jobs :: "job_codec \<Rightarrow> (rstr \<Rightarrow> rstr \<Rightarrow> cs_error + rstr list) \<Rightarrow> store_sched \<Rightarrow> cs_error + job list" where
  "store_jobs co rows d = bindR (load_raw co rows d) (\<lambda>es. Inr (sort_key jb_id (map (sj_job \<circ> fst) es)))"

definition store_cancel :: "(card_key \<Rightarrow> cs_error + rstr option) \<Rightarrow> (cs_write list \<Rightarrow> cs_error + 's) \<Rightarrow> store_sched \<Rightarrow> rstr \<Rightarrow> 's \<Rightarrow>
    cs_error + (bool \<times> 's)" where
  "store_cancel look apply d i s =
     (if \<not> safe_segment i then Inr (False, s)
      else bindR (look (sched_collection, ss_tenant d, i)) (\<lambda>old.
           bindR (apply [W_Delete sched_collection (ss_tenant d) i]) (\<lambda>s'. Inr (old \<noteq> None, s'))))"

definition store_history :: "job_codec \<Rightarrow> (card_key \<Rightarrow> cs_error + rstr option) \<Rightarrow> store_sched \<Rightarrow> rstr \<Rightarrow> cs_error + job_run list" where
  "store_history co look d i =
     (if \<not> safe_segment i then Inr []
      else bindR (look (sched_collection, ss_tenant d, i)) (\<lambda>b.
        case b of None \<Rightarrow> Inr [] | Some b \<Rightarrow> bindR (decode_job co b) (\<lambda>sj. Inr (sj_history sj))))"

section \<open>The multi-tenant driver\<close>

text \<open>\<open>rotate_left\<close> by the cursor, and the next cursor; it only moves with two tenants or more.\<close>

definition rotated_tenants :: "nat \<Rightarrow> rstr list \<Rightarrow> rstr list \<times> nat" where
  "rotated_tenants cursor tenants =
     (if length tenants > 1
      then (rotate (cursor mod length tenants) tenants, (cursor + 1) mod 2 ^ 64)
      else (tenants, cursor))"

text \<open>One round of \<open>interleave\<close>: the first job of every tenant, in tenant order.\<close>

fun interleave_round :: "('t \<times> 'j list) list \<Rightarrow> ('t \<times> 'j) list \<times> ('t \<times> 'j list) list" where
  "interleave_round [] = ([], [])"
| "interleave_round ((t, q) # bs) =
     (case interleave_round bs of (out, rest) \<Rightarrow>
       (case q of [] \<Rightarrow> (out, (t, []) # rest) | j # q' \<Rightarrow> ((t, j) # out, (t, q') # rest)))"

lemma interleave_round_measure:
  "interleave_round bs = (out, rest) \<Longrightarrow>
     sum_list (map (length \<circ> snd) bs) = length out + sum_list (map (length \<circ> snd) rest)"
  by (induction bs arbitrary: out rest rule: interleave_round.induct) (auto split: prod.splits list.splits)

function interleave :: "('t \<times> 'j list) list \<Rightarrow> ('t \<times> 'j) list" where
  "interleave bs =
     (case interleave_round bs of (out, rest) \<Rightarrow> if out = [] then [] else out @ interleave rest)"
  by pat_completeness auto
termination
proof (relation "measure (\<lambda>bs. sum_list (map (length \<circ> snd) bs))", goal_cases)
  case (2 bs out rest)
  then show ?case using interleave_round_measure[of bs out rest] by (cases out) auto
qed simp

declare interleave.simps [simp del]

end
