(* ===== verification/Jobs_Once.thy ===== *)
theory Jobs_Once
  imports Jobs
begin

text \<open>
  What the overlap guard and the conditional writes give. The in-process scheduler: the state every
  operation keeps, and exactly what a tick claims. The durable one: over any interleaving of drivers
  on one store, a fire instant of a job is claimed at most once.
\<close>

section \<open>Histories and the overlap guard\<close>

lemma push_history_bound: "length h \<le> max_history \<Longrightarrow> length (push_history h r) \<le> max_history"
  by (simp add: push_history_def Let_def max_history_def)

lemma push_history_last: "push_history h r \<noteq> [] \<and> last (push_history h r) = r"
  by (simp add: push_history_def Let_def max_history_def)

lemma next_fire_later:
  assumes "next_fire s now = Inr (Some t)" "now < u64_max"
  shows "now < t"
  using next_fire_advances[where s = s and after = now] assms by auto

section \<open>The durable scheduler, interleaved\<close>

text \<open>
  The drivers of one tenant over one store. A driver loads the cards, claims them one conditional
  write at a time, and finishes a run with a read and a conditional write; between any two calls the
  other drivers, callers that schedule or cancel, and writers of other cards may run. \<open>cl_fires\<close> lists
  the claims won, a job id and the instant that was due; \<open>cl_ids\<close> the ids handed out.
\<close>

record 's cluster =
  cl_store :: 's
  cl_pending :: "nat \<Rightarrow> (stored_job \<times> rstr) list"
  cl_finishing :: "nat \<Rightarrow> (stored_job \<times> rstr) option"
  cl_fires :: "(rstr \<times> nat) list"
  cl_ids :: "rstr set"

definition cluster_start :: "'s \<Rightarrow> 's cluster" where
  "cluster_start s = \<lparr>cl_store = s, cl_pending = (\<lambda>_. []), cl_finishing = (\<lambda>_. None), cl_fires = [], cl_ids = {}\<rparr>"

record ('x, 's) backend_ops =
  bo_apply :: "'x \<Rightarrow> 's \<Rightarrow> cs_write list \<Rightarrow> cs_error + 's"
  bo_get :: "'x \<Rightarrow> 's \<Rightarrow> card_key \<Rightarrow> cs_error + rstr option"
  bo_list :: "'x \<Rightarrow> 's \<Rightarrow> rstr \<Rightarrow> rstr \<Rightarrow> cs_error + rstr list"
  bo_count :: "'x \<Rightarrow> 's \<Rightarrow> rstr \<Rightarrow> rstr \<Rightarrow> cs_error + nat"

definition fires_of :: "job_fault + claim_step_out \<Rightarrow> (rstr \<times> nat) list" where
  "fires_of out = (case out of Inr (CS_Won i goal n) \<Rightarrow> [(i, n)] | _ \<Rightarrow> [])"

inductive cluster_step :: "job_codec \<Rightarrow> ('x, 's) backend_ops \<Rightarrow> rstr \<Rightarrow> 's cluster \<Rightarrow> 's cluster \<Rightarrow> bool"
  for co ops tn where
  cl_load: "ss_tenant d = tn \<Longrightarrow> load_raw co (bo_list ops x (cl_store w)) d = Inr es \<Longrightarrow>
    cluster_step co ops tn w (w\<lparr>cl_pending := (cl_pending w)(i := es)\<rparr>)"
| cl_claim: "ss_tenant d = tn \<Longrightarrow> now < u64_max \<Longrightarrow> cl_pending w i = e # es \<Longrightarrow>
    claim_step co (bo_apply ops x (cl_store w)) d now e (cl_store w) = (out, s) \<Longrightarrow>
    cluster_step co ops tn w (w\<lparr>cl_store := s, cl_fires := cl_fires w @ fires_of out,
      cl_pending := (cl_pending w)(i := (if isl out then [] else es))\<rparr>)"
| cl_finish_read: "ss_tenant d = tn \<Longrightarrow> finish_read co (bo_get ops x (cl_store w)) d j r = Inr f \<Longrightarrow>
    cluster_step co ops tn w (w\<lparr>cl_finishing := (cl_finishing w)(i := f)\<rparr>)"
| cl_finish_write: "ss_tenant d = tn \<Longrightarrow> cl_finishing w i = Some f \<Longrightarrow>
    finish_write co (bo_apply ops x (cl_store w)) d f (cl_store w) = (res, s) \<Longrightarrow>
    cluster_step co ops tn w (w\<lparr>cl_store := s, cl_finishing := (cl_finishing w)(i := None)\<rparr>)"
| cl_schedule: "ss_tenant d = tn \<Longrightarrow> ''job-'' @ uuid \<notin> cl_ids w \<Longrightarrow>
    store_schedule co (bo_count ops y t) (bo_apply ops x (cl_store w)) d now uuid spec goal = Inr (j, s) \<Longrightarrow>
    cluster_step co ops tn w (w\<lparr>cl_store := s, cl_ids := insert j (cl_ids w)\<rparr>)"
| cl_cancel: "ss_tenant d = tn \<Longrightarrow>
    store_cancel (bo_get ops y t) (bo_apply ops x (cl_store w)) d j (cl_store w) = Inr (found, s) \<Longrightarrow>
    cluster_step co ops tn w (w\<lparr>cl_store := s\<rparr>)"
| cl_foreign: "cas_settled {} ws \<Longrightarrow> bo_apply ops x (cl_store w) ws = Inr s \<Longrightarrow>
    \<forall>v \<in> set ws. \<forall>j. (sched_collection, tn, j) \<notin> write_key v \<Longrightarrow>
    cluster_step co ops tn w (w\<lparr>cl_store := s\<rparr>)"
| cl_crash: "cluster_step co ops tn w
    (w\<lparr>cl_pending := (cl_pending w)(i := []), cl_finishing := (cl_finishing w)(i := None)\<rparr>)"

inductive cluster_reaches :: "job_codec \<Rightarrow> ('x, 's) backend_ops \<Rightarrow> rstr \<Rightarrow> 's cluster \<Rightarrow> 's cluster \<Rightarrow> bool"
  for co ops tn where
  cl_refl: "cluster_reaches co ops tn w w"
| cl_trans: "cluster_reaches co ops tn w v \<Longrightarrow> cluster_step co ops tn v u \<Longrightarrow> cluster_reaches co ops tn w u"

inductive_cases cluster_step_cases: "cluster_step co ops tn w u"

definition codec_ok :: "job_codec \<Rightarrow> bool" where
  "codec_ok co \<longleftrightarrow> (\<forall>sj b. jc_encode co sj = Inr b \<longrightarrow> jc_decode co b = Inr sj)"

lemma codec_okD: "codec_ok co \<Longrightarrow> encode_job co sj = Inr b \<Longrightarrow> decode_job co b = Inr sj"
  by (auto simp: codec_ok_def encode_job_def decode_job_def split: sum.splits)

text \<open>Every job card can be read, and its next fire lies beyond the instants already claimed.\<close>

definition job_rows_ok :: "job_codec \<Rightarrow> rstr \<Rightarrow> (rstr \<times> nat) set \<Rightarrow> rstr set \<Rightarrow> (card_key \<Rightarrow> rstr option) \<Rightarrow> bool" where
  "job_rows_ok co tn fired ids look \<longleftrightarrow>
     (\<forall>i b. look (sched_collection, tn, i) = Some b \<longrightarrow> i \<in> ids \<and>
        (\<exists>sj. decode_job co b = Inr sj \<and>
           (\<forall>n m. (i, n) \<in> fired \<longrightarrow> jb_next (sj_job sj) = Some m \<longrightarrow> n < m)))"

lemma job_rows_put:
  assumes "job_rows_ok co tn fired ids look" "decode_job co b = Inr sj" "i \<in> ids"
    and "\<And>n m. (i, n) \<in> fired' \<Longrightarrow> jb_next (sj_job sj) = Some m \<Longrightarrow> n < m"
    and "\<And>j n. (j, n) \<in> fired' \<Longrightarrow> j = i \<or> (j, n) \<in> fired"
  shows "job_rows_ok co tn fired' ids (look((sched_collection, tn, i) \<mapsto> b))"
  using assms unfolding job_rows_ok_def by (auto split: if_splits) metis+

lemma plan_claim_next:
  assumes "plan_claim d now sj = Inr p" "now < u64_max"
  shows "case p of CP_Pass \<Rightarrow> True
    | CP_Skip sj' r \<Rightarrow> (\<exists>n. jb_next (sj_job sj) = Some n \<and> n \<le> now \<and> (\<forall>m. jb_next (sj_job sj') = Some m \<longrightarrow> now < m))
    | CP_Claim sj' n \<Rightarrow> jb_next (sj_job sj) = Some n \<and> n \<le> now \<and> (\<forall>m. jb_next (sj_job sj') = Some m \<longrightarrow> now < m)"
  using assms next_fire_later[of "jb_schedule (sj_job sj)" now]
  by (auto simp: plan_claim_def bindR_Inr Let_def split: if_splits option.splits)

section \<open>No instant fires twice\<close>

context config_backend begin

abbreviation cards :: "'s \<Rightarrow> card_key \<Rightarrow> rstr option" where
  "cards s \<equiv> map_of (sp_rows (spec s))"

lemma put_effect:
  assumes "inv s" "commit x s [W_Ensure t, W_Put c t i b] = Inr s'"
  shows "inv s' \<and> cards s' = (cards s)((c, t, i) \<mapsto> b)"
proof -
  have "inv s' \<and> sp_rows (spec s') = row_put (c, t, i) b (sp_rows (spec s))"
    using apply_ok[OF assms(1) _ assms(2)] by (auto simp: spec_apply_def bindR_Inr dest!: arg_cong[where f = sp_rows])
  then show ?thesis by (simp add: map_of_row_put)
qed

lemma cas_effect:
  assumes "inv s" "commit x s [W_Ensure t, W_Cas c t i old b] = Inr s'"
  shows "inv s' \<and> cards s (c, t, i) = old \<and> cards s' = (cards s)((c, t, i) \<mapsto> b)"
proof -
  have "inv s' \<and> cards s (c, t, i) = old \<and> sp_rows (spec s') = row_put (c, t, i) b (sp_rows (spec s))"
    using apply_ok[OF assms(1) _ assms(2)]
    by (auto simp: spec_apply_def bindR_Inr split: if_splits dest!: arg_cong[where f = sp_rows])
  then show ?thesis by (simp add: map_of_row_put)
qed

lemma delete_effect:
  assumes "inv s" "commit x s [W_Delete c t i] = Inr s'"
  shows "inv s' \<and> cards s' = (cards s)((c, t, i) := None)"
proof -
  have "inv s' \<and> sp_rows (spec s') = filter (\<lambda>e. fst e \<noteq> (c, t, i)) (sp_rows (spec s))"
    using apply_ok[OF assms(1) _ assms(2)] by (auto simp: spec_apply_def bindR_Inr dest!: arg_cong[where f = sp_rows])
  then show ?thesis by (simp add: map_of_filter_key)
qed

lemma fold_spec_write_other:
  "\<forall>v \<in> set ws. k \<notin> write_key v \<Longrightarrow> map_of (sp_rows (fold spec_write ws p)) k = map_of (sp_rows p) k"
  by (induction ws arbitrary: p) (simp_all add: spec_write_other)

lemma foreign_effect:
  assumes "inv s" "cas_settled {} ws" "commit x s ws = Inr s'" "\<forall>v \<in> set ws. k \<notin> write_key v"
  shows "inv s' \<and> cards s' k = cards s k"
proof -
  have "inv s'" "spec s' = fold spec_write ws (spec s)"
    using apply_ok[OF assms(1-3)] by (auto simp: spec_apply_def bindR_Inr)
  then show ?thesis using fold_spec_write_other[OF assms(4)] by simp
qed

lemma cas_apply_effect:
  assumes "inv s" "codec_ok co" "cas_apply co (commit x s) d sj prior = Inr s'"
  shows "\<exists>b. decode_job co b = Inr sj \<and> inv s'
    \<and> cards s (sched_collection, ss_tenant d, jb_id (sj_job sj)) = Some prior
    \<and> cards s' = (cards s)((sched_collection, ss_tenant d, jb_id (sj_job sj)) \<mapsto> b)"
proof -
  obtain b where b: "encode_job co sj = Inr b"
    "commit x s [W_Ensure (ss_tenant d), W_Cas sched_collection (ss_tenant d) (jb_id (sj_job sj)) (Some prior) b] = Inr s'"
    using assms(3) by (auto simp: cas_apply_def job_cas_writes_def bindR_Inr)
  then show ?thesis using cas_effect[OF assms(1) b(2)] codec_okD[OF assms(2) b(1)] by blast
qed

text \<open>A conditional write of a card whose instants lie beyond those of the card it replaces.\<close>

lemma cas_rows_ok:
  assumes "inv s" "codec_ok co" "cas_apply co (commit x s) d sj' prior = Inr s'"
    and "job_rows_ok co (ss_tenant d) fired ids (cards s)" "decode_job co prior = Inr sj"
    and later: "\<And>n m. (\<forall>k. jb_next (sj_job sj) = Some k \<longrightarrow> n < k) \<or> (jb_id (sj_job sj'), n) \<in> extra \<Longrightarrow>
        jb_next (sj_job sj') = Some m \<Longrightarrow> n < m"
    and extra: "extra \<subseteq> {jb_id (sj_job sj')} \<times> UNIV"
  shows "inv s' \<and> jb_id (sj_job sj') \<in> ids \<and> job_rows_ok co (ss_tenant d) (fired \<union> extra) ids (cards s')
    \<and> (\<forall>n k. (jb_id (sj_job sj'), n) \<in> fired \<longrightarrow> jb_next (sj_job sj) = Some k \<longrightarrow> n < k)"
proof -
  let ?i = "jb_id (sj_job sj')"
  obtain b where b: "decode_job co b = Inr sj'" "inv s'" "cards s (sched_collection, ss_tenant d, ?i) = Some prior"
    "cards s' = (cards s)((sched_collection, ss_tenant d, ?i) \<mapsto> b)"
    using cas_apply_effect[OF assms(1-3)] by blast
  then have old: "?i \<in> ids" "\<And>n k. (?i, n) \<in> fired \<Longrightarrow> jb_next (sj_job sj) = Some k \<Longrightarrow> n < k"
    using assms(4,5) by (fastforce simp: job_rows_ok_def)+
  have "job_rows_ok co (ss_tenant d) (fired \<union> extra) ids (cards s')"
    unfolding b(4)
  proof (rule job_rows_put[OF assms(4) b(1) old(1)])
    fix n m
    assume "(?i, n) \<in> fired \<union> extra" "jb_next (sj_job sj') = Some m"
    then show "n < m" using later[of n m] old(2) by blast
  qed (use extra in auto)
  then show ?thesis using b(2) old by blast
qed

lemma claim_step_effect:
  assumes "inv s" "codec_ok co" "ss_tenant d = tn" "now < u64_max" "decode_job co b = Inr sj"
    and "job_rows_ok co tn fired ids (cards s)"
    and "claim_step co (commit x s) d now (sj, b) s = (out, s')"
  shows "inv s' \<and> job_rows_ok co tn (fired \<union> set (fires_of out)) ids (cards s')
    \<and> distinct (fires_of out) \<and> (\<forall>f \<in> set (fires_of out). f \<notin> fired \<and> fst f \<in> ids)"
proof (cases "plan_claim d now sj")
  case (Inl p)
  then show ?thesis using assms by (auto simp: claim_step_def fires_of_def)
next
  case (Inr p)
  note ahead = plan_claim_next[OF Inr assms(4)]
  show ?thesis
  proof (cases p)
    case CP_Pass
    then show ?thesis using assms Inr by (auto simp: claim_step_def fires_of_def)
  next
    case (CP_Skip sj' r)
    show ?thesis
    proof (cases "cas_apply co (commit x s) d sj' b")
      case (Inl e)
      then show ?thesis using assms Inr CP_Skip by (auto simp: claim_step_def fires_of_def split: if_splits)
    next
      case ok: (Inr t)
      have "inv t \<and> jb_id (sj_job sj') \<in> ids \<and> job_rows_ok co (ss_tenant d) (fired \<union> {}) ids (cards t)
        \<and> (\<forall>n k. (jb_id (sj_job sj'), n) \<in> fired \<longrightarrow> jb_next (sj_job sj) = Some k \<longrightarrow> n < k)"
        using ahead CP_Skip by (intro cas_rows_ok[OF assms(1,2) ok _ assms(5)])
          (auto simp: assms(3,6) intro: less_le_trans dest: le_less_trans)
      then show ?thesis using assms Inr CP_Skip ok by (auto simp: claim_step_def fires_of_def)
    qed
  next
    case (CP_Claim sj' n)
    show ?thesis
    proof (cases "cas_apply co (commit x s) d sj' b")
      case (Inl e)
      then show ?thesis using assms Inr CP_Claim by (auto simp: claim_step_def fires_of_def split: if_splits)
    next
      case ok: (Inr t)
      have "inv t \<and> jb_id (sj_job sj') \<in> ids \<and> job_rows_ok co (ss_tenant d) (fired \<union> {(jb_id (sj_job sj'), n)}) ids (cards t)
        \<and> (\<forall>m k. (jb_id (sj_job sj'), m) \<in> fired \<longrightarrow> jb_next (sj_job sj) = Some k \<longrightarrow> m < k)"
        using ahead CP_Claim by (intro cas_rows_ok[OF assms(1,2) ok _ assms(5)])
          (auto simp: assms(3,6) intro: less_le_trans dest: le_less_trans)
      then show ?thesis using assms Inr CP_Claim ahead ok by (auto simp: claim_step_def fires_of_def)
    qed
  qed
qed

definition once_inv :: "job_codec \<Rightarrow> rstr \<Rightarrow> 's cluster \<Rightarrow> bool" where
  "once_inv co tn w \<longleftrightarrow> inv (cl_store w)
     \<and> job_rows_ok co tn (set (cl_fires w)) (cl_ids w) (cards (cl_store w))
     \<and> distinct (cl_fires w) \<and> fst ` set (cl_fires w) \<subseteq> cl_ids w
     \<and> (\<forall>i. \<forall>e \<in> set (cl_pending w i). decode_job co (snd e) = Inr (fst e))
     \<and> (\<forall>i f. cl_finishing w i = Some f \<longrightarrow>
          (\<exists>sj. decode_job co (snd f) = Inr sj \<and> jb_next (sj_job (fst f)) = jb_next (sj_job sj)))"

lemma decode_all_entries: "decode_all co bs = Inr es \<Longrightarrow> e \<in> set es \<Longrightarrow> decode_job co (snd e) = Inr (fst e)"
  by (induction bs arbitrary: es) (auto simp: bindR_Inr)

lemma finish_read_entry:
  "finish_read co look d j r = Inr (Some f) \<Longrightarrow>
     \<exists>sj. decode_job co (snd f) = Inr sj \<and> jb_next (sj_job (fst f)) = jb_next (sj_job sj)"
  by (auto simp: finish_read_def finish_card_def bindR_Inr Let_def split: if_splits option.splits)

lemma schedule_effect:
  assumes "inv s" "codec_ok co" "store_schedule co cnt (commit x s) d now uuid spec' goal = Inr (j, s')"
  shows "j = ''job-'' @ uuid \<and> inv s' \<and> (\<exists>b sj. decode_job co b = Inr sj \<and> cards s' = (cards s)((sched_collection, ss_tenant d, j) \<mapsto> b))"
proof -
  obtain b sj where b: "j = ''job-'' @ uuid" "encode_job co sj = Inr b"
    "commit x s [W_Ensure (ss_tenant d), W_Put sched_collection (ss_tenant d) j b] = Inr s'"
    using assms(3)
    by (auto simp: store_schedule_def bindR_Inr faultP_def faultE_def write_job_def job_put_writes_def Let_def
        split: if_splits sum.splits)
  then show ?thesis using put_effect[OF assms(1) b(3)] codec_okD[OF assms(2) b(2)] by blast
qed

lemma rows_ok_same: "job_rows_ok co tn fired ids look \<Longrightarrow> (\<And>i. look' (sched_collection, tn, i) = look (sched_collection, tn, i)) \<Longrightarrow>
    job_rows_ok co tn fired ids look'"
  by (simp add: job_rows_ok_def)

lemma rows_ok_delete: "job_rows_ok co tn fired ids look \<Longrightarrow> job_rows_ok co tn fired ids (look(k := None))"
  by (auto simp: job_rows_ok_def split: if_splits)

lemma rows_ok_ids: "job_rows_ok co tn fired ids look \<Longrightarrow> ids \<subseteq> ids' \<Longrightarrow> job_rows_ok co tn fired ids' look"
  by (force simp: job_rows_ok_def)

lemma once_step:
  assumes "codec_ok co" "once_inv co tn w"
    and "cluster_step co \<lparr>bo_apply = commit, bo_get = get, bo_list = listing, bo_count = counting\<rparr> tn w u"
  shows "once_inv co tn u"
proof -
  have inv: "inv (cl_store w)" and rows: "job_rows_ok co tn (set (cl_fires w)) (cl_ids w) (cards (cl_store w))"
    and dist: "distinct (cl_fires w)" and used: "fst ` set (cl_fires w) \<subseteq> cl_ids w"
    and pend: "\<And>i e. e \<in> set (cl_pending w i) \<Longrightarrow> decode_job co (snd e) = Inr (fst e)"
    and fin: "\<And>i f. cl_finishing w i = Some f \<Longrightarrow>
      \<exists>sj. decode_job co (snd f) = Inr sj \<and> jb_next (sj_job (fst f)) = jb_next (sj_job sj)"
    using assms(2) unfolding once_inv_def by blast+
  from assms(3) show ?thesis
  proof (cases rule: cluster_step.cases)
    case (cl_load d x es i)
    then have "\<forall>e \<in> set es. decode_job co (snd e) = Inr (fst e)"
      by (auto simp: load_raw_def bindR_Inr dest: decode_all_entries)
    then show ?thesis using cl_load inv rows dist used pend fin by (auto simp: once_inv_def)
  next
    case (cl_claim d now i e es x out s)
    obtain sj b where e: "e = (sj, b)" by fastforce
    then have dec: "decode_job co b = Inr sj" using pend[of e i] cl_claim by simp
    note eff = claim_step_effect[OF inv assms(1) cl_claim(2,3) dec rows, of x out s]
    have s: "inv s" "job_rows_ok co tn (set (cl_fires w) \<union> set (fires_of out)) (cl_ids w) (cards s)"
      "distinct (fires_of out)" "\<forall>f \<in> set (fires_of out). f \<notin> set (cl_fires w) \<and> fst f \<in> cl_ids w"
      using eff cl_claim e by simp_all
    have pend': "decode_job co (snd e') = Inr (fst e')" if "e' \<in> set (if isl out then [] else es)" for e'
      using that pend[of e' i] cl_claim by (auto split: if_splits)
    show ?thesis using cl_claim s dist used pend pend' fin by (auto simp: once_inv_def)
  next
    case (cl_finish_read d x j r f i)
    then show ?thesis using inv rows dist used pend fin finish_read_entry by (auto simp: once_inv_def)
  next
    case (cl_finish_write d i f x res s)
    obtain sj where f: "decode_job co (snd f) = Inr sj" "jb_next (sj_job (fst f)) = jb_next (sj_job sj)"
      using fin cl_finish_write by blast
    have "inv s \<and> job_rows_ok co tn (set (cl_fires w)) (cl_ids w) (cards s)"
    proof (cases "cas_apply co (commit x (cl_store w)) d (fst f) (snd f)")
      case (Inl err)
      then show ?thesis using cl_finish_write inv rows by (auto simp: finish_write_def split: if_splits)
    next
      case ok: (Inr t)
      have "inv t \<and> jb_id (sj_job (fst f)) \<in> cl_ids w \<and> job_rows_ok co (ss_tenant d) (set (cl_fires w) \<union> {}) (cl_ids w) (cards t)
        \<and> (\<forall>n k. (jb_id (sj_job (fst f)), n) \<in> set (cl_fires w) \<longrightarrow> jb_next (sj_job sj) = Some k \<longrightarrow> n < k)"
        using f cl_finish_write rows by (intro cas_rows_ok[OF inv assms(1) ok _ f(1)]) auto
      then show ?thesis using cl_finish_write ok by (auto simp: finish_write_def)
    qed
    then show ?thesis using cl_finish_write dist used pend fin by (auto simp: once_inv_def)
  next
    case (cl_schedule d uuid y t x now spec' goal j s)
    have "store_schedule co (counting y t) (commit x (cl_store w)) d now uuid spec' goal = Inr (j, s)"
      using cl_schedule by simp
    from schedule_effect[OF inv assms(1) this] cl_schedule(2)
    obtain b sj where b: "j = ''job-'' @ uuid" "inv s" "decode_job co b = Inr sj"
      "cards s = (cards (cl_store w))((sched_collection, tn, j) \<mapsto> b)" by auto
    have "j \<notin> cl_ids w" using b(1) cl_schedule(3) by simp
    then have fresh: "(j, n) \<notin> set (cl_fires w)" for n using used by (force simp: subset_iff)
    have "job_rows_ok co tn (set (cl_fires w)) (insert j (cl_ids w)) (cards s)"
      unfolding b(4)
      by (rule job_rows_put[OF rows_ok_ids[OF rows] b(3)]) (use fresh in auto)
    then show ?thesis using cl_schedule b(2) dist used pend fin by (auto simp: once_inv_def)
  next
    case (cl_cancel d y t x j found s)
    then have "s = cl_store w \<or> commit x (cl_store w) [W_Delete sched_collection tn j] = Inr s"
      by (auto simp: store_cancel_def bindR_Inr split: if_splits)
    then have "inv s \<and> job_rows_ok co tn (set (cl_fires w)) (cl_ids w) (cards s)"
      using inv rows delete_effect[OF inv] rows_ok_delete[OF rows] by auto
    then show ?thesis using cl_cancel dist used pend fin by (auto simp: once_inv_def)
  next
    case (cl_foreign ws x s)
    then have eff: "inv s \<and> cards s (sched_collection, tn, i) = cards (cl_store w) (sched_collection, tn, i)" for i
      using foreign_effect[OF inv, of ws x s "(sched_collection, tn, i)"] by simp
    then show ?thesis using cl_foreign rows_ok_same[OF rows] dist used pend fin by (auto simp: once_inv_def)
  next
    case (cl_crash i)
    then show ?thesis using inv rows dist used pend fin by (auto simp: once_inv_def)
  qed
qed

lemma once_reaches:
  "cluster_reaches co \<lparr>bo_apply = commit, bo_get = get, bo_list = listing, bo_count = counting\<rparr> tn w u \<Longrightarrow>
     codec_ok co \<Longrightarrow> once_inv co tn w \<Longrightarrow> once_inv co tn u"
  by (induction rule: cluster_reaches.induct) (auto intro: once_step)

lemma once_start:
  "inv s \<Longrightarrow> \<forall>i. cards s (sched_collection, tn, i) = None \<Longrightarrow> once_inv co tn (cluster_start s)"
  by (simp add: once_inv_def cluster_start_def job_rows_ok_def)

lemma fires_distinct:
  assumes "inv s" "sp_rows (spec s) = []" "codec_ok co"
    and "cluster_reaches co \<lparr>bo_apply = commit, bo_get = get, bo_list = listing, bo_count = counting\<rparr> tn (cluster_start s) w"
  shows "distinct (cl_fires w)"
  using once_reaches[OF assms(4,3) once_start[OF assms(1)]] assms(2) by (simp add: once_inv_def)

end

section \<open>Over the three backends\<close>

definition mem_ops :: "(unit, mem_store) backend_ops" where
  "mem_ops = \<lparr>bo_apply = (\<lambda>_. mem_apply), bo_get = (\<lambda>_ m k. Inr (mem_get m k)),
     bo_list = (\<lambda>_ m c t. Inr (mem_list m c t)), bo_count = (\<lambda>_ m c t. Inr (mem_count m c t))\<rparr>"

definition file_ops :: "(file_env, store_bundle option) backend_ops" where
  "file_ops = \<lparr>bo_apply = file_apply, bo_get = file_get, bo_list = file_list, bo_count = file_count\<rparr>"

definition sql_ops :: "(rstr option, sql_store) backend_ops" where
  "sql_ops = \<lparr>bo_apply = sql_apply, bo_get = sql_get, bo_list = sql_list, bo_count = sql_count\<rparr>"

text \<open>
  Property C5. Several drivers tick one tenant's jobs over one store, with any clocks, with other
  callers scheduling, cancelling and writing other cards in between, with failing store calls and
  crashes anywhere: no fire instant of a job is claimed twice, in any of the three backends.
\<close>

theorem fire_claimed_once:
  assumes "codec_ok co"
    and "cluster_reaches co mem_ops tn (cluster_start mem_new) w"
    and "cluster_reaches co file_ops tn (cluster_start None) v"
    and "cluster_reaches co sql_ops tn (cluster_start sql_new) u"
  shows "distinct (cl_fires w) \<and> distinct (cl_fires v) \<and> distinct (cl_fires u)"
proof (intro conjI)
  show "distinct (cl_fires w)"
    using mem.fires_distinct[OF fresh_stores(1) _ assms(1) assms(2)[unfolded mem_ops_def]] by (simp add: fresh_stores)
  show "distinct (cl_fires v)"
    using fil.fires_distinct[OF fresh_stores(3) _ assms(1) assms(3)[unfolded file_ops_def]] by (simp add: fresh_stores)
  show "distinct (cl_fires u)"
    using sql.fires_distinct[OF fresh_stores(2) _ assms(1) assms(4)[unfolded sql_ops_def]] by (simp add: fresh_stores)
qed

section \<open>A run\<close>

text \<open>Two drivers load one due job of the tenant \<open>t\<close>; the second finds the card changed. The codec knows two cards.\<close>

definition race_card :: "nat option \<Rightarrow> nat option \<Rightarrow> rstr option \<Rightarrow> stored_job" where
  "race_card n c b = \<lparr>sj_job = \<lparr>jb_id = ''job-1'', jb_spec = ''once:5'', jb_schedule = Sched_Once 5, jb_goal = ''g'',
     jb_next = n, jb_enabled = True\<rparr>, sj_claimed_at = c, sj_claimed_by = b, sj_history = []\<rparr>"

definition race_codec :: job_codec where
  "race_codec = \<lparr>
     jc_encode = (\<lambda>sj. if sj = race_card (Some 5) None None then Inr ''A''
       else if sj = race_card None (Some 5) (Some ''o'') then Inr ''B'' else Inl ''other''),
     jc_decode = (\<lambda>b. if b = ''A'' then Inr (race_card (Some 5) None None)
       else if b = ''B'' then Inr (race_card None (Some 5) (Some ''o'')) else Inl ''other'')\<rparr>"

definition race_sched :: store_sched where
  "race_sched = \<lparr>ss_tenant = ''t'', ss_owner = ''o'', ss_ttl = 10, ss_max_jobs = 2\<rparr>"

definition race_store :: "rstr \<Rightarrow> nat \<Rightarrow> mem_store" where
  "race_store b n = \<lparr>ms_tenants = {''t''}, ms_cards = [((''scheduler'', ''t'', ''job-1''), (n, b))], ms_next = 1\<rparr>"

lemma race_codec_ok: "codec_ok race_codec"
  by (auto simp: codec_ok_def race_codec_def split: if_splits)

lemma race_schedule:
  "store_schedule race_codec (\<lambda>c t. Inr (mem_count mem_new c t)) (mem_apply mem_new) race_sched 0 ''1'' ''once:5'' ''g''
     = Inr (''job-1'', race_store ''A'' 0)"
  by code_simp

lemma race_load: "load_raw race_codec (\<lambda>c t. Inr (mem_list (race_store ''A'' 0) c t)) race_sched
    = Inr [(race_card (Some 5) None None, ''A'')]"
  by code_simp

lemma race_win: "claim_step race_codec (mem_apply (race_store ''A'' 0)) race_sched 5 (race_card (Some 5) None None, ''A'') (race_store ''A'' 0)
    = (Inr (CS_Won ''job-1'' ''g'' 5), race_store ''B'' 0)"
  by code_simp

lemma race_lose: "claim_step race_codec (mem_apply (race_store ''B'' 0)) race_sched 5 (race_card (Some 5) None None, ''A'') (race_store ''B'' 0)
    = (Inr CS_Lost, race_store ''B'' 0)"
  by code_simp

definition race_end :: "mem_store cluster" where
  "race_end = \<lparr>cl_store = race_store ''B'' 0, cl_pending = (\<lambda>_. []), cl_finishing = (\<lambda>_. None),
     cl_fires = [(''job-1'', 5)], cl_ids = {''job-1''}\<rparr>"

lemma race_run: "cluster_reaches race_codec mem_ops ''t'' (cluster_start mem_new) race_end"
proof -
  define card where "card = race_card (Some 5) None None"
  define w1 where "w1 = (cluster_start mem_new)\<lparr>cl_store := race_store ''A'' 0, cl_ids := {''job-1''}\<rparr>"
  define w2 where "w2 = w1\<lparr>cl_pending := (cl_pending w1)(0 := [(card, ''A'')])\<rparr>"
  define w3 where "w3 = w2\<lparr>cl_pending := (cl_pending w2)(2 := [(card, ''A'')])\<rparr>"
  define w4 where "w4 = w3\<lparr>cl_store := race_store ''B'' 0, cl_fires := [(''job-1'', 5)], cl_pending := (cl_pending w3)(0 := [])\<rparr>"
  have "cluster_step race_codec mem_ops ''t'' (cluster_start mem_new) w1"
    using cl_schedule[of race_sched "''t''" "''1''" "cluster_start mem_new" race_codec mem_ops "()" mem_new "()" 0 "''once:5''" "''g''"
        "''job-1''" "race_store ''A'' 0"] race_schedule
    by (simp add: w1_def cluster_start_def mem_ops_def race_sched_def)
  moreover have "cluster_step race_codec mem_ops ''t'' w1 w2"
    using cl_load[of race_sched "''t''" race_codec mem_ops "()" w1 "[(card, ''A'')]" 0] race_load
    by (simp add: w2_def w1_def card_def mem_ops_def race_sched_def)
  moreover have "cluster_step race_codec mem_ops ''t'' w2 w3"
    using cl_load[of race_sched "''t''" race_codec mem_ops "()" w2 "[(card, ''A'')]" 2] race_load
    by (simp add: w3_def w2_def w1_def card_def mem_ops_def race_sched_def)
  moreover have "cluster_step race_codec mem_ops ''t'' w3 w4"
    using cl_claim[of race_sched "''t''" 5 w3 0 "(card, ''A'')" "[]" race_codec mem_ops "()" "Inr (CS_Won ''job-1'' ''g'' 5)" "race_store ''B'' 0"] race_win
    by (simp add: w4_def w3_def w2_def w1_def card_def mem_ops_def race_sched_def fires_of_def cluster_start_def u64_max_def)
  moreover have "cluster_step race_codec mem_ops ''t'' w4 (w4\<lparr>cl_pending := (cl_pending w4)(2 := [])\<rparr>)"
    using cl_claim[of race_sched "''t''" 5 w4 2 "(card, ''A'')" "[]" race_codec mem_ops "()" "Inr CS_Lost" "race_store ''B'' 0"] race_lose
    by (simp add: w4_def w3_def w2_def w1_def card_def mem_ops_def race_sched_def fires_of_def cluster_start_def u64_max_def)
  moreover have "w4\<lparr>cl_pending := (cl_pending w4)(2 := [])\<rparr> = race_end"
    by (auto simp: race_end_def w4_def w3_def w2_def w1_def cluster_start_def fun_eq_iff)
  ultimately show ?thesis by (metis cl_refl cl_trans)
qed

theorem fire_claimed_once_witness:
  "cluster_reaches race_codec mem_ops ''t'' (cluster_start mem_new) race_end \<and> distinct (cl_fires race_end)"
  using fire_claimed_once[OF race_codec_ok race_run cl_refl cl_refl] race_run by simp

end
