(* ===== verification/Jobs_Local.thy ===== *)
theory Jobs_Local
  imports Jobs_Once
begin

text \<open>
  The in-process scheduler: the state every call keeps, what a tick claims, skips and leaves; and the
  durable scheduler as its port: alone on a store that answers, one tick claims, skips and records the
  same.
\<close>

section \<open>What a tick does to a job\<close>

definition due_now :: "nat \<Rightarrow> job_state \<Rightarrow> bool" where
  "due_now now js \<longleftrightarrow> jb_enabled (js_job js) \<and> (\<exists>n. jb_next (js_job js) = Some n \<and> n \<le> now)"

definition in_flight_at :: "nat \<Rightarrow> nat \<Rightarrow> job_state \<Rightarrow> bool" where
  "in_flight_at ttl now js \<longleftrightarrow> (\<exists>c. js_claimed js = Some c \<and> claim_is_live c now ttl)"

definition rearm :: "nat \<Rightarrow> job_state \<Rightarrow> job_state" where
  "rearm now js = js\<lparr>js_job := (js_job js)\<lparr>jb_next := (case next_fire (jb_schedule (js_job js)) now of Inr n \<Rightarrow> n | Inl _ \<Rightarrow> None)\<rparr>\<rparr>"

definition ticked :: "nat \<Rightarrow> nat \<Rightarrow> job_state \<Rightarrow> job_state" where
  "ticked ttl now js =
     (if \<not> due_now now js then js
      else if in_flight_at ttl now js
      then (rearm now js)\<lparr>js_history := push_history (js_history js) (skipped_run (jb_id (js_job js)) now)\<rparr>
      else (rearm now js)\<lparr>js_claimed := Some now\<rparr>)"

definition entry_ok :: "nat \<Rightarrow> rstr \<times> job_state \<Rightarrow> bool" where
  "entry_ok next_id e \<longleftrightarrow> jb_id (js_job (snd e)) = fst e \<and> length (js_history (snd e)) \<le> max_history
     \<and> (\<exists>n < next_id. fst e = ''job-'' @ show_nat n)"

definition local_ok :: "local_sched \<Rightarrow> bool" where
  "local_ok s \<longleftrightarrow> 0 < ls_ttl s \<and> length (ls_jobs s) \<le> ls_max_jobs s \<and> distinct (map fst (ls_jobs s))
     \<and> (\<forall>e \<in> set (ls_jobs s). entry_ok (ls_next_id s) e)"

lemma entry_ok_mono: "entry_ok n e \<Longrightarrow> n \<le> m \<Longrightarrow> entry_ok m e"
  unfolding entry_ok_def by (meson less_le_trans)

lemma entry_ok_key: "entry_ok n e \<Longrightarrow> fst e \<noteq> ''job-'' @ show_nat n"
  by (auto simp: entry_ok_def dest: show_nat_inj)

lemma fresh_key: "\<forall>e \<in> set es. entry_ok n e \<Longrightarrow> ''job-'' @ show_nat n \<notin> fst ` set es"
proof (induction es)
  case (Cons e es)
  then show ?case using entry_ok_key[of n e] by simp
qed simp

lemma claim_one_ticked:
  assumes "claim_one_job ttl now js = Inr (js', out)"
  shows "(out = CO_Due) = (due_now now js \<and> \<not> in_flight_at ttl now js)
    \<and> (out = CO_Skip) = (due_now now js \<and> in_flight_at ttl now js)
    \<and> ticked ttl now js = (if out = CO_Skip
        then js'\<lparr>js_history := push_history (js_history js') (skipped_run (jb_id (js_job js)) now)\<rparr> else js')
    \<and> jb_id (js_job js') = jb_id (js_job js) \<and> js_history js' = js_history js"
  using assms
  by (auto simp: claim_one_job_def ticked_def due_now_def in_flight_at_def rearm_def bindR_Inr Let_def
      split: if_splits option.splits)

lemma fold_push_keys: "map fst (fold push_skipped sk jobs) = map fst jobs"
  by (induction sk arbitrary: jobs) (simp_all add: push_skipped_def comp_def case_prod_beta)

lemma fold_push_other:
  "k \<notin> rn_job ` set sk \<Longrightarrow> fold push_skipped sk ((k, x) # ys) = (k, x) # fold push_skipped sk ys"
  by (induction sk arbitrary: ys) (auto simp: push_skipped_def)

lemma claim_all_ticked:
  assumes "claim_all ttl now jobs = Inr (jobs', due, skipped)" "distinct (map fst jobs)"
    "\<forall>(k, js) \<in> set jobs. jb_id (js_job js) = k"
  shows "fold push_skipped skipped jobs' = map (\<lambda>(k, js). (k, ticked ttl now js)) jobs
    \<and> due = map (\<lambda>(k, js). (k, jb_goal (js_job js))) (filter (\<lambda>(k, js). due_now now js \<and> \<not> in_flight_at ttl now js) jobs)
    \<and> rn_job ` set skipped \<subseteq> fst ` set jobs"
  using assms
proof (induction jobs arbitrary: jobs' due skipped)
  case (Cons e jobs)
  obtain k js where e: "e = (k, js)" by fastforce
  obtain js' out jobs1 due1 sk1 where one: "claim_one_job ttl now js = Inr (js', out)"
    and rest: "claim_all ttl now jobs = Inr (jobs1, due1, sk1)"
    and eq: "jobs' = (k, js') # jobs1" "due = (if out = CO_Due then (jb_id (js_job js), jb_goal (js_job js)) # due1 else due1)"
      "skipped = (if out = CO_Skip then skipped_run (jb_id (js_job js)) now # sk1 else sk1)"
    using Cons.prems(1) e by (auto simp: bindR_Inr)
  have IH: "fold push_skipped sk1 jobs1 = map (\<lambda>(k, js). (k, ticked ttl now js)) jobs"
    "due1 = map (\<lambda>(k, js). (k, jb_goal (js_job js))) (filter (\<lambda>(k, js). due_now now js \<and> \<not> in_flight_at ttl now js) jobs)"
    "rn_job ` set sk1 \<subseteq> fst ` set jobs"
    using Cons.IH[OF rest] Cons.prems(2,3) by auto
  have id: "jb_id (js_job js) = k" and fresh: "k \<notin> fst ` set jobs" using Cons.prems(2,3) e by auto
  have keys1: "fst ` set jobs1 = fst ` set jobs"
    using arg_cong[OF IH(1), of "\<lambda>xs. set (map fst xs)"] fold_push_keys[of sk1 jobs1]
    by (simp add: comp_def case_prod_beta del: set_map) (simp add: image_image)
  have none: "(k, b) \<notin> set jobs1" for b using fresh keys1 by force
  have head: "fold push_skipped sk1 ((k, x) # ys) = (k, x) # fold push_skipped sk1 ys" for x ys
    using IH(3) fresh by (intro fold_push_other) auto
  note tick = claim_one_ticked[OF one]
  show ?case
  proof (cases "out = CO_Skip")
    case True
    have "push_skipped (skipped_run k now) ((k, js') # jobs1)
        = (k, js'\<lparr>js_history := push_history (js_history js') (skipped_run k now)\<rparr>) # jobs1"
      using none by (auto simp: push_skipped_def skipped_run_def intro!: map_idI)
    then show ?thesis using True eq e id tick head IH by (auto simp: skipped_run_def)
  next
    case False
    then show ?thesis using eq e id tick head IH by auto
  qed
qed simp

section \<open>The state every call keeps\<close>

text \<open>The calls of the seam and of the tick; a tick is its claims and, later, the end of each run.\<close>

datatype local_call =
    LC_Schedule nat rstr rstr
  | LC_Claim nat
  | LC_Finish rstr nat "cs_error + rstr" nat
  | LC_Tick nat "rstr \<Rightarrow> rstr \<Rightarrow> nat \<times> (cs_error + rstr) \<times> nat"
  | LC_Cancel rstr

fun local_call_step :: "local_call \<Rightarrow> local_sched \<Rightarrow> sched_panic + local_sched" where
  "local_call_step (LC_Schedule now spec goal) s =
     (case local_schedule now spec goal s of (Inl (JF_Panic p), s') \<Rightarrow> Inl p | (_, s') \<Rightarrow> Inr s')"
| "local_call_step (LC_Claim now) s = bindR (local_claim_due now s) (\<lambda>(s', due). Inr s')"
| "local_call_step (LC_Finish i started out finished) s = Inr (local_finish i (finished_run i started finished out) s)"
| "local_call_step (LC_Tick now exec) s = bindR (local_tick now exec s) (\<lambda>(s', n). Inr s')"
| "local_call_step (LC_Cancel i) s = Inr (snd (local_cancel i s))"

inductive local_reachable :: "local_sched \<Rightarrow> bool" where
  lr_new: "local_reachable (with_max_jobs n (with_claim_ttl ms local_new))"
| lr_call: "local_reachable s \<Longrightarrow> local_call_step c s = Inr s' \<Longrightarrow> local_reachable s'"

lemma ticked_id: "jb_id (js_job (ticked ttl now js)) = jb_id (js_job js)"
  by (simp add: ticked_def rearm_def)

lemma ticked_history: "length (js_history js) \<le> max_history \<Longrightarrow> length (js_history (ticked ttl now js)) \<le> max_history"
  by (simp add: ticked_def rearm_def push_history_bound)

lemma claim_due_ticked:
  assumes "local_ok s" "local_claim_due now s = Inr (s', due)"
  shows "s' = s\<lparr>ls_jobs := map (\<lambda>(k, js). (k, ticked (ls_ttl s) now js)) (ls_jobs s)\<rparr>
    \<and> due = map (\<lambda>(k, js). (k, jb_goal (js_job js)))
        (filter (\<lambda>(k, js). due_now now js \<and> \<not> in_flight_at (ls_ttl s) now js) (ls_jobs s))"
proof -
  obtain jobs' skipped where "claim_all (ls_ttl s) now (ls_jobs s) = Inr (jobs', due, skipped)"
    "s' = s\<lparr>ls_jobs := fold push_skipped skipped jobs'\<rparr>"
    using assms(2) by (auto simp: local_claim_due_def bindR_Inr)
  moreover have "distinct (map fst (ls_jobs s))" "\<forall>(k, js) \<in> set (ls_jobs s). jb_id (js_job js) = k"
    using assms(1) by (auto simp: local_ok_def entry_ok_def)
  ultimately show ?thesis using claim_all_ticked[of "ls_ttl s" now "ls_jobs s" jobs' due skipped] by simp
qed

lemma local_ok_claim: "local_ok s \<Longrightarrow> local_claim_due now s = Inr (s', due) \<Longrightarrow> local_ok s'"
  using claim_due_ticked[of s now s' due]
  by (auto simp: local_ok_def entry_ok_def comp_def case_prod_beta ticked_id ticked_history)

lemma local_ok_finish: "local_ok s \<Longrightarrow> local_ok (local_finish i r s)"
  by (auto simp: local_ok_def entry_ok_def local_finish_def comp_def case_prod_beta finish_state_def Let_def push_history_bound)

lemma local_ok_add:
  assumes "local_ok s" "length (ls_jobs s) < ls_max_jobs s" "i = ''job-'' @ show_nat (ls_next_id s)" "jb_id jb = i"
  shows "local_ok (s\<lparr>ls_next_id := ls_next_id s + 1,
    ls_jobs := ls_jobs s @ [(i, \<lparr>js_job = jb, js_claimed = None, js_history = []\<rparr>)]\<rparr>)"
proof -
  have new: "entry_ok (ls_next_id s + 1) (i, \<lparr>js_job = jb, js_claimed = None, js_history = []\<rparr>)"
    unfolding entry_ok_def using assms(3,4) by (auto intro!: exI[of _ "ls_next_id s"])
  have "i \<notin> fst ` set (ls_jobs s)" unfolding assms(3) using assms(1) by (intro fresh_key) (simp add: local_ok_def)
  then show ?thesis
    using assms(1,2) new entry_ok_mono[of "ls_next_id s" _ "ls_next_id s + 1"] by (auto simp: local_ok_def)
qed

lemma local_ok_schedule:
  assumes "local_ok s"
  shows "local_ok (snd (local_schedule now spec goal s))"
proof -
  have grow: "local_ok (s\<lparr>ls_next_id := ls_next_id s + 1\<rparr>)"
    using assms entry_ok_mono[of "ls_next_id s" _ "ls_next_id s + 1"] by (simp add: local_ok_def)
  show ?thesis
    unfolding local_schedule_def Let_def
    using grow local_ok_add[OF assms _ refl] assms by (simp split: sum.split option.split)
qed

lemma local_ok_fold_finish:
  "local_ok s \<Longrightarrow> local_ok (fold (\<lambda>(i, goal) s. case exec i goal of (started, out, finished) \<Rightarrow>
      local_finish i (finished_run i started finished out) s) due s)"
  by (induction due arbitrary: s) (auto simp: local_ok_finish split: prod.splits)

lemma local_ok_cancel: "local_ok s \<Longrightarrow> local_ok (snd (local_cancel i s))"
  by (simp add: local_ok_def local_cancel_def distinct_map_filter order_trans[OF length_filter_le])

lemma local_ok_tick: "local_ok s \<Longrightarrow> local_tick now exec s = Inr (s', n) \<Longrightarrow> local_ok s'"
  by (cases "local_claim_due now s") (auto simp: local_tick_def simp del: split_paired_All
      dest: local_ok_claim intro!: local_ok_fold_finish split: prod.splits)

lemma local_ok_call: "local_call_step c s = Inr s' \<Longrightarrow> local_ok s \<Longrightarrow> local_ok s'"
proof (induction c s rule: local_call_step.induct)
  case (1 now spec goal s)
  have "s' = snd (local_schedule now spec goal s)"
    using 1(1) by (auto split: prod.splits sum.splits job_fault.splits)
  then show ?case using local_ok_schedule 1 by simp
qed (auto simp: bindR_Inr local_ok_finish local_ok_cancel intro: local_ok_claim local_ok_tick)

lemma local_ok_new: "local_ok (with_max_jobs n (with_claim_ttl ms local_new))"
  by (simp add: local_ok_def with_max_jobs_def with_claim_ttl_def local_new_def)

lemma local_ok_reachable: "local_reachable s \<Longrightarrow> local_ok s"
  by (induction rule: local_reachable.induct) (auto intro: local_ok_new local_ok_call)

section \<open>No overlapping runs\<close>

inductive local_runs :: "(local_call \<Rightarrow> bool) \<Rightarrow> local_sched \<Rightarrow> local_sched \<Rightarrow> bool" for ok where
  lu_refl: "local_runs ok s s"
| lu_call: "local_runs ok s t \<Longrightarrow> ok c \<Longrightarrow> local_call_step c t = Inr u \<Longrightarrow> local_runs ok s u"

text \<open>The calls that neither end the run of \<open>i\<close> nor remove it, within \<open>ttl\<close> of its start at \<open>now\<close>.\<close>

fun leaves_running :: "rstr \<Rightarrow> nat \<Rightarrow> nat \<Rightarrow> local_call \<Rightarrow> bool" where
  "leaves_running i now ttl (LC_Schedule t spec goal) = True"
| "leaves_running i now ttl (LC_Claim t) = (now \<le> t \<and> t < now + ttl)"
| "leaves_running i now ttl (LC_Finish j started out finished) = (j \<noteq> i)"
| "leaves_running i now ttl (LC_Tick t exec) = (now \<le> t \<and> t < now + ttl)"
| "leaves_running i now ttl (LC_Cancel j) = (j \<noteq> i)"

definition running :: "rstr \<Rightarrow> nat \<Rightarrow> nat \<Rightarrow> local_sched \<Rightarrow> bool" where
  "running i now ttl s \<longleftrightarrow> local_ok s \<and> ls_ttl s = ttl \<and> (\<exists>js. map_of (ls_jobs s) i = Some js \<and> js_claimed js = Some now)"

lemma map_of_ticked: "map_of (map (\<lambda>(k, js). (k, f js)) xs) i = map_option f (map_of xs i)"
  by (induction xs) auto

lemma claim_due_ids:
  assumes "local_ok s" "local_claim_due now s = Inr (s', due)"
  shows "i \<in> fst ` set due \<longleftrightarrow>
    (\<exists>js. map_of (ls_jobs s) i = Some js \<and> due_now now js \<and> \<not> in_flight_at (ls_ttl s) now js)"
proof -
  have "distinct (map fst (ls_jobs s))" using assms(1) by (simp add: local_ok_def)
  then have "\<And>js. map_of (ls_jobs s) i = Some js \<longleftrightarrow> (i, js) \<in> set (ls_jobs s)" by simp
  then show ?thesis using claim_due_ticked[OF assms] by force
qed

lemma live_within: "now \<le> t \<Longrightarrow> t < now + ttl \<Longrightarrow> js_claimed js = Some now \<Longrightarrow> in_flight_at ttl t js"
  by (auto simp: in_flight_at_def claim_is_live_def)

lemma running_claim:
  assumes "running i now ttl s" "local_claim_due t s = Inr (s', due)" "now \<le> t" "t < now + ttl"
  shows "running i now ttl s' \<and> i \<notin> fst ` set due"
proof -
  have ok: "local_ok s" and ttl: "ls_ttl s = ttl" using assms(1) by (auto simp: running_def)
  obtain js where js: "map_of (ls_jobs s) i = Some js" "js_claimed js = Some now"
    using assms(1) by (auto simp: running_def)
  have fl: "in_flight_at ttl t js" using live_within assms(3,4) js(2) by blast
  have "map_of (ls_jobs s') i = Some (ticked ttl t js)" "ls_ttl s' = ttl"
    using claim_due_ticked[OF ok assms(2)] js ttl by (simp_all add: map_of_ticked)
  moreover have "js_claimed (ticked ttl t js) = Some now" using fl js by (simp add: ticked_def rearm_def)
  ultimately show ?thesis
    using claim_due_ids[OF ok assms(2), of i] local_ok_claim[OF ok assms(2)] fl js ttl by (simp add: running_def)
qed

lemma map_of_at: "map_of (map (\<lambda>(k, js). (k, if k = j then f js else js)) xs) i =
    (if i = j then map_option f (map_of xs i) else map_of xs i)"
  by (induction xs) auto

lemma running_finish: "running i now ttl s \<Longrightarrow> j \<noteq> i \<Longrightarrow> running i now ttl (local_finish j r s)"
  using local_ok_finish[of s j r] by (simp add: running_def local_finish_def map_of_at)

lemma running_fold_finish:
  "running i now ttl s \<Longrightarrow> i \<notin> fst ` set due \<Longrightarrow>
     running i now ttl (fold (\<lambda>(j, goal) s. case exec j goal of (started, out, finished) \<Rightarrow>
       local_finish j (finished_run j started finished out) s) due s)"
  by (induction due arbitrary: s) (auto simp: running_finish split: prod.splits)

lemma schedule_keeps:
  assumes "map_of (ls_jobs s) i = Some js"
  shows "map_of (ls_jobs (snd (local_schedule now spec goal s))) i = Some js
    \<and> ls_ttl (snd (local_schedule now spec goal s)) = ls_ttl s"
  using assms unfolding local_schedule_def Let_def
  by (simp add: map_add_Some_iff split: sum.split option.split)

lemma running_schedule: "running i now ttl s \<Longrightarrow> running i now ttl (snd (local_schedule t spec goal s))"
  using local_ok_schedule[of s t spec goal] schedule_keeps[of s i _ t spec goal]
  by (auto simp: running_def)

lemma map_of_without: "i \<noteq> j \<Longrightarrow> map_of (filter (\<lambda>e. fst e \<noteq> j) xs) i = map_of xs i"
  by (induction xs) auto

lemma running_cancel: "running i now ttl s \<Longrightarrow> j \<noteq> i \<Longrightarrow> running i now ttl (snd (local_cancel j s))"
  using local_ok_cancel[of s j] by (simp add: running_def local_cancel_def map_of_without)

lemma running_tick:
  assumes "running i now ttl s" "local_tick t exec s = Inr (s', n)" "now \<le> t" "t < now + ttl"
  shows "running i now ttl s'"
proof -
  obtain s1 due where "local_claim_due t s = Inr (s1, due)"
    "s' = fold (\<lambda>(j, goal) s. case exec j goal of (started, out, finished) \<Rightarrow>
       local_finish j (finished_run j started finished out) s) due s1"
    using assms(2) by (auto simp: local_tick_def bindR_Inr)
  then show ?thesis using running_fold_finish running_claim[OF assms(1) _ assms(3,4)] by blast
qed

lemma running_call:
  "local_call_step c s = Inr s' \<Longrightarrow> leaves_running i now ttl c \<Longrightarrow> running i now ttl s \<Longrightarrow> running i now ttl s'"
proof (induction c s rule: local_call_step.induct)
  case (1 t spec goal s)
  have "s' = snd (local_schedule t spec goal s)"
    using 1(1) by (auto split: prod.splits sum.splits job_fault.splits)
  then show ?case using running_schedule 1 by simp
next
  case (2 t s)
  then show ?case using running_claim[of i now ttl s t] by (auto simp: bindR_Inr)
next
  case (4 t exec s)
  then show ?case using running_tick[of i now ttl s t exec] by (auto simp: bindR_Inr)
qed (auto simp: running_finish running_cancel)

lemma running_runs:
  "local_runs (leaves_running i now ttl) s t \<Longrightarrow> running i now ttl s \<Longrightarrow> running i now ttl t"
  by (induction rule: local_runs.induct) (auto intro: running_call)

lemma running_start:
  assumes "local_ok s" "local_claim_due now s = Inr (s', due)" "i \<in> fst ` set due"
  shows "running i now (ls_ttl s) s'"
proof -
  obtain js where js: "map_of (ls_jobs s) i = Some js" "due_now now js" "\<not> in_flight_at (ls_ttl s) now js"
    using claim_due_ids[OF assms(1,2)] assms(3) by blast
  have "map_of (ls_jobs s') i = Some (ticked (ls_ttl s) now js)" "ls_ttl s' = ls_ttl s"
    using claim_due_ticked[OF assms(1,2)] js by (simp_all add: map_of_ticked)
  then show ?thesis using js local_ok_claim[OF assms(1,2)] by (simp add: running_def ticked_def rearm_def)
qed

lemma overlap_recorded:
  assumes "running i now ttl s" "local_claim_due t s = Inr (s', due)" "now \<le> t" "t < now + ttl"
    and "map_of (ls_jobs s) i = Some js" "due_now t js"
  shows "\<exists>js'. map_of (ls_jobs s') i = Some js' \<and> last (js_history js') = skipped_run i t"
proof -
  have ok: "local_ok s" and js: "js_claimed js = Some now" and ttl: "ls_ttl s = ttl"
    using assms(1,5) by (auto simp: running_def)
  have "entry_ok (ls_next_id s) (i, js)" using ok map_of_SomeD[OF assms(5)] by (auto simp: local_ok_def)
  then have id: "jb_id (js_job js) = i" by (simp add: entry_ok_def)
  have "map_of (ls_jobs s') i = Some (ticked ttl t js)"
    using claim_due_ticked[OF ok assms(2)] assms(5) ttl by (simp add: map_of_ticked)
  then show ?thesis
    using live_within[OF assms(3,4) js] assms(6) id by (simp add: ticked_def push_history_last)
qed

section \<open>Properties\<close>

text \<open>
  Property C30. Whatever calls the in-process scheduler has taken, in any order and with any clocks:
  every job sits under its own id, ids are distinct and were handed out below the id counter, the job
  limit and the history limit hold, and the claim lifetime is positive.
\<close>

theorem local_state_ok:
  assumes "local_reachable s"
  shows "local_ok s"
  using assms by (rule local_ok_reachable)

text \<open>
  A tick claims exactly the jobs that are enabled, due and not in flight, each once; those
  due and in flight are skipped with a record; the others are untouched; and nothing is due any more
  at that instant.
\<close>

theorem tick_claims_exactly:
  assumes "local_reachable s" "local_claim_due now s = Inr (s', due)"
  shows "ls_jobs s' = map (\<lambda>(k, js). (k, ticked (ls_ttl s) now js)) (ls_jobs s)
    \<and> due = map (\<lambda>(k, js). (k, jb_goal (js_job js)))
        (filter (\<lambda>(k, js). due_now now js \<and> \<not> in_flight_at (ls_ttl s) now js) (ls_jobs s))
    \<and> distinct (map fst due)
    \<and> (now < u64_max \<longrightarrow> (\<forall>e \<in> set (ls_jobs s'). \<not> due_now now (snd e)))"
proof -
  have ok: "local_ok s" using assms(1) by (rule local_ok_reachable)
  note eff = claim_due_ticked[OF ok assms(2)]
  have "distinct (map fst (ls_jobs s))" using ok by (simp add: local_ok_def)
  then have "distinct (map fst due)"
    using eff by (simp add: comp_def case_prod_beta distinct_map_filter)
  moreover have "\<not> due_now now (ticked (ls_ttl s) now js)" if "now < u64_max" for js
    using next_fire_later[OF _ that, of "jb_schedule (js_job js)"]
    by (auto simp: ticked_def due_now_def rearm_def split: sum.splits dest: leD)
  ultimately show ?thesis using eff by auto
qed

text \<open>
  Property C14. While a claimed run has neither ended nor outlived its claim, no later tick starts the
  same job again, whatever other calls come in between; a fire it misses is recorded as skipped.
\<close>

theorem run_never_overlaps:
  assumes "local_reachable s" "local_claim_due now s = Inr (s1, due)" "i \<in> fst ` set due"
    and "local_runs (leaves_running i now (ls_ttl s)) s1 s2"
    and "local_claim_due t s2 = Inr (s3, due')" "now \<le> t" "t < now + ls_ttl s"
  shows "i \<notin> fst ` set due'
    \<and> (\<exists>js js'. map_of (ls_jobs s2) i = Some js \<and> map_of (ls_jobs s3) i = Some js'
         \<and> (due_now t js \<longrightarrow> last (js_history js') = skipped_run i t))"
proof -
  have run: "running i now (ls_ttl s) s2"
    using running_runs[OF assms(4)] running_start[OF local_ok_reachable[OF assms(1)] assms(2,3)] by blast
  then obtain js where js: "map_of (ls_jobs s2) i = Some js" by (auto simp: running_def)
  obtain js' where "map_of (ls_jobs s3) i = Some js'"
    using running_claim[OF run assms(5-7)] by (auto simp: running_def)
  then show ?thesis
    using running_claim[OF run assms(5-7)] overlap_recorded[OF run assms(5-7) js] js by auto
qed

section \<open>A run\<close>

text \<open>A job every two seconds, claimed at 2000 with a lifetime of five; it is due again at 4000.\<close>

definition demo_sched :: "nat \<Rightarrow> nat option \<Rightarrow> job_run list \<Rightarrow> local_sched" where
  "demo_sched n c h = \<lparr>ls_jobs = [(''job-1'', \<lparr>js_job = \<lparr>jb_id = ''job-1'', jb_spec = ''every 2s'',
     jb_schedule = Sched_Interval 2, jb_goal = ''g'', jb_next = Some n, jb_enabled = True\<rparr>,
     js_claimed = c, js_history = h\<rparr>)], ls_next_id = 2, ls_ttl = 5000, ls_max_jobs = 5\<rparr>"

lemma demo_parse: "sched_parse ''every 2s'' 0 = Inr (Sched_Interval 2)" "str_trim ''g'' = ''g''"
    "str_trim ''every 2s'' = ''every 2s''" "show_nat (Suc 0) = ''1''"
  by code_simp+

lemma demo_next: "next_fire (Sched_Interval 2) 0 = Inr (Some 2000)" "next_fire (Sched_Interval 2) 2000 = Inr (Some 4000)"
    "next_fire (Sched_Interval 2) 4000 = Inr (Some 6000)"
  by (simp_all add: next_fire_def sat_add64_def sat_mul64_def u64_max_def)

lemma demo_reachable: "local_reachable (demo_sched 2000 None [])"
proof -
  have "local_call_step (LC_Schedule 0 ''every 2s'' ''g'') (with_max_jobs 5 (with_claim_ttl 5000 local_new))
      = Inr (demo_sched 2000 None [])"
    by (simp add: local_schedule_def demo_sched_def demo_parse demo_next with_max_jobs_def with_claim_ttl_def
        local_new_def default_claim_ttl_ms_def Let_def)
  then show ?thesis by (rule lr_call[OF lr_new])
qed

lemma demo_claim: "local_claim_due 2000 (demo_sched 2000 None []) = Inr (demo_sched 4000 (Some 2000) [], [(''job-1'', ''g'')])"
  by (simp add: local_claim_due_def demo_sched_def claim_one_job_def claim_is_live_def demo_next)

lemma demo_skip: "local_claim_due 4000 (demo_sched 4000 (Some 2000) []) =
    Inr (demo_sched 6000 (Some 2000) [skipped_run ''job-1'' 4000], [])"
  by (simp add: local_claim_due_def demo_sched_def claim_one_job_def claim_is_live_def demo_next
      push_skipped_def push_history_def max_history_def skipped_run_def)

theorem local_state_ok_witness: "local_ok (demo_sched 2000 None [])"
  using local_state_ok[OF demo_reachable] .

theorem tick_claims_exactly_witness:
  "distinct (map fst [(''job-1'', ''g'')]) \<and> \<not> due_now 2000 (snd (hd (ls_jobs (demo_sched 4000 (Some 2000) []))))"
  using conjunct2[OF conjunct2[OF tick_claims_exactly[OF demo_reachable demo_claim]]]
  by (auto simp: u64_max_def demo_sched_def)

theorem run_never_overlaps_witness:
  "''job-1'' \<notin> fst ` set ([] :: (rstr \<times> rstr) list)
    \<and> due_now 4000 (snd (hd (ls_jobs (demo_sched 4000 (Some 2000) []))))
    \<and> last (js_history (snd (hd (ls_jobs (demo_sched 6000 (Some 2000) [skipped_run ''job-1'' 4000]))))) = skipped_run ''job-1'' 4000"
  using run_never_overlaps[OF demo_reachable demo_claim _ lu_refl demo_skip, of "''job-1''"]
  by (simp add: demo_sched_def due_now_def)

end
