(* ===== verification/Jobs_Refine.thy ===== *)
theory Jobs_Refine
  imports Jobs_Local
begin

text \<open>
  The durable scheduler as the port of the in-process one: alone on a store that answers, one tick
  claims the same jobs in the same order and leaves the same job states.
\<close>

section \<open>Cards as job states\<close>

definition state_of :: "stored_job \<Rightarrow> job_state" where
  "state_of sj = \<lparr>js_job = sj_job sj, js_claimed = sj_claimed_at sj, js_history = sj_history sj\<rparr>"

abbreviation card_id :: "stored_job \<times> rstr \<Rightarrow> rstr" where
  "card_id e \<equiv> jb_id (sj_job (fst e))"

definition local_view :: "(stored_job \<times> rstr) list \<Rightarrow> (rstr \<times> job_state) list" where
  "local_view es = map (\<lambda>e. (card_id e, state_of (fst e))) es"

text \<open>Every card of the collection is a readable job under its own, path-safe id.\<close>

definition job_cards :: "job_codec \<Rightarrow> rstr \<Rightarrow> (card_key \<Rightarrow> rstr option) \<Rightarrow> bool" where
  "job_cards co tn look \<longleftrightarrow> (\<forall>i b. look (sched_collection, tn, i) = Some b \<longrightarrow>
     safe_segment i \<and> (\<exists>sj. decode_job co b = Inr sj \<and> jb_id (sj_job sj) = i))"

text \<open>The codec can write the cards this tick needs.\<close>

definition encodes :: "job_codec \<Rightarrow> stored_job \<Rightarrow> bool" where
  "encodes co sj \<longleftrightarrow> (\<exists>b. jc_encode co sj = Inr b \<and> b \<noteq> [])"

definition tick_encodes :: "job_codec \<Rightarrow> store_sched \<Rightarrow> nat \<Rightarrow> (stored_job \<times> rstr) list \<Rightarrow> bool" where
  "tick_encodes co d now es \<longleftrightarrow> (\<forall>e \<in> set es.
     case plan_claim d now (fst e) of
       Inr (CP_Skip sj r) \<Rightarrow> encodes co sj | Inr (CP_Claim sj n) \<Rightarrow> encodes co sj | _ \<Rightarrow> True)"

text \<open>An entry as the store has it; the card of an entry after the tick.\<close>

definition loaded :: "job_codec \<Rightarrow> store_sched \<Rightarrow> (card_key \<Rightarrow> rstr option) \<Rightarrow> stored_job \<times> rstr \<Rightarrow> bool" where
  "loaded co d look e \<longleftrightarrow> safe_segment (card_id e) \<and> decode_job co (snd e) = Inr (fst e)
     \<and> look (sched_collection, ss_tenant d, card_id e) = Some (snd e)"

definition became :: "job_codec \<Rightarrow> store_sched \<Rightarrow> nat \<Rightarrow> (card_key \<Rightarrow> rstr option) \<Rightarrow> stored_job \<times> rstr \<Rightarrow> bool" where
  "became co d now look e \<longleftrightarrow> (\<exists>b sj. look (sched_collection, ss_tenant d, card_id e) = Some b \<and> decode_job co b = Inr sj
     \<and> jb_id (sj_job sj) = card_id e \<and> state_of sj = ticked (ss_ttl d) now (state_of (fst e)))"

lemma plan_claim_local:
  assumes "claim_one_job (ss_ttl d) now (state_of sj) = Inr (js', out)"
  shows "case plan_claim d now sj of
       Inl p \<Rightarrow> False
     | Inr CP_Pass \<Rightarrow> out = CO_Pass \<and> ticked (ss_ttl d) now (state_of sj) = state_of sj
     | Inr (CP_Skip sj' r) \<Rightarrow> out = CO_Skip \<and> ticked (ss_ttl d) now (state_of sj) = state_of sj' \<and> jb_id (sj_job sj') = jb_id (sj_job sj)
     | Inr (CP_Claim sj' n) \<Rightarrow> out = CO_Due \<and> ticked (ss_ttl d) now (state_of sj) = state_of sj'
         \<and> jb_id (sj_job sj') = jb_id (sj_job sj) \<and> jb_goal (sj_job sj') = jb_goal (sj_job sj)"
  using assms
  by (auto simp: claim_one_job_def plan_claim_def ticked_def due_now_def in_flight_at_def rearm_def state_of_def bindR_Inr Let_def
      split: if_splits option.splits)

section \<open>One tick alone\<close>

context config_backend begin

lemma cas_commits:
  assumes "inv s" "healthy x" "safe_segment t" "safe_segment i" "b \<noteq> []" "cards s (c, t, i) = Some old"
  shows "\<exists>s'. commit x s [W_Ensure t, W_Cas c t i (Some old) b] = Inr s' \<and> inv s'
    \<and> cards s' = (cards s)((c, t, i) \<mapsto> b) \<and> map fst (sp_rows (spec s')) = map fst (sp_rows (spec s))"
proof -
  have "\<exists>p. spec_apply (spec s) [W_Ensure t, W_Cas c t i (Some old) b] = Inr p"
    using assms by (simp add: spec_apply_def check_target_def seg_def)
  then obtain s' where s': "commit x s [W_Ensure t, W_Cas c t i (Some old) b] = Inr s'"
    using apply_healthy[OF assms(1) _ assms(2), of "[W_Ensure t, W_Cas c t i (Some old) b]"] by auto
  have "sp_rows (spec s') = row_put (c, t, i) b (sp_rows (spec s))"
    using apply_ok[OF assms(1) _ s'] by (auto simp: spec_apply_def bindR_Inr split: if_splits dest!: arg_cong[where f = sp_rows])
  moreover have "(c, t, i) \<in> fst ` set (sp_rows (spec s))" using map_of_SomeD[OF assms(6)] by force
  ultimately have "map fst (sp_rows (spec s')) = map fst (sp_rows (spec s))"
    by (simp add: row_put_def comp_def case_prod_beta)
  then show ?thesis using s' cas_effect[OF assms(1) s'] by blast
qed

lemma cas_card:
  assumes "inv s" "healthy x" "codec_ok co" "safe_segment (ss_tenant d)" "safe_segment (jb_id (sj_job sj))"
    and "cards s (sched_collection, ss_tenant d, jb_id (sj_job sj)) = Some old" "encodes co sj"
  shows "\<exists>s' b. cas_apply co (commit x s) d sj old = Inr s' \<and> inv s' \<and> decode_job co b = Inr sj
    \<and> cards s' = (cards s)((sched_collection, ss_tenant d, jb_id (sj_job sj)) \<mapsto> b)
    \<and> map fst (sp_rows (spec s')) = map fst (sp_rows (spec s))"
proof -
  obtain b where b: "encode_job co sj = Inr b" "b \<noteq> []" using assms(7) by (auto simp: encodes_def encode_job_def)
  have "cas_apply co (commit x s) d sj old
      = commit x s [W_Ensure (ss_tenant d), W_Cas sched_collection (ss_tenant d) (jb_id (sj_job sj)) (Some old) b]"
    by (simp add: cas_apply_def b job_cas_writes_def)
  then show ?thesis
    using cas_commits[OF assms(1,2,4,5) b(2) assms(6)] codec_okD[OF assms(3) b(1)] by auto
qed

lemma claim_step_local:
  assumes "inv s" "healthy x" "codec_ok co" "safe_segment (ss_tenant d)" "safe_segment (card_id e)"
    and "cards s (sched_collection, ss_tenant d, card_id e) = Some (snd e)" "decode_job co (snd e) = Inr (fst e)"
    and "tick_encodes co d now [e]" "claim_one_job (ss_ttl d) now (state_of (fst e)) = Inr (js', out)"
  shows "\<exists>r s' b sj. claim_step co (commit x s) d now e s = (Inr r, s') \<and> inv s'
    \<and> decode_job co b = Inr sj \<and> jb_id (sj_job sj) = card_id e \<and> state_of sj = ticked (ss_ttl d) now (state_of (fst e))
    \<and> cards s' = (cards s)((sched_collection, ss_tenant d, card_id e) \<mapsto> b)
    \<and> map fst (sp_rows (spec s')) = map fst (sp_rows (spec s))
    \<and> (case r of CS_Won i g n \<Rightarrow> out = CO_Due \<and> i = card_id e \<and> g = jb_goal (sj_job (fst e)) | _ \<Rightarrow> out \<noteq> CO_Due)"
proof -
  note plan = plan_claim_local[OF assms(9)]
  show ?thesis
  proof (cases "plan_claim d now (fst e)")
    case (Inr p)
    show ?thesis
    proof (cases p)
      case CP_Pass
      have "cards s = (cards s)((sched_collection, ss_tenant d, card_id e) \<mapsto> snd e)"
        using assms(6) by (simp add: fun_upd_idem)
      then show ?thesis using plan Inr CP_Pass assms(1,7) unfolding claim_step_def by auto
    next
      case (CP_Skip sj' h)
      then have "jb_id (sj_job sj') = card_id e" "encodes co sj'" using plan Inr assms(8) by (simp_all add: tick_encodes_def)
      with cas_card[OF assms(1-4), of sj' "snd e"] assms(5,6) obtain s' b where
        "cas_apply co (commit x s) d sj' (snd e) = Inr s'" "inv s'" "decode_job co b = Inr sj'"
        "cards s' = (cards s)((sched_collection, ss_tenant d, card_id e) \<mapsto> b)"
        "map fst (sp_rows (spec s')) = map fst (sp_rows (spec s))" by auto
      then show ?thesis using plan Inr CP_Skip by (auto simp: claim_step_def)
    next
      case (CP_Claim sj' n)
      then have "jb_id (sj_job sj') = card_id e" "encodes co sj'" using plan Inr assms(8) by (simp_all add: tick_encodes_def)
      with cas_card[OF assms(1-4), of sj' "snd e"] assms(5,6) obtain s' b where
        "cas_apply co (commit x s) d sj' (snd e) = Inr s'" "inv s'" "decode_job co b = Inr sj'"
        "cards s' = (cards s)((sched_collection, ss_tenant d, card_id e) \<mapsto> b)"
        "map fst (sp_rows (spec s')) = map fst (sp_rows (spec s))" by auto
      then show ?thesis using plan Inr CP_Claim by (auto simp: claim_step_def)
    qed
  qed (use plan in simp)
qed

lemma claim_loop_local:
  assumes "codec_ok co" "safe_segment (ss_tenant d)"
  shows "inv s \<Longrightarrow> \<forall>n. healthy (xs n) \<Longrightarrow> distinct (map card_id es) \<Longrightarrow> \<forall>e \<in> set es. loaded co d (cards s) e \<Longrightarrow>
    tick_encodes co d now es \<Longrightarrow> claim_all (ss_ttl d) now (local_view es) = Inr (jobs', due, sk) \<Longrightarrow>
    \<exists>s'. claim_loop co commit d now es xs s = (Inr due, s') \<and> inv s'
      \<and> map fst (sp_rows (spec s')) = map fst (sp_rows (spec s))
      \<and> (\<forall>i. i \<notin> card_id ` set es \<longrightarrow> cards s' (sched_collection, ss_tenant d, i) = cards s (sched_collection, ss_tenant d, i))
      \<and> (\<forall>e \<in> set es. became co d now (cards s') e)"
proof (induction es arbitrary: s xs jobs' due sk)
  case (Cons e es)
  obtain js' out jobs1 due1 sk1 where one: "claim_one_job (ss_ttl d) now (state_of (fst e)) = Inr (js', out)"
    and rest: "claim_all (ss_ttl d) now (local_view es) = Inr (jobs1, due1, sk1)"
    and due: "due = (if out = CO_Due then (card_id e, jb_goal (sj_job (fst e))) # due1 else due1)"
    using Cons.prems(6) by (auto simp: local_view_def bindR_Inr state_of_def)
  have e: "safe_segment (card_id e)" "cards s (sched_collection, ss_tenant d, card_id e) = Some (snd e)"
    "decode_job co (snd e) = Inr (fst e)"
    using Cons.prems(4) by (simp_all add: loaded_def)
  have enc: "tick_encodes co d now [e]" "tick_encodes co d now es" using Cons.prems(5) by (simp_all add: tick_encodes_def)
  have new: "card_id e \<notin> card_id ` set es" using Cons.prems(3) by simp
  have other: "card_id e' \<noteq> card_id e" if "e' \<in> set es" for e'
    using imageI[OF that, of "\<lambda>e. card_id e"] new by metis
  obtain r t b sj where step: "claim_step co (commit (xs 0) s) d now e s = (Inr r, t)" "inv t" "decode_job co b = Inr sj"
    "jb_id (sj_job sj) = card_id e" "state_of sj = ticked (ss_ttl d) now (state_of (fst e))"
    "cards t = (cards s)((sched_collection, ss_tenant d, card_id e) \<mapsto> b)"
    "map fst (sp_rows (spec t)) = map fst (sp_rows (spec s))"
    "case r of CS_Won i g n \<Rightarrow> out = CO_Due \<and> i = card_id e \<and> g = jb_goal (sj_job (fst e)) | _ \<Rightarrow> out \<noteq> CO_Due"
    using claim_step_local[OF Cons.prems(1) _ assms e(1,2,3) enc(1) one, of "xs 0"] Cons.prems(2) by blast
  have "\<forall>e' \<in> set es. loaded co d (cards t) e'"
    using Cons.prems(4) other step(6) by (fastforce simp: loaded_def)
  then obtain s' where s': "claim_loop co commit d now es (\<lambda>n. xs (Suc n)) t = (Inr due1, s')" "inv s'"
    "map fst (sp_rows (spec s')) = map fst (sp_rows (spec t))"
    "\<And>i. i \<notin> card_id ` set es \<Longrightarrow> cards s' (sched_collection, ss_tenant d, i) = cards t (sched_collection, ss_tenant d, i)"
    "\<forall>e \<in> set es. became co d now (cards s') e"
    using Cons.IH[OF step(2) _ _ _ enc(2) rest, of "\<lambda>n. xs (Suc n)"] Cons.prems(2,3) by auto
  have "became co d now (cards s') e" using s'(4)[OF new] step(3-6) by (auto simp: became_def)
  moreover have "claim_loop co commit d now (e # es) xs s = (Inr due, s')"
    using step(1,8) s'(1) due by (cases r) simp_all
  ultimately show ?case using s' step(6,7) by auto
qed (simp add: local_view_def)

end

text \<open>Loading a listing, and loading it again after its cards changed.\<close>

lemma decode_all_keys:
  "decode_all co (map snd F) = Inr es \<Longrightarrow> \<forall>e \<in> set F. \<exists>sj. decode_job co (snd e) = Inr sj \<and> fst e = (c, t, jb_id (sj_job sj)) \<Longrightarrow>
     F = map (\<lambda>e. ((c, t, card_id e), snd e)) es"
proof (induction F arbitrary: es)
  case (Cons e F)
  then obtain sj es' where "decode_job co (snd e) = Inr sj" "decode_all co (map snd F) = Inr es'" "es = (sj, snd e) # es'"
    by (auto simp: bindR_Inr)
  then show ?case using Cons.IH[of es'] Cons.prems(2) by (cases e) auto
qed simp

lemma decode_all_view:
  "\<forall>e \<in> set es. \<exists>sj. decode_job co (h e) = Inr sj \<and> jb_id (sj_job sj) = card_id e \<and> state_of sj = f e \<Longrightarrow>
     \<exists>es'. decode_all co (map h es) = Inr es' \<and> local_view es' = map (\<lambda>e. (card_id e, f e)) es"
proof (induction es)
  case (Cons e es)
  then obtain es' where "decode_all co (map h es) = Inr es'" "local_view es' = map (\<lambda>e. (card_id e, f e)) es" by auto
  moreover obtain sj where "decode_job co (h e) = Inr sj" "jb_id (sj_job sj) = card_id e" "state_of sj = f e"
    using Cons.prems by auto
  ultimately show ?case by (simp add: local_view_def)
qed (simp add: local_view_def)

lemma keyed_rows: "distinct (map fst rows) \<Longrightarrow> set F \<subseteq> set rows \<Longrightarrow> F = map (\<lambda>k. (k, the (map_of rows k))) (map fst F)"
proof (induction F)
  case (Cons e F)
  then have "map_of rows (fst e) = Some (snd e)" by simp
  then have "the (map_of rows (fst e)) = snd e" by (simp only: option.sel)
  then have "e = (fst e, the (map_of rows (fst e)))" by simp
  moreover have "F = map (\<lambda>k. (k, the (map_of rows k))) (map fst F)" using Cons by simp
  ultimately show ?case by (simp only: list.map)
qed simp

context config_backend begin

lemma load_healthy:
  assumes "inv s" "healthy x"
  shows "load_raw co (listing x s) d =
    decode_all co (map snd (filter (\<lambda>e. in_scope sched_collection (ss_tenant d) (fst e)) (sp_rows (spec s))))"
proof -
  obtain bs where "listing x s sched_collection (ss_tenant d) = Inr bs" using reads_healthy[OF assms] by blast
  then show ?thesis using rows_ok[OF assms(1)] by (simp add: load_raw_def spec_list_def)
qed

lemma tick_local:
  assumes "codec_ok co" "safe_segment (ss_tenant d)" "inv s" "\<forall>n. healthy (xs n)" "distinct (map fst (sp_rows (spec s)))"
    and "job_cards co (ss_tenant d) (cards s)" "load_raw co (listing (xs 0) s) d = Inr es" "tick_encodes co d now es"
    and "local_claim_due now l = Inr (l', due)" "ls_jobs l = local_view es" "ls_ttl l = ss_ttl d"
  shows "\<exists>s' es'. store_claim_due co commit listing d now xs s = (Inr due, s')
    \<and> (\<forall>y. healthy y \<longrightarrow> load_raw co (listing y s') d = Inr es') \<and> local_view es' = ls_jobs l'"
proof -
  define sc where "sc = in_scope sched_collection (ss_tenant d)"
  define F where "F = filter (\<lambda>e. sc (fst e)) (sp_rows (spec s))"
  define key where "key = (\<lambda>e. (sched_collection, ss_tenant d, card_id e))"
  have es: "decode_all co (map snd F) = Inr es"
    using assms(7) load_healthy[OF assms(3)] assms(4) by (simp add: F_def sc_def)
  have F: "F = map (\<lambda>e. (key e, snd e)) es"
    unfolding key_def
  proof (rule decode_all_keys[OF es], rule ballI)
    fix e assume "e \<in> set F"
    then have "map_of (sp_rows (spec s)) (fst e) = Some (snd e)" "sc (fst e)" using assms(5) by (auto simp: F_def)
    then show "\<exists>sj. decode_job co (snd e) = Inr sj \<and> fst e = (sched_collection, ss_tenant d, jb_id (sj_job sj))"
      using assms(6) by (cases e) (auto simp: job_cards_def sc_def in_scope_def)
  qed
  have "distinct (map fst F)" using assms(5) by (simp add: F_def distinct_map_filter)
  then have dist: "distinct (map card_id es)" by (auto simp: F key_def distinct_map inj_on_def comp_def)
  have load: "\<forall>e \<in> set es. loaded co d (cards s) e"
  proof
    fix e assume e: "e \<in> set es"
    then have "(key e, snd e) \<in> set F" by (simp add: F)
    then have "(key e, snd e) \<in> set (sp_rows (spec s))" by (simp add: F_def)
    then have "cards s (key e) = Some (snd e)" using assms(5) by simp
    then show "loaded co d (cards s) e"
      using assms(6) decode_all_entries[OF es e] by (simp add: loaded_def job_cards_def key_def)
  qed
  obtain jobs' sk where claim: "claim_all (ss_ttl d) now (local_view es) = Inr (jobs', due, sk)"
    and l': "ls_jobs l' = fold push_skipped sk jobs'"
    using assms(9-11) by (auto simp: local_claim_due_def bindR_Inr)
  have view: "ls_jobs l' = map (\<lambda>e. (card_id e, ticked (ss_ttl d) now (state_of (fst e)))) es"
    using claim_all_ticked[OF claim] dist l' by (simp add: local_view_def comp_def case_prod_beta state_of_def)
  have "\<forall>n. healthy (xs (Suc n))" using assms(4) by blast
  then obtain s' where s': "claim_loop co commit d now es (\<lambda>n. xs (Suc n)) s = (Inr due, s')" "inv s'"
    "map fst (sp_rows (spec s')) = map fst (sp_rows (spec s))" "\<forall>e \<in> set es. became co d now (cards s') e"
    using claim_loop_local[OF assms(1,2,3) _ dist load assms(8) claim, of "\<lambda>n. xs (Suc n)"] by blast
  define F' where "F' = filter (\<lambda>e. sc (fst e)) (sp_rows (spec s'))"
  have "map fst F' = map fst F"
    using arg_cong[OF s'(3), of "filter sc"] by (simp add: F_def F'_def filter_map comp_def)
  then have "map fst F' = map key es" by (simp add: F comp_def)
  moreover have "F' = map (\<lambda>k. (k, the (cards s' k))) (map fst F')"
    using keyed_rows[of "sp_rows (spec s')" F'] assms(5) s'(3) by (simp add: F'_def)
  ultimately have F': "map snd F' = map (\<lambda>e. the (cards s' (key e))) es" by (simp add: comp_def)
  have "\<forall>e \<in> set es. \<exists>sj. decode_job co (the (cards s' (key e))) = Inr sj \<and> jb_id (sj_job sj) = card_id e
      \<and> state_of sj = ticked (ss_ttl d) now (state_of (fst e))"
    using s'(4) by (force simp: became_def key_def)
  from decode_all_view[OF this] obtain es' where "decode_all co (map snd F') = Inr es'" "local_view es' = ls_jobs l'"
    unfolding F' view by blast
  moreover have "store_claim_due co commit listing d now xs s = (Inr due, s')"
    using s'(1) assms(7) by (simp add: store_claim_due_def)
  ultimately show ?thesis using load_healthy[OF s'(2)] by (auto simp: F'_def sc_def)
qed

end

section \<open>The port\<close>

text \<open>
  Property C15. The durable scheduler refines the in-process one: alone on a SQLite store that answers,
  whatever jobs the tenant has, a tick claims the same jobs in the same order as the in-process tick
  from the same job states, and the jobs loaded afterwards are in the states the in-process tick leaves.
\<close>

theorem durable_tick_like_local:
  assumes "codec_ok co" "safe_segment (ss_tenant d)" "sql_inv q" "job_cards co (ss_tenant d) (rows_get (sq_cards q))"
    and "load_raw co (sql_list None q) d = Inr es" "tick_encodes co d now es"
    and "local_claim_due now l = Inr (l', due)" "ls_jobs l = local_view es" "ls_ttl l = ss_ttl d"
  shows "\<exists>q' es'. store_claim_due co sql_apply sql_list d now (\<lambda>_. None) q = (Inr due, q')
    \<and> load_raw co (sql_list None q') d = Inr es' \<and> local_view es' = ls_jobs l'"
proof -
  have "job_cards co (ss_tenant d) (map_of (sp_rows (sql_spec q)))"
    using assms(4) by (simp add: sql_spec_def job_cards_def rows_get_spec)
  moreover have "distinct (map fst (sp_rows (sql_spec q)))"
    using assms(3) by (simp add: sql_inv_def rows_inv_def sql_spec_def rows_spec_def comp_def)
  ultimately show ?thesis
    using sql.tick_local[OF assms(1-3), of "\<lambda>_. None" es now l l' due] assms(5-9) by blast
qed

section \<open>A run\<close>

definition race_sql :: sql_store where
  "race_sql = \<lparr>sq_tenants = {''t''}, sq_cards = [\<lparr>cr_collection = ''scheduler'', cr_tenant = ''t'', cr_id = ''job-1'', cr_pos = 0, cr_blob = ''A''\<rparr>]\<rparr>"

definition race_local :: "nat option \<Rightarrow> nat option \<Rightarrow> local_sched" where
  "race_local n c = \<lparr>ls_jobs = [(''job-1'', state_of (race_card n c None))], ls_next_id = 2, ls_ttl = 10, ls_max_jobs = 2\<rparr>"

lemma race_sql_load: "load_raw race_codec (sql_list None race_sql) race_sched = Inr [(race_card (Some 5) None None, ''A'')]"
  by code_simp

lemma race_tick: "local_claim_due 5 (race_local (Some 5) None) = Inr (race_local None (Some 5), [(''job-1'', ''g'')])"
  by code_simp

lemma race_sql_cards: "job_cards race_codec ''t'' (rows_get (sq_cards race_sql))"
proof -
  have "safe_segment ''job-1''" "decode_job race_codec ''A'' = Inr (race_card (Some 5) None None)"
    "jb_id (sj_job (race_card (Some 5) None None)) = ''job-1''" by code_simp+
  then show ?thesis
    by (auto simp: job_cards_def race_sql_def rows_get_def card_row_key_def split: if_splits)
qed

lemma race_encodes: "tick_encodes race_codec race_sched 5 [(race_card (Some 5) None None, ''A'')]"
proof -
  have "plan_claim race_sched 5 (race_card (Some 5) None None) = Inr (CP_Claim (race_card None (Some 5) (Some ''o'')) 5)"
    "jc_encode race_codec (race_card None (Some 5) (Some ''o'')) = Inr ''B''" by code_simp+
  then show ?thesis by (simp add: tick_encodes_def encodes_def)
qed

theorem durable_tick_like_local_witness:
  "\<exists>q' es'. store_claim_due race_codec sql_apply sql_list race_sched 5 (\<lambda>_. None) race_sql = (Inr [(''job-1'', ''g'')], q')
    \<and> load_raw race_codec (sql_list None q') race_sched = Inr es' \<and> local_view es' = ls_jobs (race_local None (Some 5))"
proof -
  have "safe_segment (ss_tenant race_sched)" by code_simp
  moreover have "sql_inv race_sql" by (simp add: sql_inv_def rows_inv_def race_sql_def)
  ultimately show ?thesis
    using durable_tick_like_local[OF race_codec_ok _ _ _ race_sql_load race_encodes race_tick] race_sql_cards
    by (simp add: race_sched_def race_local_def local_view_def race_card_def)
qed

end
