(* ===== verification/Jobs_Driver.thy ===== *)
theory Jobs_Driver
  imports Jobs_Refine
begin

text \<open>
  The multi-tenant driver (\<open>agent-runtime/src/scheduler_driver.rs\<close>): which tenants a tick visits, in
  which order their claimed jobs are dispatched, and two ways a tick of the durable scheduler loses
  a run. The semaphores that bound how many dispatched jobs run at once are not modelled.
\<close>

section \<open>One tick\<close>

record store_driver =
  dr_per_tenant :: bool
  dr_ttl :: nat
  dr_max_jobs :: nat
  dr_cursor :: nat

definition store_with_claim_ttl :: "nat \<Rightarrow> store_sched \<Rightarrow> store_sched" where
  "store_with_claim_ttl ms d = d\<lparr>ss_ttl := max ms 1\<rparr>"

definition store_with_max_jobs :: "nat \<Rightarrow> store_sched \<Rightarrow> store_sched" where
  "store_with_max_jobs n d = d\<lparr>ss_max_jobs := max n 1\<rparr>"

text \<open>\<open>owner\<close> is the fresh token of the scheduler built for this tick.\<close>

definition scheduler_for :: "store_driver \<Rightarrow> rstr \<Rightarrow> rstr \<Rightarrow> store_sched option" where
  "scheduler_for dr tenant owner =
     (case sched_with_tenant tenant owner of
        Inl _ \<Rightarrow> None
      | Inr d \<Rightarrow> Some (store_with_max_jobs (dr_max_jobs dr) (store_with_claim_ttl (dr_ttl dr) d)))"

definition driver_tenants :: "store_driver \<Rightarrow> cs_error + rstr list \<Rightarrow> rstr list" where
  "driver_tenants dr listed =
     (if \<not> dr_per_tenant dr then [sched_default_tenant]
      else (case listed of Inr ts \<Rightarrow> ts | Inl _ \<Rightarrow> []))"

text \<open>The claims, tenant by tenant; a tenant whose claim fails is left out. \<open>envs\<close> gives each tenant's calls their environments.\<close>

fun driver_claims :: "job_codec \<Rightarrow> ('x \<Rightarrow> 's \<Rightarrow> cs_write list \<Rightarrow> cs_error + 's) \<Rightarrow> ('x \<Rightarrow> 's \<Rightarrow> rstr \<Rightarrow> rstr \<Rightarrow> cs_error + rstr list) \<Rightarrow>
    store_driver \<Rightarrow> nat \<Rightarrow> (rstr \<Rightarrow> rstr) \<Rightarrow> (rstr \<Rightarrow> nat \<Rightarrow> 'x) \<Rightarrow> rstr list \<Rightarrow> 's \<Rightarrow>
    sched_panic + (((rstr \<times> store_sched) \<times> (rstr \<times> rstr) list) list \<times> 's)" where
  "driver_claims co apply rows dr now owners envs [] s = Inr ([], s)"
| "driver_claims co apply rows dr now owners envs (t # ts) s =
     (case scheduler_for dr t (owners t) of
        None \<Rightarrow> driver_claims co apply rows dr now owners envs ts s
      | Some d \<Rightarrow>
          (case store_claim_due co apply rows d now (envs t) s of
             (Inl (JF_Panic p), s) \<Rightarrow> Inl p
           | (Inl (JF_Error e), s) \<Rightarrow> driver_claims co apply rows dr now owners envs ts s
           | (Inr due, s) \<Rightarrow>
               bindR (driver_claims co apply rows dr now owners envs ts s) (\<lambda>(batches, s).
                 Inr (if due = [] then batches else ((t, d), due) # batches, s))))"

text \<open>The dispatch order of a tick, and the driver and store it leaves.\<close>

definition driver_dispatch :: "job_codec \<Rightarrow> ('x \<Rightarrow> 's \<Rightarrow> cs_write list \<Rightarrow> cs_error + 's) \<Rightarrow> ('x \<Rightarrow> 's \<Rightarrow> rstr \<Rightarrow> rstr \<Rightarrow> cs_error + rstr list) \<Rightarrow>
    cs_error + rstr list \<Rightarrow> nat \<Rightarrow> (rstr \<Rightarrow> rstr) \<Rightarrow> (rstr \<Rightarrow> nat \<Rightarrow> 'x) \<Rightarrow> store_driver \<Rightarrow> 's \<Rightarrow>
    sched_panic + (((rstr \<times> store_sched) \<times> (rstr \<times> rstr)) list \<times> store_driver \<times> 's)" where
  "driver_dispatch co apply rows listed now owners envs dr s =
     (case rotated_tenants (dr_cursor dr) (driver_tenants dr listed) of
        (ts, cursor) \<Rightarrow>
          bindR (driver_claims co apply rows dr now owners envs ts s) (\<lambda>(batches, s).
            Inr (interleave batches, dr\<lparr>dr_cursor := cursor\<rparr>, s)))"

section \<open>Fairness\<close>

definition jobs_of :: "'t \<Rightarrow> ('t \<times> 'j) list \<Rightarrow> 'j list" where
  "jobs_of t xs = map snd (filter (\<lambda>e. fst e = t) xs)"

lemma jobs_of_append [simp]: "jobs_of t (xs @ ys) = jobs_of t xs @ jobs_of t ys"
  by (simp add: jobs_of_def)

lemma round_keys: "interleave_round bs = (out, rest) \<Longrightarrow> map fst rest = map fst bs"
  by (induction bs arbitrary: out rest rule: interleave_round.induct) (auto split: prod.splits list.splits)

lemma round_from: "interleave_round bs = (out, rest) \<Longrightarrow> e \<in> set out \<Longrightarrow> fst e \<in> fst ` set bs"
proof (induction bs arbitrary: out rest rule: interleave_round.induct)
  case (2 t q bs)
  obtain out1 rest1 where r: "interleave_round bs = (out1, rest1)" by fastforce
  then show ?case using 2(1)[OF r] 2(2,3) by (auto split: list.splits)
qed simp

lemma round_other:
  "interleave_round bs = (out, rest) \<Longrightarrow> t \<notin> fst ` set bs \<Longrightarrow> jobs_of t out = []"
  using round_from[of bs out rest] by (fastforce simp: jobs_of_def filter_empty_conv)

lemma round_split:
  "interleave_round bs = (out, rest) \<Longrightarrow> distinct (map fst bs) \<Longrightarrow> (t, q) \<in> set bs \<Longrightarrow>
     jobs_of t out = take 1 q \<and> (t, drop 1 q) \<in> set rest"
proof (induction bs arbitrary: out rest rule: interleave_round.induct)
  case (2 u p bs)
  obtain out1 rest1 where r: "interleave_round bs = (out1, rest1)" by fastforce
  show ?case
  proof (cases "t = u")
    case True
    then have "q = p" "t \<notin> fst ` set bs" using 2(3,4) by (auto simp: rev_image_eqI)
    then show ?thesis using 2(2) r True round_other[OF r] by (auto simp: jobs_of_def split: list.splits)
  next
    case False
    then show ?thesis using 2 r by (auto simp: jobs_of_def split: list.splits)
  qed
qed simp

lemma round_all:
  "interleave_round bs = (out, rest) \<Longrightarrow> out = [] \<Longrightarrow> (t, q) \<in> set bs \<Longrightarrow> q = []"
  by (induction bs arbitrary: out rest rule: interleave_round.induct) (auto split: prod.splits list.splits)

lemma interleave_from: "e \<in> set (interleave bs) \<Longrightarrow> fst e \<in> fst ` set bs"
proof (induction bs rule: interleave.induct)
  case (1 bs)
  obtain out rest where r: "interleave_round bs = (out, rest)" by fastforce
  have "fst ` set rest = fst ` set bs" using arg_cong[OF round_keys[OF r], of set] by simp
  then show ?case
    using 1(1)[OF r[symmetric]] 1(2) r round_from[OF r, of e] by (auto simp: interleave.simps[of bs] split: if_splits)
qed

lemma interleave_jobs: "distinct (map fst bs) \<Longrightarrow> (t, q) \<in> set bs \<Longrightarrow> jobs_of t (interleave bs) = q"
proof (induction bs arbitrary: q rule: interleave.induct)
  case (1 bs)
  obtain out rest where r: "interleave_round bs = (out, rest)" by fastforce
  show ?case
  proof (cases "out = []")
    case True
    then show ?thesis using r round_all[OF r True 1(3)] by (simp add: interleave.simps[of bs] jobs_of_def)
  next
    case False
    have "jobs_of t out = take 1 q" "(t, drop 1 q) \<in> set rest" using round_split[OF r 1(2,3)] by simp_all
    moreover have "jobs_of t (interleave rest) = drop 1 q"
      using 1(1)[OF r[symmetric] False] round_keys[OF r] 1(2) calculation(2) by simp
    ultimately show ?thesis using r False by (simp add: interleave.simps[of bs])
  qed
qed

lemma jobs_of_take: "length (jobs_of t (take n xs)) \<le> length (jobs_of t xs)"
  using append_take_drop_id[of n xs] jobs_of_append[of t "take n xs" "drop n xs"] by simp

lemma interleave_fair:
  "distinct (map fst bs) \<Longrightarrow> (t, q) \<in> set bs \<Longrightarrow> (u, p) \<in> set bs \<Longrightarrow>
     length (jobs_of u (take n (interleave bs))) \<le> length (jobs_of t (take n (interleave bs))) + 1
     \<or> jobs_of t (take n (interleave bs)) = q"
proof (induction bs arbitrary: q p n rule: interleave.induct)
  case (1 bs)
  obtain out rest where r: "interleave_round bs = (out, rest)" by fastforce
  have out: "jobs_of t out = take 1 q" "(t, drop 1 q) \<in> set rest" "jobs_of u out = take 1 p" "(u, drop 1 p) \<in> set rest"
    using round_split[OF r 1(2,3)] round_split[OF r 1(2,4)] by simp_all
  show ?case
  proof (cases "n \<le> length out")
    case True
    have "take n (interleave bs) = take n out" using r True by (simp add: interleave.simps[of bs])
    then show ?thesis using jobs_of_take[of u n out] out(3) by simp
  next
    case False
    show ?thesis
    proof (cases "out = []")
      case True
      then show ?thesis using r by (simp add: interleave.simps[of bs] jobs_of_def)
    next
      case ne: False
      let ?m = "n - length out"
      have eq: "take n (interleave bs) = out @ take ?m (interleave rest)"
        using r ne False by (simp add: interleave.simps[of bs])
      have "distinct (map fst rest)" using round_keys[OF r] 1(2) by simp
      from 1(1)[OF r[symmetric] ne this out(2,4), of ?m]
      show ?thesis
      proof
        assume IH: "jobs_of t (take ?m (interleave rest)) = drop 1 q"
        then show ?thesis unfolding eq using out(1) by simp
      next
        assume IH: "length (jobs_of u (take ?m (interleave rest))) \<le> length (jobs_of t (take ?m (interleave rest))) + 1"
        show ?thesis
        proof (cases q)
          case Nil
          have "jobs_of t (interleave rest) = []"
            using interleave_jobs[OF \<open>distinct (map fst rest)\<close> out(2)] Nil by simp
          then show ?thesis unfolding eq using out(1) Nil jobs_of_take[of t ?m "interleave rest"] by simp
        next
          case Cons
          then show ?thesis unfolding eq using out(1,3) IH by (auto simp: min_def)
        qed
      qed
    qed
  qed
qed

lemma driver_claims_keys:
  "driver_claims co apply rows dr now owners envs ts s = Inr (batches, s') \<Longrightarrow> distinct ts \<Longrightarrow>
     distinct (map fst batches) \<and> fst ` fst ` set batches \<subseteq> set ts"
proof (induction ts arbitrary: s batches)
  case (Cons t ts)
  note prems = Cons.prems
  have ts: "distinct ts" "t \<notin> set ts" using prems(2) by simp_all
  consider (skip) s1 where "driver_claims co apply rows dr now owners envs ts s1 = Inr (batches, s')"
    | (add) s1 bs d due where "driver_claims co apply rows dr now owners envs ts s1 = Inr (bs, s')" "batches = ((t, d), due) # bs"
    using prems(1)
    by (auto simp: bindR_Inr split: option.splits prod.splits sum.splits job_fault.splits if_splits)
  then show ?case
  proof cases
    case skip
    then show ?thesis using Cons.IH[OF skip ts(1)] by auto
  next
    case add
    have bs: "distinct (map fst bs)" "fst ` fst ` set bs \<subseteq> set ts" using Cons.IH[OF add(1) ts(1)] by simp_all
    have "(t, d) \<notin> fst ` set bs"
    proof
      assume "(t, d) \<in> fst ` set bs"
      then have "t \<in> fst ` fst ` set bs" by (metis fst_conv imageI)
      then show False using bs(2) ts(2) by blast
    qed
    then show ?thesis using bs add(2) by auto
  qed
qed simp

lemma rotated_turn:
  assumes "1 < length ts"
  shows "hd (fst (rotated_tenants c ts)) = ts ! (c mod length ts) \<and> snd (rotated_tenants c ts) = (c + 1) mod 2 ^ 64"
proof -
  have "ts \<noteq> []" using assms by auto
  then show ?thesis using assms by (simp add: rotated_tenants_def hd_rotate_conv_nth)
qed


section \<open>Runs\<close>

text \<open>A codec that knows a table of cards.\<close>

definition table_codec :: "(stored_job \<times> rstr) list \<Rightarrow> job_codec" where
  "table_codec tab = \<lparr>
     jc_encode = (\<lambda>sj. case map_of tab sj of Some b \<Rightarrow> Inr b | None \<Rightarrow> Inl ''other''),
     jc_decode = (\<lambda>b. case find (\<lambda>e. snd e = b) tab of Some e \<Rightarrow> Inr (fst e) | None \<Rightarrow> Inl ''other'')\<rparr>"

definition demo_card :: "rstr \<Rightarrow> schedule \<Rightarrow> nat option \<Rightarrow> nat option \<Rightarrow> rstr option \<Rightarrow> job_run list \<Rightarrow> stored_job" where
  "demo_card i sch n c b h = \<lparr>sj_job = \<lparr>jb_id = i, jb_spec = ''s'', jb_schedule = sch, jb_goal = ''g'',
     jb_next = n, jb_enabled = True\<rparr>, sj_claimed_at = c, sj_claimed_by = b, sj_history = h\<rparr>"

definition demo_codec :: job_codec where
  "demo_codec = table_codec
     [(demo_card ''j1'' (Sched_Once 5) (Some 5) None None [], ''1''), (demo_card ''j2'' (Sched_Once 5) (Some 5) None None [], ''2''),
      (demo_card ''j1'' (Sched_Once 5) None (Some 5) (Some ''o'') [], ''3''), (demo_card ''j2'' (Sched_Once 5) None (Some 5) (Some ''o'') [], ''4'')]"

definition demo_db :: sql_store where
  "demo_db = \<lparr>sq_tenants = {''a'', ''b''}, sq_cards =
     [\<lparr>cr_collection = ''scheduler'', cr_tenant = ''a'', cr_id = ''j1'', cr_pos = 0, cr_blob = ''1''\<rparr>,
      \<lparr>cr_collection = ''scheduler'', cr_tenant = ''a'', cr_id = ''j2'', cr_pos = 1, cr_blob = ''2''\<rparr>,
      \<lparr>cr_collection = ''scheduler'', cr_tenant = ''b'', cr_id = ''j1'', cr_pos = 2, cr_blob = ''1''\<rparr>]\<rparr>"

definition demo_driver :: store_driver where
  "demo_driver = \<lparr>dr_per_tenant = True, dr_ttl = 10, dr_max_jobs = 5, dr_cursor = 0\<rparr>"

lemma demo_dispatch:
  "case driver_dispatch demo_codec sql_apply sql_list (Inr [''a'', ''b'']) 5 (\<lambda>_. ''o'') (\<lambda>_ _. None) demo_driver demo_db of
     Inl _ \<Rightarrow> False
   | Inr (jobs, _) \<Rightarrow> map (\<lambda>((t, d), i, goal). (t, i)) jobs = [(''a'', ''j1''), (''b'', ''j1''), (''a'', ''j2'')]"
  by code_simp

text \<open>A store error in the middle of a tick: the job claimed before it is reported to nobody.\<close>

lemma failed_tick_drops_claims:
  "case store_claim_due demo_codec sql_apply sql_list \<lparr>ss_tenant = ''a'', ss_owner = ''o'', ss_ttl = 10, ss_max_jobs = 5\<rparr> 5
       (\<lambda>n. if n = 2 then Some ''disk full'' else None) demo_db of
     (out, q) \<Rightarrow> out = Inl (JF_Error (sql_err ''disk full'')) \<and> rows_get (sq_cards q) (''scheduler'', ''a'', ''j1'') = Some ''3''"
  by code_simp

text \<open>
  A skip between a finish's read and its write: the finish answers success, its run is not recorded and
  its claim stays, though no other driver has taken the job.
\<close>

definition busy_card :: "nat \<Rightarrow> job_run list \<Rightarrow> stored_job" where
  "busy_card n h = demo_card ''j1'' (Sched_Interval 2) (Some n) (Some 2000) (Some ''o'') h"

definition busy_run :: job_run where
  "busy_run = finished_run ''j1'' 2000 4000 (Inr ''ok'')"

definition idle_card :: stored_job where
  "idle_card = demo_card ''j1'' (Sched_Interval 2) (Some 4000) None None [busy_run]"

definition busy_codec :: job_codec where
  "busy_codec = table_codec [(busy_card 4000 [], ''1''), (busy_card 6000 [skipped_run ''j1'' 4000], ''2''), (idle_card, ''3'')]"

definition busy_db :: "rstr \<Rightarrow> sql_store" where
  "busy_db b = \<lparr>sq_tenants = {''a''}, sq_cards =
     [\<lparr>cr_collection = ''scheduler'', cr_tenant = ''a'', cr_id = ''j1'', cr_pos = 0, cr_blob = b\<rparr>]\<rparr>"

definition busy_sched :: "rstr \<Rightarrow> store_sched" where
  "busy_sched o' = \<lparr>ss_tenant = ''a'', ss_owner = o', ss_ttl = 10000, ss_max_jobs = 5\<rparr>"

lemma skip_loses_finish:
  "finish_read busy_codec (sql_get None (busy_db ''1'')) (busy_sched ''o'') ''j1'' busy_run = Inr (Some (idle_card, ''1''))
    \<and> store_claim_due busy_codec sql_apply sql_list (busy_sched ''p'') 4000 (\<lambda>_. None) (busy_db ''1'') = (Inr [], busy_db ''2'')
    \<and> finish_write busy_codec (sql_apply None (busy_db ''2'')) (busy_sched ''o'') (idle_card, ''1'') (busy_db ''2'') = (Inr (), busy_db ''2'')
    \<and> decode_job busy_codec ''2'' = Inr (busy_card 6000 [skipped_run ''j1'' 4000])"
proof (intro conjI)
  show "finish_read busy_codec (sql_get None (busy_db ''1'')) (busy_sched ''o'') ''j1'' busy_run = Inr (Some (idle_card, ''1''))"
    by code_simp
  show "store_claim_due busy_codec sql_apply sql_list (busy_sched ''p'') 4000 (\<lambda>_. None) (busy_db ''1'') = (Inr [], busy_db ''2'')"
    by code_simp
  show "finish_write busy_codec (sql_apply None (busy_db ''2'')) (busy_sched ''o'') (idle_card, ''1'') (busy_db ''2'') = (Inr (), busy_db ''2'')"
    by code_simp
  show "decode_job busy_codec ''2'' = Inr (busy_card 6000 [skipped_run ''j1'' 4000])" by code_simp
qed


end
