(* ===== verification/Edit_Tool.thy ===== *)
theory Edit_Tool
  imports Security Task_Policy Config_Store
begin

text \<open>
  The file-editing tool (\<open>crates/agent-tools/src/edit.rs\<close>): exact and fuzzy replacement, atomic
  batches, line endings and the byte-order mark, and the call as a whole. The outcomes of the file
  operations are arguments.
\<close>

section \<open>Substrings\<close>

text \<open>\<open>str::split\<close> on a non-empty pattern: leftmost matches that do not overlap.\<close>

function split_str :: "rstr \<Rightarrow> rstr \<Rightarrow> rstr list" where
  "split_str p [] = [[]]"
| "split_str p (c # s) =
     (if p \<noteq> [] \<and> starts_with p (c # s) then [] # split_str p (drop (length p) (c # s))
      else (case split_str p s of [] \<Rightarrow> [[c]] | w # ws \<Rightarrow> (c # w) # ws))"
  by pat_completeness auto
termination by (relation "measure (\<lambda>(p, s). length s)") auto

fun intercalate :: "rstr \<Rightarrow> rstr list \<Rightarrow> rstr" where
  "intercalate r [] = []"
| "intercalate r [w] = w"
| "intercalate r (w # v # ws) = w @ r @ intercalate r (v # ws)"

text \<open>\<open>matches(..).count()\<close>, \<open>replace\<close> and \<open>replacen(.., 1)\<close>.\<close>

definition str_matches :: "rstr \<Rightarrow> rstr \<Rightarrow> nat" where
  "str_matches p s = length (split_str p s) - 1"

definition str_replace :: "rstr \<Rightarrow> rstr \<Rightarrow> rstr \<Rightarrow> rstr" where
  "str_replace p r s = intercalate r (split_str p s)"

definition str_replace1 :: "rstr \<Rightarrow> rstr \<Rightarrow> rstr \<Rightarrow> rstr" where
  "str_replace1 p r s = (case split_str p s of w # v # ws \<Rightarrow> w @ r @ intercalate p (v # ws) | _ \<Rightarrow> s)"

lemma split_str_not_Nil [simp]: "split_str p s \<noteq> []"
  by (induction p s rule: split_str.induct) (auto split: list.splits)

lemma intercalate_Cons: "ws \<noteq> [] \<Longrightarrow> intercalate r (w # ws) = w @ r @ intercalate r ws"
  by (cases ws) auto

lemma intercalate_grow: "ws \<noteq> [] \<Longrightarrow> intercalate r ((c # hd ws) # tl ws) = c # intercalate r ws"
  by (cases ws; cases "tl ws") auto

lemma intercalate_split: "intercalate p (split_str p s) = s"
proof (induction p s rule: split_str.induct)
  case (2 p c s)
  show ?case
  proof (cases "p \<noteq> [] \<and> starts_with p (c # s)")
    case True
    have "p @ drop (length p) (c # s) = c # s" using True by (auto simp: starts_with_iff)
    then show ?thesis using 2(1)[OF True] True by (simp add: intercalate_Cons)
  next
    case False
    then show ?thesis
      using 2(2)[OF False] intercalate_grow[of "split_str p s" p c] by (auto split: list.splits)
  qed
qed simp

text \<open>\<open>replace\<close> of one line ending by the other.\<close>

definition lf :: char where "lf = CHR 0x0A"
definition crlf :: rstr where "crlf = [CHR 0x0D, CHR 0x0A]"

definition to_lf :: "rstr \<Rightarrow> rstr" where
  "to_lf s = str_replace crlf [lf] s"

definition to_crlf :: "rstr \<Rightarrow> rstr" where
  "to_crlf s = str_replace [lf] crlf s"

section \<open>Replacement\<close>

record edit =
  ed_old :: rstr
  ed_new :: rstr

definition validate_edit :: "rstr \<Rightarrow> rstr \<Rightarrow> rstr + unit" where
  "validate_edit old new =
     (if old = [] then Inl ''old_string must not be empty''
      else if old = new then Inl ''old_string and new_string are identical''
      else Inr ())"

definition edit_str :: "nat \<Rightarrow> rstr \<Rightarrow> json \<Rightarrow> rstr + rstr" where
  "edit_str i k item =
     (case Option.bind (json_get k item) as_str of
        Some s \<Rightarrow> Inr s
      | None \<Rightarrow> Inl (''edit '' @ show_nat (i + 1) @ '': missing '' @ backtick k))"

fun parse_edits :: "nat \<Rightarrow> json list \<Rightarrow> rstr + edit list" where
  "parse_edits i [] = Inr []"
| "parse_edits i (item # items) =
     bindR (edit_str i ''old_string'' item) (\<lambda>old.
     bindR (edit_str i ''new_string'' item) (\<lambda>new.
       case validate_edit old new of
         Inl m \<Rightarrow> Inl (''edit '' @ show_nat (i + 1) @ '': '' @ m)
       | Inr _ \<Rightarrow> bindR (parse_edits (i + 1) items) (\<lambda>es. Inr (\<lparr>ed_old = old, ed_new = new\<rparr> # es))))"

definition parse_multi :: "json \<Rightarrow> rstr + edit list" where
  "parse_multi v =
     (case as_array v of
        None \<Rightarrow> Inl ''`edits` must be an array''
      | Some [] \<Rightarrow> Inl ''`edits` must contain at least one replacement''
      | Some arr \<Rightarrow> parse_edits 0 arr)"

subsection \<open>Fuzzy matching\<close>

definition trim_start :: "rstr \<Rightarrow> rstr" where
  "trim_start s = concat (dropWhile ws_char (str_chars s))"

definition trim_end :: "rstr \<Rightarrow> rstr" where
  "trim_end s = concat (rev (dropWhile ws_char (rev (str_chars s))))"

fun words_of :: "rstr list \<Rightarrow> rstr list" where
  "words_of [] = [[]]"
| "words_of (c # cs) =
     (if ws_char c then [] # words_of cs
      else (case words_of cs of [] \<Rightarrow> [c] | w # ws \<Rightarrow> (c @ w) # ws))"

definition split_whitespace :: "rstr \<Rightarrow> rstr list" where
  "split_whitespace s = filter (\<lambda>w. w \<noteq> []) (words_of (str_chars s))"

datatype fuzz_level = Fold | Collapse

definition fold_char :: "rstr \<Rightarrow> rstr" where
  "fold_char c =
     (let p = code_point c in
      if p = 0x2018 \<or> p = 0x2019 then [CHR 0x27]
      else if p = 0x201C \<or> p = 0x201D then [CHR 0x22]
      else if p = 0x2013 \<or> p = 0x2014 then ''-''
      else if p = 0xA0 then '' ''
      else if 0xFF01 \<le> p \<and> p \<le> 0xFF5E then [char_of (p - 0xFEE0)]
      else c)"

definition norm_line :: "fuzz_level \<Rightarrow> rstr \<Rightarrow> rstr" where
  "norm_line level line =
     (let folded = concat (map fold_char (str_chars line)) in
      case level of
        Fold \<Rightarrow> trim_end folded
      | Collapse \<Rightarrow> join_with (CHR '' '') (split_whitespace folded))"

definition leading_ws :: "rstr \<Rightarrow> rstr" where
  "leading_ws line = take (length line - length (trim_start line)) line"

definition reindent :: "rstr \<Rightarrow> rstr \<Rightarrow> rstr list" where
  "reindent new file_indent =
     (let base = (case find (\<lambda>l. str_trim l \<noteq> []) (split_on lf new) of Some l \<Rightarrow> leading_ws l | None \<Rightarrow> []) in
      map (\<lambda>line.
        if str_trim line = [] then []
        else (case strip_prefix base line of
                Some rest \<Rightarrow> file_indent @ rest
              | None \<Rightarrow> file_indent @ trim_start line)) (split_on lf new))"

definition block_hits :: "rstr list \<Rightarrow> rstr list \<Rightarrow> nat list" where
  "block_hits hay want = filter (\<lambda>i. take (length want) (drop i hay) = want) [0..<length hay - length want + 1]"

definition not_found_fuzzy :: rstr where
  "not_found_fuzzy = ''old_string not found (even with fuzzy matching)''"

fun fuzzy_levels :: "fuzz_level list \<Rightarrow> rstr list \<Rightarrow> rstr \<Rightarrow> rstr \<Rightarrow> rstr + (rstr \<times> nat)" where
  "fuzzy_levels [] lines old new = Inl not_found_fuzzy"
| "fuzzy_levels (level # levels) lines old new =
     (let want = map (norm_line level) (split_on lf old) in
      if want = [] \<or> length want > length lines then Inl not_found_fuzzy
      else
        (case block_hits (map (norm_line level) lines) want of
           [] \<Rightarrow> fuzzy_levels levels lines old new
         | [i] \<Rightarrow>
             (let repl = (case level of Fold \<Rightarrow> split_on lf new | Collapse \<Rightarrow> reindent new (leading_ws (lines ! i))) in
              Inr (join_with lf (take i lines @ repl @ drop (i + length want) lines), 1))
         | many \<Rightarrow> Inl (''old_string is not unique after fuzzy normalization ('' @ show_nat (length many)
             @ '' matches); add surrounding context'')))"

definition fuzzy_replace :: "rstr \<Rightarrow> rstr \<Rightarrow> rstr \<Rightarrow> rstr + (rstr \<times> nat)" where
  "fuzzy_replace content old new = fuzzy_levels [Fold, Collapse] (split_on lf content) old new"

subsection \<open>One edit, and a batch\<close>

definition apply_single :: "rstr \<Rightarrow> edit \<Rightarrow> bool \<Rightarrow> bool \<Rightarrow> rstr + (rstr \<times> nat)" where
  "apply_single content e replace_all fuzzy =
     (let old = to_lf (ed_old e); new = to_lf (ed_new e); count = str_matches old content in
      if count = 0 then (if fuzzy then fuzzy_replace content old new else Inl ''old_string not found'')
      else if replace_all then Inr (str_replace old new content, count)
      else if count > 1
      then Inl (''old_string is not unique ('' @ show_nat count
        @ '' occurrences); add surrounding context or set replace_all'')
      else Inr (str_replace1 old new content, 1))"

text \<open>A span is its start, its end and its replacement.\<close>

definition edit_span :: "rstr \<Rightarrow> nat \<Rightarrow> edit \<Rightarrow> rstr + (nat \<times> nat \<times> rstr)" where
  "edit_span content i e =
     (let old = to_lf (ed_old e) in
      case split_str old content of
        [w, v] \<Rightarrow> Inr (length w, length w + length old, to_lf (ed_new e))
      | w # v # ws \<Rightarrow> Inl (''edit '' @ show_nat (i + 1) @ '': old_string is not unique ('' @ show_nat (length ws + 1) @ '' occurrences)'')
      | _ \<Rightarrow> Inl (''edit '' @ show_nat (i + 1) @ '': old_string not found''))"

fun edit_spans :: "rstr \<Rightarrow> nat \<Rightarrow> edit list \<Rightarrow> rstr + (nat \<times> nat \<times> rstr) list" where
  "edit_spans content i [] = Inr []"
| "edit_spans content i (e # es) =
     bindR (edit_span content i e) (\<lambda>sp. bindR (edit_spans content (i + 1) es) (\<lambda>sps. Inr (sp # sps)))"

fun spans_overlap :: "(nat \<times> nat \<times> rstr) list \<Rightarrow> bool" where
  "spans_overlap (a # b # sps) = (fst b < fst (snd a) \<or> spans_overlap (b # sps))"
| "spans_overlap _ = False"

fun splice_spans :: "rstr \<Rightarrow> nat \<Rightarrow> (nat \<times> nat \<times> rstr) list \<Rightarrow> rstr" where
  "splice_spans content cursor [] = drop cursor content"
| "splice_spans content cursor ((start, stop, new) # sps) =
     take (start - cursor) (drop cursor content) @ new @ splice_spans content stop sps"

definition apply_multi :: "rstr \<Rightarrow> edit list \<Rightarrow> rstr + (rstr \<times> nat)" where
  "apply_multi content edits =
     bindR (edit_spans content 0 edits) (\<lambda>spans.
       let spans = sort_key fst spans in
       if spans_overlap spans then Inl ''edits overlap (a later edit's target overlaps an earlier one)''
       else Inr (splice_spans content 0 spans, length spans))"

section \<open>The call\<close>

datatype io_fail = IO_NotFound | IO_Denied | IO_Other rstr

definition io_err_msg :: "rstr \<Rightarrow> rstr \<Rightarrow> io_fail \<Rightarrow> rstr" where
  "io_err_msg op path e =
     (case e of
        IO_NotFound \<Rightarrow> ''could not '' @ op @ '' '' @ backtick path @ '': not found (ENOENT)''
      | IO_Denied \<Rightarrow> ''could not '' @ op @ '' '' @ backtick path @ '': permission denied (EACCES)''
      | IO_Other m \<Rightarrow> ''could not '' @ op @ '' '' @ backtick path @ '': '' @ m)"

definition split_bom :: "rstr \<Rightarrow> bool \<times> rstr" where
  "split_bom s = (case strip_prefix bom s of Some rest \<Rightarrow> (True, rest) | None \<Rightarrow> (False, s))"

text \<open>Every \<open>CRLF\<close> contains an \<open>LF\<close>, so the subtraction cannot underflow.\<close>

definition is_crlf_dominant :: "rstr \<Rightarrow> bool" where
  "is_crlf_dominant body =
     (let crlf_count = str_matches crlf body; lf_only_count = str_matches [lf] body - crlf_count in
      crlf_count > lf_only_count)"

definition max_output :: nat where "max_output = 12000"
definition max_file_bytes :: nat where "max_file_bytes = 16 * 1024 * 1024"

definition is_char_boundary :: "rstr \<Rightarrow> nat \<Rightarrow> bool" where
  "is_char_boundary s n \<longleftrightarrow> n = 0 \<or> n = length s
     \<or> n < length s \<and> \<not> (128 \<le> (of_char (s ! n) :: nat) \<and> (of_char (s ! n) :: nat) < 192)"

fun boundary_below :: "rstr \<Rightarrow> nat \<Rightarrow> nat" where
  "boundary_below s 0 = 0"
| "boundary_below s (Suc n) = (if is_char_boundary s (Suc n) then Suc n else boundary_below s n)"

definition truncate_output :: "rstr \<Rightarrow> rstr" where
  "truncate_output s =
     (if length s > max_output then take (boundary_below s max_output) s @ [lf] @ ''...[output truncated]'' else s)"

definition guard_file_size :: "nat option \<Rightarrow> rstr + unit" where
  "guard_file_size len =
     (case len of
        Some n \<Rightarrow> if n > max_file_bytes
          then Inl (''file too large to read ('' @ show_nat n @ '' bytes; limit '' @ show_nat max_file_bytes @ '')'')
          else Inr ()
      | None \<Rightarrow> Inr ())"

definition arg_str :: "json \<Rightarrow> rstr \<Rightarrow> cs_error + rstr" where
  "arg_str args k =
     (case Option.bind (json_get k args) as_str of
        Some s \<Rightarrow> Inr s | None \<Rightarrow> Inl (CE_Tool (''missing string argument '' @ backtick k)))"

definition arg_bool :: "json \<Rightarrow> rstr \<Rightarrow> bool \<Rightarrow> bool" where
  "arg_bool args k dflt = (case Option.bind (json_get k args) as_bool of Some b \<Rightarrow> b | None \<Rightarrow> dflt)"

datatype observation = Obs_Ok rstr | Obs_Error rstr

text \<open>What the file system answers: the size, the read, the second read of the stale guard, the write.\<close>

record edit_io =
  io_size :: "nat option"
  io_read :: "io_fail + rstr"
  io_reread :: "io_fail + rstr"
  io_write :: "io_fail option"

text \<open>The edits of the call: a batch, or one pair.\<close>

definition gather_edits :: "json \<Rightarrow> cs_error + (rstr + (edit list \<times> bool))" where
  "gather_edits args =
     (case json_get ''edits'' args of
        Some v \<Rightarrow> Inr (bindR (parse_multi v) (\<lambda>es. Inr (es, True)))
      | None \<Rightarrow>
          bindR (arg_str args ''old_string'') (\<lambda>old.
          bindR (arg_str args ''new_string'') (\<lambda>new.
            Inr (bindR (validate_edit old new) (\<lambda>_. Inr ([\<lparr>ed_old = old, ed_new = new\<rparr>], False))))))"

text \<open>From the bytes read to the bytes to write.\<close>

definition edit_content :: "edit list \<Rightarrow> bool \<Rightarrow> bool \<Rightarrow> bool \<Rightarrow> rstr \<Rightarrow> rstr + (rstr \<times> nat)" where
  "edit_content edits multi replace_all fuzzy bytes =
     (case split_bom bytes of
        (has_bom, body) \<Rightarrow>
          bindR (if multi then apply_multi (to_lf body) edits else apply_single (to_lf body) (hd edits) replace_all fuzzy)
            (\<lambda>(new_norm, n).
              let out_body = (if is_crlf_dominant body then to_crlf new_norm else new_norm) in
              Inr ((if has_bom then bom @ out_body else out_body), n)))"

text \<open>The answer, and the file and bytes it asked to write.\<close>

definition edit_execute :: "(path_buf \<Rightarrow> rstr + path_buf) \<Rightarrow> (path_buf \<Rightarrow> bool) \<Rightarrow> path_buf \<Rightarrow> edit_io \<Rightarrow> json \<Rightarrow>
    cs_error + (observation \<times> (path_buf \<times> rstr) option)" where
  "edit_execute canon symlink cwd io args =
     bindR (arg_str args ''path'') (\<lambda>path.
     bindR (gather_edits args) (\<lambda>gathered.
       let fail = (\<lambda>m. Inr (Obs_Error m, None)) in
       case gathered of Inl m \<Rightarrow> fail m | Inr (edits, multi) \<Rightarrow>
       (case confine canon symlink cwd path of Inl m \<Rightarrow> fail m | Inr full \<Rightarrow>
       (case guard_file_size (io_size io) of Inl m \<Rightarrow> fail (backtick path @ '': '' @ m) | Inr _ \<Rightarrow>
       (case io_read io of Inl e \<Rightarrow> fail (io_err_msg ''read'' path e) | Inr bytes \<Rightarrow>
       (case edit_content edits multi (arg_bool args ''replace_all'' False) (arg_bool args ''fuzzy'' False) bytes of
          Inl m \<Rightarrow> fail (m @ '' in '' @ backtick path)
        | Inr (out, n) \<Rightarrow>
            if (case io_reread io of Inr current \<Rightarrow> current \<noteq> bytes | Inl _ \<Rightarrow> False)
            then fail (backtick path @ '' changed on disk since it was read; re-read it before editing'')
            else
              (case io_write io of
                 Some e \<Rightarrow> Inr (Obs_Error (io_err_msg ''write'' path e), Some (full, out))
               | None \<Rightarrow> Inr (Obs_Ok (truncate_output (''edited '' @ backtick path @ '' ('' @ show_nat n @ '' replacement''
                   @ (if n = 1 then [] else ''s'') @ '')'')), Some (full, out)))))))))"

end
