(* ===== verification/Patch_Tool.thy ===== *)
theory Patch_Tool
  imports Edit_Tool
begin

text \<open>
  The patch tool (\<open>crates/agent-tools/src/patch.rs\<close>): the patch envelope and its parser, the placing of
  hunks, the validation of a whole patch against the tree, and its commit. The tree maps a file to its
  bytes; \<open>pe_node\<close> is the file a path names (the kernel follows symlinks), \<open>pe_entry\<close> the directory entry
  that removing it removes, \<open>pe_readable\<close> whether it can be read as UTF-8 text, and the outcomes of the other
  file operations are arguments.
\<close>

section \<open>The envelope\<close>

record hunk =
  hk_hint :: "rstr option"
  hk_lines :: "(char \<times> rstr) list"
  hk_eof :: bool

datatype patch_op = Op_Add rstr "rstr list" | Op_Update rstr "hunk list" | Op_Delete rstr

fun op_path :: "patch_op \<Rightarrow> rstr" where
  "op_path (Op_Add path lines) = path"
| "op_path (Op_Update path hunks) = path"
| "op_path (Op_Delete path) = path"

text \<open>\<open>str::lines\<close>: a line break is \<open>LF\<close> or \<open>CRLF\<close>; the last piece counts when it is not empty.\<close>

definition chop_cr :: "rstr \<Rightarrow> rstr" where
  "chop_cr l = (if l \<noteq> [] \<and> last l = CHR 0x0D then butlast l else l)"

definition str_lines :: "rstr \<Rightarrow> rstr list" where
  "str_lines s =
     (let ps = split_on lf s in map chop_cr (butlast ps) @ (if last ps = [] then [] else [last ps]))"

fun drop_ats :: "rstr \<Rightarrow> rstr" where
  "drop_ats (a # b # s) = (if a = CHR ''@'' \<and> b = CHR ''@'' then drop_ats s else a # b # s)"
| "drop_ats s = s"

definition trim_end_ats :: "rstr \<Rightarrow> rstr" where
  "trim_end_ats s = rev (drop_ats (rev s))"

fun parse_add :: "rstr \<Rightarrow> rstr list \<Rightarrow> rstr + (rstr list \<times> rstr list)" where
  "parse_add path [] = Inr ([], [])"
| "parse_add path (l # ls) =
     (if starts_with ''*** '' l then Inr ([], l # ls)
      else
        (case strip_prefix ''+'' l of
           None \<Rightarrow> Inl (''Invalid add file line in '' @ backtick path @ '' (expected '' @ backtick ''+'' @ ''): '' @ backtick l)
         | Some rest \<Rightarrow> bindR (parse_add path ls) (\<lambda>(xs, rem). Inr (rest # xs, rem))))"

definition flush_hunk :: "hunk option \<Rightarrow> hunk list" where
  "flush_hunk cur = (case cur of Some h \<Rightarrow> [h] | None \<Rightarrow> [])"

definition new_hunk :: hunk where
  "new_hunk = \<lparr>hk_hint = None, hk_lines = [], hk_eof = False\<rparr>"

definition hint_hunk :: "rstr \<Rightarrow> hunk" where
  "hint_hunk rest =
     (let hint = str_trim (trim_end_ats (str_trim rest)) in
      \<lparr>hk_hint = (if hint \<noteq> [] then Some hint else None), hk_lines = [], hk_eof = False\<rparr>)"

definition push_line :: "hunk option \<Rightarrow> char \<times> rstr \<Rightarrow> hunk" where
  "push_line cur e = (let h = (case cur of Some h \<Rightarrow> h | None \<Rightarrow> new_hunk) in h\<lparr>hk_lines := hk_lines h @ [e]\<rparr>)"

definition ends_update :: "rstr \<Rightarrow> bool" where
  "ends_update lt \<longleftrightarrow> lt = ''*** End Patch'' \<or> starts_with ''*** Add File:'' lt
     \<or> starts_with ''*** Update File:'' lt \<or> starts_with ''*** Delete File:'' lt"

fun parse_hunks :: "rstr \<Rightarrow> hunk option \<Rightarrow> rstr list \<Rightarrow> rstr + (hunk list \<times> rstr list)" where
  "parse_hunks path cur [] = Inr (flush_hunk cur, [])"
| "parse_hunks path cur (l # ls) =
     (let lt = trim_end l in
      if ends_update lt then Inr (flush_hunk cur, l # ls)
      else if starts_with ''*** Move to:'' lt then Inl ''moves are not supported''
      else if lt = ''*** End of File'' then parse_hunks path (map_option (\<lambda>h. h\<lparr>hk_eof := True\<rparr>) cur) ls
      else
        (case strip_prefix ''@@'' l of
           Some rest \<Rightarrow> bindR (parse_hunks path (Some (hint_hunk rest)) ls) (\<lambda>(hs, rem). Inr (flush_hunk cur @ hs, rem))
         | None \<Rightarrow>
             (case l of
                c # text \<Rightarrow>
                  if c = CHR ''+'' \<or> c = CHR ''-'' \<or> c = CHR '' ''
                  then parse_hunks path (Some (push_line cur (c, text))) ls
                  else Inl (''Invalid patch line in '' @ backtick path @ '': '' @ backtick l)
              | [] \<Rightarrow> Inl (''Invalid patch line in '' @ backtick path @ '': '' @ backtick l))))"

lemma parse_add_shrinks: "parse_add path ls = Inr (xs, rem) \<Longrightarrow> length rem \<le> length ls"
  by (induction path ls arbitrary: xs rem rule: parse_add.induct) (fastforce simp: bindR_Inr split: if_splits option.splits)+

lemma parse_hunks_shrinks: "parse_hunks path cur ls = Inr (hs, rem) \<Longrightarrow> length rem \<le> length ls"
  by (induction path cur ls arbitrary: hs rem rule: parse_hunks.induct)
    (fastforce simp: bindR_Inr Let_def split: if_splits option.splits list.splits)+

function parse_ops :: "rstr list \<Rightarrow> rstr + patch_op list" where
  "parse_ops [] = Inr []"
| "parse_ops (line # ls) =
     (let t = trim_end line in
      if t = ''*** End Patch'' then Inr []
      else
        (case strip_prefix ''*** Add File: '' t of
           Some p \<Rightarrow>
             (case parse_add (str_trim p) ls of
                Inl e \<Rightarrow> Inl e
              | Inr (xs, rem) \<Rightarrow> (case parse_ops rem of Inl e \<Rightarrow> Inl e | Inr ops \<Rightarrow> Inr (Op_Add (str_trim p) xs # ops)))
         | None \<Rightarrow>
        (case strip_prefix ''*** Update File: '' t of
           Some p \<Rightarrow>
             (case parse_hunks (str_trim p) None ls of
                Inl e \<Rightarrow> Inl e
              | Inr (hs, rem) \<Rightarrow>
                  if hs = []
                  then Inl (backtick (str_trim p) @ '': expected at least one @@ chunk (or hunk line) in an Update File'')
                  else (case parse_ops rem of Inl e \<Rightarrow> Inl e | Inr ops \<Rightarrow> Inr (Op_Update (str_trim p) hs # ops)))
         | None \<Rightarrow>
        (case strip_prefix ''*** Delete File: '' t of
           Some p \<Rightarrow> (case parse_ops ls of Inl e \<Rightarrow> Inl e | Inr ops \<Rightarrow> Inr (Op_Delete (str_trim p) # ops))
         | None \<Rightarrow> if t = [] then parse_ops ls else Inl (''unexpected patch line: '' @ backtick line)))))"
  by pat_completeness auto
termination
  by (relation "measure length") (auto dest: parse_add_shrinks parse_hunks_shrinks)

declare parse_ops.simps [simp del]

fun dup_path :: "rstr set \<Rightarrow> patch_op list \<Rightarrow> rstr option" where
  "dup_path seen [] = None"
| "dup_path seen (op # ops) =
     (if op_path op \<in> seen then Some (op_path op) else dup_path (insert (op_path op) seen) ops)"

definition patch_parse :: "rstr \<Rightarrow> rstr + patch_op list" where
  "patch_parse patch =
     (if str_trim patch = [] then Inl ''empty patch''
      else
        (case dropWhile (\<lambda>l. str_trim l \<noteq> ''*** Begin Patch'') (str_lines patch) of
           [] \<Rightarrow> Inl (''missing '' @ backtick ''*** Begin Patch'' @ '' header'')
         | _ # ls \<Rightarrow>
             bindR (parse_ops ls) (\<lambda>ops.
               case dup_path {} ops of
                 Some p \<Rightarrow> Inl (backtick p @ '': the same path appears in more than one file operation; combine them into a single block'')
               | None \<Rightarrow> Inr ops)))"

section \<open>Hunks\<close>

datatype hunk_err = Hunk_NotFound | Hunk_Ambiguous

definition find_block :: "rstr list \<Rightarrow> rstr list \<Rightarrow> bool \<Rightarrow> rstr option \<Rightarrow> hunk_err + nat" where
  "find_block hay needle eof hint =
     (if needle = [] \<or> length needle > length hay then Inl Hunk_NotFound
      else
        (let ms = block_hits hay needle;
             fallback = (if eof then Inr (last ms) else if length ms > 1 then Inl Hunk_Ambiguous else Inr (hd ms)) in
         if ms = [] then Inl Hunk_NotFound
         else
           (case hint of
              None \<Rightarrow> fallback
            | Some h \<Rightarrow>
                (case find (\<lambda>i. contains h (hay ! i)) [0..<length hay] of
                   None \<Rightarrow> fallback
                 | Some anchor \<Rightarrow> (case find (\<lambda>i. i \<ge> anchor) ms of Some m \<Rightarrow> Inr m | None \<Rightarrow> fallback)))))"

definition hunk_before :: "hunk \<Rightarrow> rstr list" where
  "hunk_before h = map snd (filter (\<lambda>e. fst e = CHR '' '' \<or> fst e = CHR ''-'') (hk_lines h))"

definition hunk_after :: "hunk \<Rightarrow> rstr list" where
  "hunk_after h = map snd (filter (\<lambda>e. fst e = CHR '' '' \<or> fst e = CHR ''+'') (hk_lines h))"

definition apply_hunk :: "rstr list \<Rightarrow> hunk \<Rightarrow> hunk_err + (rstr list \<times> bool)" where
  "apply_hunk lines h =
     (if \<not> list_ex (\<lambda>e. fst e = CHR ''-'' \<or> fst e = CHR ''+'') (hk_lines h) then Inr (lines, False)
      else if hunk_before h = []
      then
        (case hk_hint h of
           None \<Rightarrow> Inr (lines @ hunk_after h, True)
         | Some t \<Rightarrow>
             (case find (\<lambda>i. contains t (lines ! i)) [0..<length lines] of
                None \<Rightarrow> Inl Hunk_NotFound
              | Some i \<Rightarrow> Inr (take (i + 1) lines @ hunk_after h @ drop (i + 1) lines, True)))
      else
        bindR (find_block lines (hunk_before h) (hk_eof h) (hk_hint h)) (\<lambda>i.
          Inr (take i lines @ hunk_after h @ drop (i + length (hunk_before h)) lines, True)))"

fun apply_hunks :: "nat \<Rightarrow> rstr list \<Rightarrow> hunk list \<Rightarrow> (nat \<times> hunk_err) + (rstr list \<times> bool)" where
  "apply_hunks n lines [] = Inr (lines, False)"
| "apply_hunks n lines (h # hs) =
     (case apply_hunk lines h of
        Inl e \<Rightarrow> Inl (n, e)
      | Inr (lines, c) \<Rightarrow> bindR (apply_hunks (n + 1) lines hs) (\<lambda>(lines, c'). Inr (lines, c \<or> c')))"

definition split_lines :: "rstr \<Rightarrow> rstr list" where
  "split_lines body =
     (if body = [] then []
      else (let v = split_on lf body in if last body = lf then butlast v else v))"

definition reassemble :: "bool \<Rightarrow> rstr list \<Rightarrow> bool \<Rightarrow> rstr" where
  "reassemble has_bom lines trailing_nl =
     (if has_bom then bom else []) @ join_with lf lines @ (if trailing_nl \<and> lines \<noteq> [] then [lf] else [])"

text \<open>The new bytes of an updated file, and whether a hunk changed it.\<close>

definition patched :: "rstr \<Rightarrow> hunk list \<Rightarrow> (nat \<times> hunk_err) + (rstr \<times> bool)" where
  "patched bytes hunks =
     (case split_bom bytes of
        (has_bom, body) \<Rightarrow>
          bindR (apply_hunks 1 (split_lines body) hunks) (\<lambda>(lines, c).
            Inr (reassemble has_bom lines (body \<noteq> [] \<and> last body = lf), c)))"

section \<open>Validation\<close>

type_synonym tree = "path_buf \<Rightarrow> rstr option"

record patch_env =
  pe_canon :: "path_buf \<Rightarrow> rstr + path_buf"
  pe_symlink :: "path_buf \<Rightarrow> bool"
  pe_cwd :: path_buf
  pe_node :: "path_buf \<Rightarrow> path_buf"
  pe_entry :: "path_buf \<Rightarrow> path_buf"
  pe_dir :: "path_buf \<Rightarrow> bool"
  pe_readable :: "path_buf \<Rightarrow> bool"
  pe_mkdir :: "path_buf \<Rightarrow> rstr option"
  pe_write :: "path_buf \<Rightarrow> rstr option"
  pe_remove :: "path_buf \<Rightarrow> rstr option"

definition patch_confine :: "patch_env \<Rightarrow> rstr \<Rightarrow> rstr + path_buf" where
  "patch_confine env path = confine (pe_canon env) (pe_symlink env) (pe_cwd env) path"

datatype plan =
    Plan_Add rstr path_buf rstr
  | Plan_Update rstr path_buf rstr
  | Plan_Delete rstr path_buf rstr

text \<open>Two spellings of one confined path.\<close>

fun dup_target :: "patch_env \<Rightarrow> path_buf set \<Rightarrow> patch_op list \<Rightarrow> rstr option" where
  "dup_target env seen [] = None"
| "dup_target env seen (op # ops) =
     (case patch_confine env (op_path op) of
        Inl _ \<Rightarrow> dup_target env seen ops
      | Inr full \<Rightarrow> if full \<in> seen then Some (op_path op) else dup_target env (insert full seen) ops)"

definition read_target :: "patch_env \<Rightarrow> tree \<Rightarrow> rstr \<Rightarrow> path_buf \<Rightarrow> rstr + rstr" where
  "read_target env tree path full =
     (case guard_file_size (map_option length (tree (pe_node env full))) of
        Inl e \<Rightarrow> Inl (''validation failed: '' @ backtick path @ '': '' @ e)
      | Inr _ \<Rightarrow>
          (case (if pe_readable env full then tree (pe_node env full) else None) of
             None \<Rightarrow> Inl (''validation failed: '' @ backtick path @ '': file not found'')
           | Some bytes \<Rightarrow> Inr bytes))"

definition hunk_why :: "hunk_err \<Rightarrow> rstr" where
  "hunk_why e = (case e of Hunk_NotFound \<Rightarrow> ''context not found''
     | Hunk_Ambiguous \<Rightarrow> ''context is not unique '' @ [CHR 0xE2, CHR 0x80, CHR 0x94] @ '' add surrounding context or an @@ hint'')"

definition plan_op :: "patch_env \<Rightarrow> tree \<Rightarrow> patch_op \<Rightarrow> rstr + (plan \<times> bool)" where
  "plan_op env tree op =
     bindR (patch_confine env (op_path op)) (\<lambda>full.
       case op of
         Op_Add path lines \<Rightarrow>
           if tree (pe_node env full) \<noteq> None \<or> pe_dir env full
           then Inl (''validation failed: '' @ backtick path @ '': file exists (use Update File, not Add File)'')
           else Inr (Plan_Add path full (join_with lf lines @ [lf]), True)
       | Op_Update path hunks \<Rightarrow>
           bindR (read_target env tree path full) (\<lambda>bytes.
             case patched bytes hunks of
               Inl (n, e) \<Rightarrow> Inl (''validation failed: '' @ backtick path @ '': hunk '' @ show_nat n @ '': '' @ hunk_why e)
             | Inr (content, changed) \<Rightarrow> Inr (Plan_Update path full content, changed))
       | Op_Delete path \<Rightarrow>
           bindR (read_target env tree path full) (\<lambda>bytes. Inr (Plan_Delete path full bytes, True)))"

fun plan_ops :: "patch_env \<Rightarrow> tree \<Rightarrow> patch_op list \<Rightarrow> rstr + (plan list \<times> nat)" where
  "plan_ops env tree [] = Inr ([], 0)"
| "plan_ops env tree (op # ops) =
     bindR (plan_op env tree op) (\<lambda>(p, c).
     bindR (plan_ops env tree ops) (\<lambda>(ps, n). Inr (p # ps, if c then n + 1 else n)))"

section \<open>Commit\<close>

definition commit_failed :: "rstr \<Rightarrow> rstr \<Rightarrow> rstr \<Rightarrow> rstr \<Rightarrow> rstr" where
  "commit_failed summary what path e = ''committed '' @ summary @ ''but failed '' @ what @ '' '' @ backtick path @ '': '' @ e"

text \<open>One plan: its new summary, or the error, and the tree.\<close>

definition commit_plan :: "patch_env \<Rightarrow> plan \<Rightarrow> rstr \<Rightarrow> tree \<Rightarrow> (rstr + rstr) \<times> tree" where
  "commit_plan env p summary tree =
     (case p of
        Plan_Add path full content \<Rightarrow>
          (case Option.bind (path_parent full) (pe_mkdir env) of
             Some e \<Rightarrow> (Inl (commit_failed summary ''creating'' path e), tree)
           | None \<Rightarrow>
               (case pe_write env full of
                  Some e \<Rightarrow> (Inl (commit_failed summary ''writing'' path e), tree)
                | None \<Rightarrow> (Inr (summary @ ''A '' @ path @ [lf]), tree(pe_node env full := Some content))))
      | Plan_Update path full content \<Rightarrow>
          (case pe_write env full of
             Some e \<Rightarrow> (Inl (commit_failed summary ''writing'' path e), tree)
           | None \<Rightarrow> (Inr (summary @ ''M '' @ path @ [lf]), tree(pe_node env full := Some content)))
      | Plan_Delete path full removed \<Rightarrow>
          (case pe_remove env full of
             Some e \<Rightarrow> (Inl (commit_failed summary ''deleting'' path e), tree)
           | None \<Rightarrow> (Inr (summary @ ''D '' @ path @ [lf] @ concat (map (\<lambda>l. CHR ''-'' # l @ [lf]) (str_lines removed))),
               tree(pe_entry env full := None))))"

fun commit_plans :: "patch_env \<Rightarrow> plan list \<Rightarrow> rstr \<Rightarrow> tree \<Rightarrow> (rstr + rstr) \<times> tree" where
  "commit_plans env [] summary tree = (Inr summary, tree)"
| "commit_plans env (p # ps) summary tree =
     (case commit_plan env p summary tree of
        (Inl e, tree) \<Rightarrow> (Inl e, tree)
      | (Inr summary, tree) \<Rightarrow> commit_plans env ps summary tree)"

definition patch_execute :: "patch_env \<Rightarrow> json \<Rightarrow> tree \<Rightarrow> cs_error + (observation \<times> tree)" where
  "patch_execute env args tree =
     bindR (arg_str args ''patch'') (\<lambda>patch.
       let fail = (\<lambda>m. Inr (Obs_Error m, tree)) in
       (case patch_parse patch of Inl e \<Rightarrow> fail e | Inr ops \<Rightarrow>
       (case dup_target env {} ops of
          Some p \<Rightarrow> fail (backtick p @ '': the same file appears in more than one file operation (possibly under different path spellings); combine them into a single block'')
        | None \<Rightarrow>
       (case plan_ops env tree ops of Inl e \<Rightarrow> fail e | Inr (plans, changes) \<Rightarrow>
          if changes = 0 then fail ''no changes: the patch produced no edits (only context lines?)''
          else
            (case commit_plans env plans [] tree of
               (Inl e, tree) \<Rightarrow> Inr (Obs_Error e, tree)
             | (Inr summary, tree) \<Rightarrow> Inr (Obs_Ok (truncate_output summary), tree))))))"

end
