(* ===== verification/Edit_Exact.thy ===== *)
theory Edit_Exact
  imports Edit_Tool "HOL-Library.Multiset"
begin

text \<open>
  What the editing tool writes: an exact replacement changes the found text and nothing else, a batch
  replaces all its targets at once, a fuzzy match replaces one block of lines, and line endings and
  the byte-order mark survive in files that use one ending throughout.
\<close>

section \<open>Line endings\<close>

text \<open>On one character the replacement works byte by byte.\<close>

lemma split_lf: "split_str [c] s = split_on c s"
  by (induction s) (auto simp: starts_with_def)

lemma intercalate_join: "intercalate [c] ws = join_with c ws"
  by (induction ws rule: join_with.induct[of _ c]) auto

lemma crlf_lf: "crlf = [CHR 0x0D, lf]" and cr_lf: "CHR 0x0D \<noteq> lf"
  by (simp_all add: crlf_def lf_def)

lemma to_crlf_split: "to_crlf s = intercalate crlf (split_on lf s)"
  by (simp only: to_crlf_def str_replace_def split_lf)

lemma matches_char: "str_matches [c] s = length (split_on c s) - 1"
  by (simp only: str_matches_def split_lf)

lemma to_crlf_rec: "to_crlf [] = []" "to_crlf (c # s) = (if c = lf then crlf else [c]) @ to_crlf s"
  using intercalate_grow[of "split_on lf s" crlf c]
  by (auto simp: to_crlf_split intercalate_Cons split: list.splits)

lemma to_crlf_bytes: "to_crlf s = concat (map (\<lambda>c. if c = lf then crlf else [c]) s)"
  by (induction s) (simp_all add: to_crlf_rec)

lemma to_crlf_append: "to_crlf (a @ b) = to_crlf a @ to_crlf b"
  by (simp add: to_crlf_bytes)

text \<open>Every \<open>LF\<close> of the text ends a \<open>CRLF\<close>; no \<open>CRLF\<close> occurs.\<close>

fun all_crlf :: "rstr \<Rightarrow> bool" where
  "all_crlf [] = True"
| "all_crlf [c] = (c \<noteq> lf)"
| "all_crlf (c # d # s) = (if c = CHR 0x0D \<and> d = lf then all_crlf s else c \<noteq> lf \<and> all_crlf (d # s))"

fun no_crlf :: "rstr \<Rightarrow> bool" where
  "no_crlf (c # d # s) = ((c \<noteq> CHR 0x0D \<or> d \<noteq> lf) \<and> no_crlf (d # s))"
| "no_crlf _ = True"

lemma starts_crlf: "starts_with crlf s \<longleftrightarrow> (\<exists>t. s = CHR 0x0D # lf # t)"
  by (auto simp: starts_with_def crlf_def lf_def take_Suc_conv_app_nth) (cases s; cases "tl s"; auto simp: lf_def)

lemma to_lf_rec:
  "to_lf (CHR 0x0D # lf # s) = lf # to_lf s"
  "\<not> starts_with crlf (c # s) \<Longrightarrow> to_lf (c # s) = c # to_lf s"
proof -
  show "to_lf (CHR 0x0D # lf # s) = lf # to_lf s"
    by (simp add: to_lf_def str_replace_def crlf_def starts_with_def lf_def intercalate_Cons)
  assume "\<not> starts_with crlf (c # s)"
  then show "to_lf (c # s) = c # to_lf s"
    using intercalate_grow[of "split_str crlf s" "[lf]" c]
    by (auto simp: to_lf_def str_replace_def split: list.splits)
qed

lemma to_lf_no_crlf: "no_crlf s \<Longrightarrow> to_lf s = s"
proof (induction s rule: no_crlf.induct)
  case (1 c d s)
  then show ?case using to_lf_rec(2)[of c "d # s"] by (simp add: starts_crlf)
qed (simp_all add: to_lf_def str_replace_def starts_with_def crlf_def)

lemma crlf_round: "all_crlf s \<Longrightarrow> to_crlf (to_lf s) = s"
proof (induction s rule: all_crlf.induct)
  case (3 c d s)
  show ?case
  proof (cases "c = CHR 0x0D \<and> d = lf")
    case True
    then show ?thesis using 3 by (simp add: to_lf_rec(1) to_crlf_rec) (simp add: crlf_lf)
  next
    case False
    then show ?thesis using 3 to_lf_rec(2)[of c "d # s"] by (auto simp: starts_crlf to_crlf_bytes)
  qed
qed (simp_all add: to_lf_def str_replace_def starts_with_def crlf_def to_crlf_bytes)

lemma no_crlf_matches: "no_crlf s \<Longrightarrow> str_matches crlf s = 0"
proof (induction s rule: no_crlf.induct)
  case (1 c d s)
  then have "\<not> starts_with crlf (c # d # s)" by (simp add: starts_crlf)
  then show ?case using 1 by (auto simp: str_matches_def split: list.splits)
qed (simp_all add: str_matches_def starts_with_def crlf_def)

lemma all_crlf_matches: "all_crlf s \<Longrightarrow> str_matches crlf s = str_matches [lf] s"
proof (induction s rule: all_crlf.induct)
  case (3 c d s)
  show ?case
  proof (cases "c = CHR 0x0D \<and> d = lf")
    case True
    have "split_str crlf (CHR 0x0D # lf # s) = [] # split_str crlf s" "split_on lf (CHR 0x0D # lf # s) = [CHR 0x0D] # split_on lf s"
      using cr_lf by (simp_all add: crlf_lf starts_with_def)
    moreover have "str_matches crlf s = str_matches [lf] s" using 3 True by simp
    moreover have "split_str crlf s \<noteq> []" "split_on lf s \<noteq> []" by simp_all
    ultimately show ?thesis using True unfolding matches_char unfolding str_matches_def
      by (cases "split_str crlf s"; cases "split_on lf s") (simp_all del: split_str.simps split_on.simps)
  next
    case False
    then have "\<not> starts_with crlf (c # d # s)" "c \<noteq> lf" "str_matches crlf (d # s) = str_matches [lf] (d # s)"
      using 3 by (auto simp: starts_crlf)
    then have "length (split_str crlf (c # d # s)) = length (split_str crlf (d # s))"
      "length (split_on lf (c # d # s)) = length (split_on lf (d # s))"
      by (auto simp del: split_on.simps(2) simp: split_on.simps(2)[of lf c "d # s"] split: list.splits)
    then show ?thesis using \<open>str_matches crlf (d # s) = str_matches [lf] (d # s)\<close>
      unfolding matches_char unfolding str_matches_def by simp
  qed
qed (simp_all add: matches_char, simp_all add: str_matches_def starts_with_def crlf_def)

section \<open>One edit\<close>

lemma matches_pos: "str_matches p s > 0 \<longleftrightarrow> (\<exists>w v ws. split_str p s = w # v # ws)"
  by (cases "split_str p s"; cases "tl (split_str p s)") (auto simp: str_matches_def)

lemma replace1_splice:
  assumes "split_str p s = w # v # ws"
  shows "s = w @ p @ intercalate p (v # ws) \<and> str_replace1 p r s = w @ r @ intercalate p (v # ws)"
  using intercalate_split[of p s] assms by (simp add: str_replace1_def)

lemma single_exact:
  assumes "apply_single content e replace_all fuzzy = Inr (out, n)" "str_matches (to_lf (ed_old e)) content > 0"
  shows "(replace_all \<longrightarrow> (\<exists>ws. content = intercalate (to_lf (ed_old e)) ws \<and> out = intercalate (to_lf (ed_new e)) ws
        \<and> length ws = n + 1))
    \<and> (\<not> replace_all \<longrightarrow> n = 1 \<and> str_matches (to_lf (ed_old e)) content = 1
        \<and> (\<exists>a b. content = a @ to_lf (ed_old e) @ b \<and> out = a @ to_lf (ed_new e) @ b))"
proof -
  obtain w v ws where sp: "split_str (to_lf (ed_old e)) content = w # v # ws"
    using assms(2) matches_pos by blast
  show ?thesis
  proof (cases replace_all)
    case True
    then have "out = intercalate (to_lf (ed_new e)) (w # v # ws)" "n = length (v # ws)"
      using assms sp by (auto simp: apply_single_def Let_def str_replace_def str_matches_def)
    moreover have "content = intercalate (to_lf (ed_old e)) (w # v # ws)"
      using intercalate_split[of "to_lf (ed_old e)" content] sp by simp
    ultimately show ?thesis using True by (metis length_Cons Suc_eq_plus1)
  next
    case False
    then have "out = str_replace1 (to_lf (ed_old e)) (to_lf (ed_new e)) content" "n = 1" "str_matches (to_lf (ed_old e)) content = 1"
      using assms by (auto simp: apply_single_def Let_def split: if_splits)
    then show ?thesis using replace1_splice[OF sp] False by blast
  qed
qed

section \<open>A batch\<close>

text \<open>Gaps and targets, alternating.\<close>

fun weave :: "rstr list \<Rightarrow> rstr list \<Rightarrow> rstr" where
  "weave (g # gs) (x # xs) = g @ x @ weave gs xs"
| "weave (g # gs) [] = g"
| "weave [] xs = []"

definition new_span :: "rstr \<Rightarrow> edit \<Rightarrow> nat \<times> nat \<times> rstr" where
  "new_span content e =
     (let w = hd (split_str (to_lf (ed_old e)) content) in
      (length w, length w + length (to_lf (ed_old e)), to_lf (ed_new e)))"

lemma edit_span_found:
  assumes "edit_span content i e = Inr sp"
  shows "sp = new_span content e \<and> str_matches (to_lf (ed_old e)) content = 1
    \<and> take (length (to_lf (ed_old e))) (drop (fst sp) content) = to_lf (ed_old e) \<and> fst (snd sp) \<le> length content"
proof -
  obtain w v where sp: "split_str (to_lf (ed_old e)) content = [w, v]"
    and eq: "sp = (length w, length w + length (to_lf (ed_old e)), to_lf (ed_new e))"
    using assms by (auto simp: edit_span_def Let_def split: list.splits)
  have "content = w @ to_lf (ed_old e) @ v" using intercalate_split[of "to_lf (ed_old e)" content] sp by simp
  then have "take (length (to_lf (ed_old e))) (drop (length w) content) = to_lf (ed_old e)"
    "length w + length (to_lf (ed_old e)) \<le> length content" by simp_all
  then show ?thesis using sp eq by (simp add: new_span_def str_matches_def)
qed

lemma edit_spans_found:
  "edit_spans content i es = Inr sps \<Longrightarrow> sps = map (new_span content) es
    \<and> (\<forall>e \<in> set es. str_matches (to_lf (ed_old e)) content = 1
        \<and> take (length (to_lf (ed_old e))) (drop (fst (new_span content e)) content) = to_lf (ed_old e)
        \<and> fst (snd (new_span content e)) \<le> length content)"
  by (induction es arbitrary: i sps) (auto simp: bindR_Inr dest!: edit_span_found)

lemma sort_key_map: "sort_key f (map g xs) = map g (sort_key (f \<circ> g) xs)"
proof -
  have "insort_key f (g x) (map g ys) = map g (insort_key (f \<circ> g) x ys)" for x ys by (induction ys) auto
  then show ?thesis by (induction xs) auto
qed

lemma splice_weave:
  assumes "\<forall>e \<in> set es. take (length (to_lf (ed_old e))) (drop (fst (new_span content e)) content) = to_lf (ed_old e)
      \<and> fst (snd (new_span content e)) \<le> length content"
    and "sorted (map (fst \<circ> new_span content) es)" "\<not> spans_overlap (map (new_span content) es)"
    and "\<forall>e \<in> set es. cursor \<le> fst (new_span content e)" "cursor \<le> length content"
  shows "\<exists>gs. length gs = length es + 1 \<and> drop cursor content = weave gs (map (to_lf \<circ> ed_old) es)
    \<and> splice_spans content cursor (map (new_span content) es) = weave gs (map (to_lf \<circ> ed_new) es)"
  using assms
proof (induction es arbitrary: cursor)
  case Nil
  show ?case by (rule exI[of _ "[drop cursor content]"]) simp
next
  case (Cons e es)
  obtain start stop where sp: "new_span content e = (start, stop, to_lf (ed_new e))" "stop = start + length (to_lf (ed_old e))"
    by (auto simp: new_span_def Let_def)
  have here: "take (stop - start) (drop start content) = to_lf (ed_old e)" "stop \<le> length content" "cursor \<le> start"
    using Cons.prems(1,4) sp by auto
  have "\<forall>e' \<in> set es. stop \<le> fst (new_span content e')"
  proof (cases es)
    case (Cons e2 es2)
    then have "stop \<le> fst (new_span content e2)" using Cons.prems(3) sp by simp
    moreover have "\<forall>e' \<in> set es. fst (new_span content e2) \<le> fst (new_span content e')"
      using Cons.prems(2) Cons by auto
    ultimately show ?thesis using le_trans by blast
  qed simp
  moreover have "\<not> spans_overlap (map (new_span content) es)" using Cons.prems(3) by (cases es) auto
  ultimately obtain gs where gs: "length gs = length es + 1" "drop stop content = weave gs (map (to_lf \<circ> ed_old) es)"
    "splice_spans content stop (map (new_span content) es) = weave gs (map (to_lf \<circ> ed_new) es)"
    using Cons.IH[of stop] Cons.prems(1,2) here(2) by (auto simp: comp_def)
  let ?g = "take (start - cursor) (drop cursor content)"
  have "drop cursor content = ?g @ drop start content"
    using here(3) by (metis append_take_drop_id drop_drop le_add_diff_inverse2)
  also have "drop start content = to_lf (ed_old e) @ drop stop content"
    using here(1) sp(2) by (metis append_take_drop_id diff_add_inverse drop_drop add.commute)
  finally show ?case
    using gs sp by (intro exI[of _ "?g # gs"]) (simp add: comp_def)
qed

lemma batch_exact:
  assumes "apply_multi content edits = Inr (out, n)"
  shows "n = length edits \<and> (\<forall>e \<in> set edits. str_matches (to_lf (ed_old e)) content = 1)
    \<and> (\<exists>es gs. mset es = mset edits \<and> length gs = length es + 1
        \<and> content = weave gs (map (to_lf \<circ> ed_old) es) \<and> out = weave gs (map (to_lf \<circ> ed_new) es))"
proof -
  obtain sps where sps: "edit_spans content 0 edits = Inr sps" "\<not> spans_overlap (sort_key fst sps)"
    "out = splice_spans content 0 (sort_key fst sps)" "n = length sps"
    using assms by (auto simp: apply_multi_def bindR_Inr Let_def split: if_splits)
  note found = edit_spans_found[OF sps(1)]
  define es where "es = sort_key (fst \<circ> new_span content) edits"
  have sorted: "sort_key fst sps = map (new_span content) es"
    using found by (simp add: es_def sort_key_map)
  have "\<forall>e \<in> set es. take (length (to_lf (ed_old e))) (drop (fst (new_span content e)) content) = to_lf (ed_old e)
      \<and> fst (snd (new_span content e)) \<le> length content"
    using found by (simp add: es_def)
  moreover have "sorted (map (fst \<circ> new_span content) es)" by (simp add: es_def)
  ultimately obtain gs where "length gs = length es + 1" "drop 0 content = weave gs (map (to_lf \<circ> ed_old) es)"
    "splice_spans content 0 (map (new_span content) es) = weave gs (map (to_lf \<circ> ed_new) es)"
    using splice_weave[of es content 0] sps(2) sorted by auto
  moreover have "mset es = mset edits" unfolding es_def by (rule mset_sort)
  moreover have "n = length edits" using found sps(4) by simp
  ultimately show ?thesis using found sps(3) sorted by auto
qed

section \<open>A fuzzy match\<close>

lemma block_hit:
  assumes "i \<in> set (block_hits hay want)"
  shows "take (length want) (drop i hay) = want"
  using assms by (auto simp: block_hits_def split: if_splits)

lemma fuzzy_levels_local:
  "fuzzy_levels levels lines old new = Inr (out, n) \<Longrightarrow>
     n = 1 \<and> (\<exists>level a block repl b. level \<in> set levels \<and> lines = a @ block @ b \<and> out = join_with lf (a @ repl @ b)
       \<and> map (norm_line level) block = map (norm_line level) (split_on lf old)
       \<and> block_hits (map (norm_line level) lines) (map (norm_line level) block) = [length a]
       \<and> repl = (case level of Fold \<Rightarrow> split_on lf new | Collapse \<Rightarrow> reindent new (leading_ws (hd block))))"
proof (induction levels lines old new rule: fuzzy_levels.induct)
  case (2 level levels lines old new)
  let ?want = "map (norm_line level) (split_on lf old)"
  let ?hits = "block_hits (map (norm_line level) lines) ?want"
  have fits: "\<not> (?want = [] \<or> length ?want > length lines)" using 2(2) by (auto simp: Let_def split: if_splits)
  consider "?hits = []" | i where "?hits = [i]" | i j k where "?hits = i # j # k"
    by (cases ?hits; cases "tl ?hits") auto
  then show ?case
  proof cases
    case 1
    then have "fuzzy_levels levels lines old new = Inr (out, n)" using 2(2) fits by (simp add: Let_def)
    from 2(1)[OF refl fits 1 this] show ?thesis by auto
  next
    case (2 i)
    define block where "block = take (length ?want) (drop i lines)"
    have "take (length ?want) (drop i (map (norm_line level) lines)) = ?want" using 2 by (intro block_hit) simp
    then have block: "map (norm_line level) block = ?want" by (simp add: block_def take_map drop_map)
    have i: "i \<le> length lines" using fits arg_cong[OF 2, of "\<lambda>xs. i \<in> set xs"] by (auto simp: block_hits_def split: if_splits)
    have "block \<noteq> []" using block fits by auto
    then have hd: "hd block = lines ! i" using i by (auto simp: block_def hd_drop_conv_nth)
    define a b repl where "a = take i lines" and "b = drop (i + length ?want) lines"
      and "repl = (case level of Fold \<Rightarrow> split_on lf new | Collapse \<Rightarrow> reindent new (leading_ws (hd block)))"
    have "lines = a @ block @ b"
      using append_take_drop_id[of i lines] append_take_drop_id[of "length ?want" "drop i lines"]
      by (simp add: block_def a_def b_def add.commute del: append_take_drop_id)
    moreover have "out = join_with lf (a @ repl @ b)" "n = 1"
      using 2 \<open>fuzzy_levels (level # levels) lines old new = Inr (out, n)\<close> fits hd
      by (simp_all add: Let_def a_def b_def repl_def split: fuzz_level.splits)
    moreover have "block_hits (map (norm_line level) lines) (map (norm_line level) block) = [length a]"
      using 2 block i by (simp add: a_def)
    ultimately show ?thesis using block unfolding repl_def by (metis list.set_intros(1))
  next
    case (3 i j k)
    then show ?thesis using \<open>fuzzy_levels (level # levels) lines old new = Inr (out, n)\<close> fits by (simp add: Let_def)
  qed
qed simp

section \<open>The call\<close>

definition encode_body :: "rstr \<Rightarrow> rstr \<Rightarrow> rstr" where
  "encode_body body s = (if is_crlf_dominant body then to_crlf s else s)"

definition one_ending :: "rstr \<Rightarrow> bool" where
  "one_ending body \<longleftrightarrow> no_crlf body \<or> all_crlf body"

lemma no_match_same: "str_matches p s = 0 \<Longrightarrow> str_replace p r s = s"
  using intercalate_split[of p s] by (cases "split_str p s"; cases "tl (split_str p s)") (auto simp: str_matches_def str_replace_def)

lemma uniform_round: "one_ending body \<Longrightarrow> encode_body body (to_lf body) = body"
proof (cases "str_matches crlf body = 0")
  case True
  assume "one_ending body"
  then show ?thesis using True no_match_same[of crlf body "[lf]"] by (simp add: encode_body_def is_crlf_dominant_def to_lf_def)
next
  case False
  assume "one_ending body"
  then have "all_crlf body" using False no_crlf_matches by (auto simp: one_ending_def)
  then show ?thesis using False all_crlf_matches crlf_round by (simp add: encode_body_def is_crlf_dominant_def)
qed

lemma encode_append: "encode_body body (a @ b) = encode_body body a @ encode_body body b"
  by (simp add: encode_body_def to_crlf_append)

lemma encode_weave:
  "length gs = length xs + 1 \<Longrightarrow>
     encode_body body (weave gs xs) = weave (map (encode_body body) gs) (map (encode_body body) xs)"
proof (induction gs xs rule: weave.induct)
  case (1 g gs x xs)
  then show ?case by (simp add: encode_append)
qed simp_all

lemma intercalate_weave: "ws \<noteq> [] \<Longrightarrow> intercalate p ws = weave ws (replicate (length ws - 1) p)"
  by (induction p ws rule: intercalate.induct) auto

lemma content_weave:
  assumes "edit_content edits multi all fuzzy bytes = Inr (out, n)" "one_ending (snd (split_bom bytes))"
    and "edits \<noteq> []" "multi \<or> str_matches (to_lf (ed_old (hd edits))) (to_lf (snd (split_bom bytes))) > 0"
  shows "\<exists>mark enc es gs. length gs = length es + 1 \<and> set es \<subseteq> set edits \<and> n = length es
    \<and> (multi \<longrightarrow> mset es = mset edits) \<and> (\<not> multi \<and> \<not> all \<longrightarrow> es = [hd edits])
    \<and> (mark = [] \<or> mark = bom) \<and> (enc = (\<lambda>s. s) \<or> enc = to_crlf)
    \<and> bytes = mark @ weave gs (map (enc \<circ> to_lf \<circ> ed_old) es)
    \<and> out = mark @ weave gs (map (enc \<circ> to_lf \<circ> ed_new) es)"
proof -
  obtain has_bom body where b: "split_bom bytes = (has_bom, body)" by fastforce
  define mark where "mark = (if has_bom then bom else [])"
  define enc where "enc = encode_body body"
  have bytes: "bytes = mark @ body"
    using b by (auto simp: split_bom_def mark_def strip_prefix_Some split: option.splits)
  let ?c = "to_lf body"
  obtain new where new: "(if multi then apply_multi ?c edits else apply_single ?c (hd edits) all fuzzy) = Inr (new, n)"
    "out = mark @ enc new"
    using assms(1) b by (auto simp: edit_content_def bindR_Inr Let_def mark_def enc_def encode_body_def split: if_splits)
  have "\<exists>es gs. length gs = length es + 1 \<and> set es \<subseteq> set edits \<and> n = length es
    \<and> (multi \<longrightarrow> mset es = mset edits) \<and> (\<not> multi \<and> \<not> all \<longrightarrow> es = [hd edits])
    \<and> ?c = weave gs (map (to_lf \<circ> ed_old) es) \<and> new = weave gs (map (to_lf \<circ> ed_new) es)"
  proof (cases multi)
    case True
    then have "apply_multi ?c edits = Inr (new, n)" using new(1) by simp
    from batch_exact[OF this] obtain es gs where "n = length edits" "mset es = mset edits" "length gs = length es + 1"
      "?c = weave gs (map (to_lf \<circ> ed_old) es)" "new = weave gs (map (to_lf \<circ> ed_new) es)" by blast
    moreover have "set es = set edits" "length es = length edits"
      using \<open>mset es = mset edits\<close> by (metis set_mset_mset, metis size_mset)
    ultimately show ?thesis using True by (intro exI[of _ es] exI[of _ gs]) simp
  next
    case False
    let ?o = "to_lf (ed_old (hd edits))" and ?n = "to_lf (ed_new (hd edits))"
    have "apply_single ?c (hd edits) all fuzzy = Inr (new, n)" "str_matches ?o ?c > 0" using new(1) assms(4) False b by simp_all
    note ex = single_exact[OF this]
    show ?thesis
    proof (cases all)
      case True
      then obtain ws where ws: "?c = intercalate ?o ws" "new = intercalate ?n ws" "length ws = n + 1" using ex by blast
      then have "ws \<noteq> []" by auto
      then show ?thesis using ws assms(3) True False intercalate_weave[of ws]
        by (intro exI[of _ "replicate n (hd edits)"] exI[of _ ws]) (auto simp: map_replicate_const comp_def)
    next
      case all: False
      then obtain a d where "?c = a @ ?o @ d" "new = a @ ?n @ d" "n = 1" using ex by blast
      then show ?thesis using False all assms(3)
        by (intro exI[of _ "[hd edits]"] exI[of _ "[a, d]"]) simp
    qed
  qed
  then obtain es gs where es: "length gs = length es + 1" "set es \<subseteq> set edits" "n = length es"
    "multi \<longrightarrow> mset es = mset edits" "\<not> multi \<and> \<not> all \<longrightarrow> es = [hd edits]"
    "?c = weave gs (map (to_lf \<circ> ed_old) es)" "new = weave gs (map (to_lf \<circ> ed_new) es)" by blast
  have "body = enc ?c" using uniform_round assms(2) b by (simp add: enc_def)
  then have "bytes = mark @ weave (map enc gs) (map (enc \<circ> to_lf \<circ> ed_old) es)"
    "out = mark @ weave (map enc gs) (map (enc \<circ> to_lf \<circ> ed_new) es)"
    using bytes new(2) es(1,6,7) encode_weave[of gs "map (to_lf \<circ> ed_old) es" body]
      encode_weave[of gs "map (to_lf \<circ> ed_new) es" body] by (simp_all add: enc_def comp_assoc)
  moreover have "mark = [] \<or> mark = bom" by (simp add: mark_def)
  moreover have "enc = (\<lambda>s. s) \<or> enc = to_crlf" by (auto simp: enc_def encode_body_def fun_eq_iff)
  ultimately show ?thesis using es by (metis length_map)
qed

lemma parse_edits_length: "parse_edits i items = Inr es \<Longrightarrow> length es = length items"
  by (induction items arbitrary: i es) (auto simp: bindR_Inr validate_edit_def split: if_splits)

lemma gathered_shape:
  assumes "gather_edits args = Inr (Inr (edits, multi))"
  shows "edits \<noteq> []"
proof (cases "json_get ''edits'' args")
  case None
  then show ?thesis using assms by (auto simp: gather_edits_def bindR_Inr)
next
  case (Some v)
  then obtain x xs where "parse_edits 0 (x # xs) = Inr edits"
    using assms by (auto simp: gather_edits_def bindR_Inr parse_multi_def simp del: parse_edits.simps split: option.splits list.splits)
  from parse_edits_length[OF this] show ?thesis by auto
qed

lemma execute_parts:
  assumes "edit_execute canon symlink cwd io args = Inr (Obs_Ok m, Some (full, out))"
  shows "\<exists>path edits multi bytes n. arg_str args ''path'' = Inr path \<and> gather_edits args = Inr (Inr (edits, multi))
    \<and> confine canon symlink cwd path = Inr full \<and> io_read io = Inr bytes \<and> io_write io = None
    \<and> edit_content edits multi (arg_bool args ''replace_all'' False) (arg_bool args ''fuzzy'' False) bytes = Inr (out, n)
    \<and> (\<forall>current. io_reread io = Inr current \<longrightarrow> current = bytes)"
proof -
  obtain path g where g: "arg_str args ''path'' = Inr path" "gather_edits args = Inr g"
    using assms by (auto simp: edit_execute_def bindR_Inr)
  note run = assms[unfolded edit_execute_def g bindR.simps Let_def]
  obtain edits multi where e: "g = Inr (edits, multi)" using run by (cases g) auto
  note run = run[unfolded e sum.case prod.case]
  obtain full' where c: "confine canon symlink cwd path = Inr full'"
    using run by (cases "confine canon symlink cwd path") simp_all
  note run = run[unfolded c sum.case]
  obtain u where u: "guard_file_size (io_size io) = Inr u" using run by (cases "guard_file_size (io_size io)") simp_all
  note run = run[unfolded u sum.case]
  obtain bytes where r: "io_read io = Inr bytes" using run by (cases "io_read io") simp_all
  note run = run[unfolded r sum.case]
  obtain out' n where ed: "edit_content edits multi (arg_bool args ''replace_all'' False) (arg_bool args ''fuzzy'' False) bytes = Inr (out', n)"
    using run by (cases "edit_content edits multi (arg_bool args ''replace_all'' False) (arg_bool args ''fuzzy'' False) bytes") auto
  note run = run[unfolded ed sum.case prod.case]
  have "\<forall>current. io_reread io = Inr current \<longrightarrow> current = bytes" "io_write io = None" "full = full'" "out = out'"
    using run by (auto split: if_splits option.splits)
  then show ?thesis using g e c r ed by blast
qed

lemma target_counts:
  assumes "edit_content edits multi all fuzzy bytes = Inr (out, n)"
    and "multi \<or> str_matches (to_lf (ed_old (hd edits))) (to_lf (snd (split_bom bytes))) > 0"
  shows "(multi \<longrightarrow> (\<forall>e \<in> set edits. str_matches (to_lf (ed_old e)) (to_lf (snd (split_bom bytes))) = 1))
    \<and> (\<not> multi \<longrightarrow> str_matches (to_lf (ed_old (hd edits))) (to_lf (snd (split_bom bytes))) = n \<and> (all \<or> n = 1))"
proof -
  obtain has_bom body where b: "split_bom bytes = (has_bom, body)" by fastforce
  obtain new where "(if multi then apply_multi (to_lf body) edits else apply_single (to_lf body) (hd edits) all fuzzy) = Inr (new, n)"
    using assms(1) b by (auto simp: edit_content_def bindR_Inr Let_def split: if_splits)
  then show ?thesis
    using assms(2) b
    by (auto simp: apply_multi_def apply_single_def bindR_Inr Let_def dest!: edit_spans_found split: if_splits)
qed



section \<open>Runs\<close>

definition batch_args :: json where
  "batch_args = J_Obj [(''edits'', J_Arr
      [J_Obj [(''new_string'', J_Str ''C''), (''old_string'', J_Str ''c'')],
       J_Obj [(''new_string'', J_Str [CHR ''A'', lf, CHR ''B'']), (''old_string'', J_Str [CHR ''a'', lf])]]),
     (''path'', J_Str ''f'')]"

definition batch_bytes :: rstr where "batch_bytes = bom @ ''a'' @ crlf @ ''b'' @ crlf @ ''c'' @ crlf"

definition batch_io :: edit_io where
  "batch_io = \<lparr>io_size = Some 12, io_read = Inr batch_bytes, io_reread = Inr batch_bytes, io_write = None\<rparr>"

lemma batch_run:
  "edit_execute Inr (\<lambda>_. False) [C_Root] batch_io batch_args = Inr (Obs_Ok (''edited '' @ backtick ''f'' @ '' (2 replacements)''),
     Some ([C_Root, C_Normal ''f''], bom @ ''A'' @ crlf @ ''Bb'' @ crlf @ ''C'' @ crlf))"
  by code_simp

text \<open>A file of mixed endings is rewritten line by line; overlapping occurrences count once.\<close>

lemma mixed_endings_rewritten:
  "edit_content [\<lparr>ed_old = ''d'', ed_new = ''e''\<rparr>] False False False (''a'' @ crlf @ ''b'' @ [lf] @ ''d'')
     = Inr (''a'' @ [lf] @ ''b'' @ [lf] @ ''e'', 1)"
  by code_simp

lemma overlap_counts_once:
  "apply_single ''aaa'' \<lparr>ed_old = ''aa'', ed_new = ''b''\<rparr> False False = Inr (''ba'', 1)"
  by code_simp

lemma batch_gathered:
  "gather_edits batch_args = Inr (Inr ([\<lparr>ed_old = ''c'', ed_new = ''C''\<rparr>, \<lparr>ed_old = [CHR ''a'', lf], ed_new = [CHR ''A'', lf, CHR ''B'']\<rparr>], True))"
  by code_simp


definition indented :: rstr where
  "indented = ''f:'' @ [lf] @ ''    if x:'' @ [lf] @ ''      y'' @ [lf]"

definition indent_edit :: edit where
  "indent_edit = \<lparr>ed_old = ''if x:'' @ [lf] @ ''  y'', ed_new = ''if z:'' @ [lf] @ ''  y''\<rparr>"

lemma fuzzy_run:
  "apply_single indented indent_edit False True = Inr (''f:'' @ [lf] @ ''    if z:'' @ [lf] @ ''      y'' @ [lf], 1)"
  by code_simp


end
