(* ===== verification/Patch_Exact.thy ===== *)
theory Patch_Exact
  imports Patch_Tool Edit_Exact
begin

text \<open>
  What a patch does: a hunk replaces one block of lines; a patch either changes nothing or does exactly
  what its operations say, each computed from the tree it found; and the envelope is read back from its
  printed form.
\<close>

section \<open>Hunks\<close>

lemma find_Some_in: "find P xs = Some x \<Longrightarrow> x \<in> set xs \<and> P x"
  by (auto simp: find_Some_iff)

lemma find_block_hit:
  assumes "find_block hay needle eof hint = Inr i"
  shows "i \<in> set (block_hits hay needle) \<and> (hint = None \<and> \<not> eof \<longrightarrow> block_hits hay needle = [i])"
proof -
  let ?ms = "block_hits hay needle"
  have ne: "?ms \<noteq> []" using assms by (auto simp: find_block_def Let_def split: if_splits)
  have fallback: "i \<in> set ?ms" if "(if eof then Inr (last ?ms) else if length ?ms > 1 then Inl Hunk_Ambiguous else Inr (hd ?ms)) = Inr i"
    using that ne by (auto split: if_splits)
  have single: "?ms = [i]" if "hint = None" "\<not> eof"
    using assms that ne by (cases ?ms) (auto simp: find_block_def Let_def split: if_splits)
  show ?thesis
    using assms fallback single by (auto simp: find_block_def Let_def split: if_splits option.splits dest: find_Some_in)
qed

lemma block_hit_split:
  assumes "i \<in> set (block_hits hay needle)" "length needle \<le> length hay"
  shows "hay = take i hay @ needle @ drop (i + length needle) hay \<and> i \<le> length hay"
proof -
  have "take (length needle) (drop i hay) = needle" using block_hit[OF assms(1)] .
  moreover have "i \<le> length hay" using assms by (auto simp: block_hits_def split: if_splits)
  ultimately show ?thesis
    using append_take_drop_id[of i hay] append_take_drop_id[of "length needle" "drop i hay"]
    by (simp add: add.commute del: append_take_drop_id)
qed

lemma find_block_fits: "find_block hay needle eof hint = Inr i \<Longrightarrow> length needle \<le> length hay"
  by (auto simp: find_block_def split: if_splits)


section \<open>All or nothing\<close>

text \<open>What an operation asks of the file it names, in the tree the patch found.\<close>

definition op_result :: "patch_env \<Rightarrow> tree \<Rightarrow> patch_op \<Rightarrow> path_buf \<Rightarrow> rstr option \<Rightarrow> bool" where
  "op_result env tree op full after \<longleftrightarrow>
     (case op of
        Op_Add path lines \<Rightarrow> tree (pe_node env full) = None \<and> after = Some (join_with lf lines @ [lf])
      | Op_Update path hunks \<Rightarrow>
          (\<exists>bytes content c. tree (pe_node env full) = Some bytes \<and> patched bytes hunks = Inr (content, c) \<and> after = Some content)
      | Op_Delete path \<Rightarrow> tree (pe_node env full) \<noteq> None \<and> after = None)"

text \<open>Every file operation succeeds, and no target is a symlink or reached through two paths.\<close>

definition plain_targets :: "patch_env \<Rightarrow> patch_op list \<Rightarrow> bool" where
  "plain_targets env ops \<longleftrightarrow>
     (\<forall>p. pe_mkdir env p = None \<and> pe_write env p = None \<and> pe_remove env p = None)
     \<and> (\<forall>op \<in> set ops. \<forall>full. patch_confine env (op_path op) = Inr full \<longrightarrow> pe_entry env full = pe_node env full)
     \<and> (\<forall>op \<in> set ops. \<forall>op' \<in> set ops. \<forall>full full'. patch_confine env (op_path op) = Inr full \<longrightarrow>
          patch_confine env (op_path op') = Inr full' \<longrightarrow> pe_node env full = pe_node env full' \<longrightarrow> full = full')"

fun plan_target :: "plan \<Rightarrow> path_buf" where
  "plan_target (Plan_Add path full content) = full"
| "plan_target (Plan_Update path full content) = full"
| "plan_target (Plan_Delete path full bytes) = full"

fun plan_after :: "plan \<Rightarrow> rstr option" where
  "plan_after (Plan_Add path full content) = Some content"
| "plan_after (Plan_Update path full content) = Some content"
| "plan_after (Plan_Delete path full bytes) = None"

lemma read_target_ok: "read_target env tree path full = Inr bytes \<Longrightarrow> tree (pe_node env full) = Some bytes"
  by (auto simp: read_target_def split: sum.splits option.splits if_splits)

lemma plan_op_ok:
  assumes "plan_op env tree op = Inr (p, c)"
  shows "patch_confine env (op_path op) = Inr (plan_target p) \<and> op_result env tree op (plan_target p) (plan_after p)"
proof -
  obtain full where full: "patch_confine env (op_path op) = Inr full" using assms by (auto simp: plan_op_def bindR_Inr)
  show ?thesis
  proof (cases op)
    case (Op_Update path hunks)
    then obtain bytes where r: "read_target env tree path full = Inr bytes"
      using assms full by (auto simp: plan_op_def bindR_Inr)
    obtain content ch where "patched bytes hunks = Inr (content, ch)"
      using assms full r Op_Update by (cases "patched bytes hunks") (auto simp: plan_op_def)
    moreover from this have "p = Plan_Update path full content" using assms full r Op_Update by (simp add: plan_op_def)
    ultimately show ?thesis using full Op_Update read_target_ok[OF r] by (simp add: op_result_def)
  qed (use assms full in \<open>auto simp: plan_op_def bindR_Inr op_result_def dest!: read_target_ok split: if_splits\<close>)
qed

lemma plan_ops_ok:
  "plan_ops env tree ops = Inr (ps, n) \<Longrightarrow>
     list_all2 (\<lambda>op p. patch_confine env (op_path op) = Inr (plan_target p) \<and> op_result env tree op (plan_target p) (plan_after p)) ops ps"
  by (induction ops arbitrary: ps n) (auto simp: bindR_Inr dest!: plan_op_ok)

text \<open>No two operations of an accepted patch name one confined path.\<close>

lemma dup_target_none:
  "dup_target env seen ops = None \<Longrightarrow>
     list_all2 (\<lambda>op p. patch_confine env (op_path op) = Inr (plan_target p)) ops ps \<Longrightarrow>
     distinct (map plan_target ps) \<and> plan_target ` set ps \<inter> seen = {}"
proof (induction ops arbitrary: ps seen)
  case (Cons op ops)
  then obtain p ps' where p: "ps = p # ps'" "patch_confine env (op_path op) = Inr (plan_target p)"
    "list_all2 (\<lambda>op p. patch_confine env (op_path op) = Inr (plan_target p)) ops ps'"
    by (auto simp: list_all2_Cons1)
  have "plan_target p \<notin> seen" "dup_target env (insert (plan_target p) seen) ops = None"
    using Cons.prems(1) p(2) by (auto split: if_splits)
  then show ?case using Cons.IH[OF _ p(3)] p(1) by auto
qed simp

definition write_plan :: "patch_env \<Rightarrow> plan \<Rightarrow> tree \<Rightarrow> tree" where
  "write_plan env p t = t(pe_node env (plan_target p) := plan_after p)"

lemma write_plan_apply: "write_plan env p t k = (if k = pe_node env (plan_target p) then plan_after p else t k)"
  by (simp add: write_plan_def)

lemma list_all2_left: "list_all2 P xs ys \<Longrightarrow> x \<in> set xs \<Longrightarrow> \<exists>y \<in> set ys. P x y"
  by (induction rule: list_all2_induct) auto

lemma list_all2_right: "list_all2 P xs ys \<Longrightarrow> y \<in> set ys \<Longrightarrow> \<exists>x \<in> set xs. P x y"
  by (induction rule: list_all2_induct) auto

lemma commit_plans_all:
  assumes "\<And>p. pe_mkdir env p = None \<and> pe_write env p = None \<and> pe_remove env p = None"
    and "\<forall>p \<in> set ps. pe_entry env (plan_target p) = pe_node env (plan_target p)"
  shows "\<exists>summary'. commit_plans env ps summary tree = (Inr summary',
    fold (write_plan env) ps tree)"
  using assms(2)
proof (induction ps arbitrary: summary tree)
  case (Cons p ps)
  have "\<exists>s. commit_plan env p summary tree = (Inr s, write_plan env p tree)"
    using Cons.prems assms(1) by (cases p) (auto simp: commit_plan_def write_plan_def split: option.splits bind_splits)
  then show ?case using Cons by auto
qed simp

lemma fold_upd_other: "k \<notin> (\<lambda>p. pe_node env (plan_target p)) ` set ps \<Longrightarrow>
    fold (write_plan env) ps tree k = tree k"
  by (induction ps arbitrary: tree) (auto simp: write_plan_apply)

lemma fold_upd_at: "distinct (map (\<lambda>p. pe_node env (plan_target p)) ps) \<Longrightarrow> p \<in> set ps \<Longrightarrow>
    fold (write_plan env) ps tree (pe_node env (plan_target p)) = plan_after p"
proof (induction ps arbitrary: tree)
  case (Cons q ps)
  show ?case
  proof (cases "p = q")
    case True
    have "fold (write_plan env) ps (write_plan env q tree) (pe_node env (plan_target q)) = write_plan env q tree (pe_node env (plan_target q))"
      using Cons.prems(1) by (intro fold_upd_other) simp
    then show ?thesis using True by (simp only: fold_simps) (simp add: write_plan_def)
  next
    case False
    then have "fold (write_plan env) ps (write_plan env q tree) (pe_node env (plan_target p)) = plan_after p"
      using Cons by simp
    then show ?thesis by (simp only: fold_simps)
  qed
qed simp


section \<open>Runs\<close>

definition patch_args :: "rstr list \<Rightarrow> json" where
  "patch_args lines = J_Obj [(''patch'', J_Str (join_with lf lines))]"

definition demo_path :: "rstr list \<Rightarrow> path_buf" where
  "demo_path names = C_Root # map C_Normal names"

definition link_node :: "path_buf \<Rightarrow> path_buf" where
  "link_node p = (if p = demo_path [''l'', ''f''] then demo_path [''d'', ''f''] else p)"

definition patch_demo :: "(path_buf \<Rightarrow> path_buf) \<Rightarrow> patch_env" where
  "patch_demo node = \<lparr>pe_canon = (\<lambda>p. Inr (node p)), pe_symlink = (\<lambda>_. False), pe_cwd = demo_path [], pe_node = node, pe_entry = node,
     pe_dir = (\<lambda>_. False), pe_readable = (\<lambda>_. True), pe_mkdir = (\<lambda>_. None), pe_write = (\<lambda>_. None), pe_remove = (\<lambda>_. None)\<rparr>"

definition demo_tree :: tree where
  "demo_tree p = (if p = demo_path [''d'', ''f''] then Some (''a'' @ [lf] @ ''b'' @ [lf])
     else if p = demo_path [''r''] then Some ''x'' else None)"

definition three_ops :: json where
  "three_ops = patch_args [''*** Begin Patch'', ''*** Add File: n'', ''+new'', ''*** Update File: d/f'', ''@@'', ''-b'', ''+c'',
     ''*** Delete File: r'', ''*** End Patch'']"

lemma three_ops_run:
  "case patch_execute (patch_demo (\<lambda>p. p)) three_ops demo_tree of
     Inr (Obs_Ok m, tree) \<Rightarrow> tree (demo_path [''d'', ''f'']) = Some (''a'' @ [lf] @ ''c'' @ [lf])
       \<and> tree (demo_path [''n'']) = Some (''new'' @ [lf]) \<and> tree (demo_path [''r'']) = None
   | _ \<Rightarrow> False"
  by code_simp

text \<open>
  Two spellings through a symlinked directory (\<open>l\<close> links to \<open>d\<close>) are one file: the second update starts
  from the file as it was and overwrites the first.
\<close>

lemma symlink_alias_drops_edit:
  "case patch_execute (patch_demo link_node)
      (patch_args [''*** Begin Patch'', ''*** Update File: l/f'', ''-a'', ''+A'', ''*** Update File: d/f'', ''-b'', ''+B'', ''*** End Patch''])
      demo_tree of
     Inr (Obs_Ok m, tree) \<Rightarrow> tree (demo_path [''d'', ''f'']) = Some (''a'' @ [lf] @ ''B'' @ [lf])
   | _ \<Rightarrow> False"
  by code_simp

text \<open>A patch cut off before its end marker is accepted.\<close>

lemma unterminated_patch_accepted:
  "patch_parse (join_with lf [''*** Begin Patch'', ''*** Delete File: r'']) = Inr [Op_Delete ''r'']"
  by code_simp

lemma plain_demo: "plain_targets (patch_demo (\<lambda>p. p)) ops"
  by (simp add: plain_targets_def patch_demo_def)


definition demo_hunk :: hunk where
  "demo_hunk = \<lparr>hk_hint = None, hk_lines = [(CHR '' '', ''a''), (CHR ''-'', ''b''), (CHR ''+'', ''c'')], hk_eof = False\<rparr>"

lemma demo_hunk_run: "apply_hunk [''x'', ''a'', ''b''] demo_hunk = Inr ([''x'', ''a'', ''c''], True)"
  by code_simp


end
