(* ===== verification/Spec2Isabelle.thy ===== *)
theory Spec2Isabelle
  imports Store_Idempotence Bindings Pace Graph_Demo Post_Once Jobs_Driver Patch_Exact
begin

text \<open>
  Verification of the decision core of agent-seddon, a fleet of coding agents written in Rust
  (\<open>src/crates\<close>).

  The program. A campaign is a tree of tasks that planners decompose, workers carry out and
  reviewers judge; a transactional store keeps it (\<open>agent-core/src/campaign\<close>,
  \<open>agent-testkit/src/campaign/mem.rs\<close>, the reference implementation of the seam). Callers are
  authorized by roles and bindings (\<open>agent-core/src/rbac.rs\<close>, \<open>agent-grpc/src/server/auth\<close>). Cards of
  all kinds (roles, jobs, rosters, leases) live in a config store with interchangeable backends
  (\<open>agent-config-store\<close>). The review fleet posts a review at most once by taking a lease in that
  store (\<open>agent-review-fleet/src/lease.rs\<close>, \<open>agent-runtime/src/agent.rs\<close>), and reaches the forge
  through a pacer (\<open>agent-forge/src/pace.rs\<close>) and a retry policy (\<open>agent-retry\<close>). Jobs fire on
  schedules (\<open>agent-scheduler/src/schedule.rs\<close>); a scheduler in memory (\<open>lib.rs\<close>) or over the config
  store (\<open>store.rs\<close>) claims them, driven for all tenants by \<open>agent-runtime/src/scheduler_driver.rs\<close>.
  A turn may be shaped by a cognition graph, a document checked against a registry of node types
  (\<open>agent-graph\<close>). Agents change files with an edit tool and a patch tool
  (\<open>agent-tools/src/edit.rs\<close>, \<open>patch.rs\<close>).

  Theories, in the order they build on each other.

  \<^item> \<open>Prelude\<close>: results and their rules, the state-and-error monad of the store and its Hoare
    triples, ordered maps (\<open>BTreeMap\<close>) as sorted association lists, Rust strings as bytes with their
    chars, number parsing and printing, saturating arithmetic.
  \<^item> \<open>Task_Rules\<close>, \<open>Task_Path\<close>, \<open>Task_Policy\<close>, \<open>Campaign\<close>: the campaign vocabulary and its
    transition table, the path grammar, the policy document, and the checks and keys of the seam
    (\<open>rules.rs\<close>, \<open>path.rs\<close>, \<open>policy.rs\<close>, \<open>mod.rs\<close>).
  \<^item> \<open>Campaign_Store\<close>: the store, one definition per operation of \<open>mem.rs\<close>; \<open>Store_Relations\<close>,
    \<open>Store_Invariant\<close>, \<open>Store_Evolution\<close>, \<open>Store_Audit\<close>, \<open>Store_Progress\<close>, \<open>Store_Idempotence\<close>: the row
    moves each operation is made of, the invariant of reachable stores, what calls never do to rows
    and to other tenants, the audit log as a replayable history, the calls that always commit, and
    the keys that make a plan apply once. \<open>Store_Demo\<close> holds a concrete history.
  \<^item> \<open>Segments\<close>, \<open>Security\<close>: path-safe names and session keys (\<open>identity.rs\<close>), address classes and
    path confinement (\<open>security.rs\<close>).
  \<^item> \<open>Rbac\<close>, \<open>Bindings\<close>: roles, authorization and role writes; bindings, role resolution and the
    checks of the binding service.
  \<^item> \<open>Retry\<close>, \<open>Pace\<close>: bounded backoff; rate-limit gates and the conditional-request cache.
  \<^item> \<open>Schedule\<close>, \<open>Calendar\<close>: schedule expressions and the next fire; the civil clock against a
    calendar counted day by day.
  \<^item> \<open>Graph_Schema\<close>, \<open>Graph_Validate\<close>: the graph document, the node types and their parameter schemas;
    validation. \<open>Graph_Acyclic\<close>, \<open>Graph_Branches\<close>: Kahn's loop against reachability, and the fork and
    join structure of accepted documents. \<open>Graph_Demo\<close> holds concrete documents.
  \<^item> \<open>Config_Store\<close>, \<open>Config_Backend\<close>: the batch semantics and three backends; the contract of a
    backend as a locale, interpreted by each.
  \<^item> \<open>Post_Lease\<close>, \<open>Post_Once\<close>: the post lease and its clients; its contract as a locale, kept by the
    in-process lease, and its durable extension, kept by the lease over any backend.
  \<^item> \<open>Jobs\<close>: scheduled jobs, the in-process and the durable scheduler. \<open>Jobs_Once\<close>: drivers interleaved
    over one store never claim a fire instant twice. \<open>Jobs_Local\<close>: the state the in-process scheduler
    keeps, what a tick claims, and that runs do not overlap. \<open>Jobs_Refine\<close>: the durable tick does what
    the in-process one does. \<open>Jobs_Driver\<close>: the multi-tenant tick, its fair order, and two losses.
  \<^item> \<open>Edit_Tool\<close>, \<open>Patch_Tool\<close>: the editing tools, from their arguments to the bytes written.
    \<open>Edit_Exact\<close>: an exact edit changes its targets and no other byte, a fuzzy one a single block of lines.
    \<open>Patch_Exact\<close>: a hunk replaces the block it shows, and a patch is all or nothing.

  Interfaces. The locale \<open>config_backend\<close> (extended by \<open>counting_backend\<close> and \<open>store_lease\<close>) states what
  clients of the config store use; the locales \<open>post_lease\<close> and \<open>durable_lease\<close> state what approvers
  use, and \<open>store_lease\<close> is a sublocale of \<open>durable_lease\<close>. Each is interpreted on the definitions
  modelling the code; properties rest on those interpretations.

  State and interleaving. A store call runs under the store's lock and is one step; a history is a
  list of calls, or a reachability relation. The approver's and skipper's functions are modelled
  twice, as the sequence the code writes and cut at their awaits, with a lemma that the two agree;
  their interleavings are the relation \<open>fleet_step\<close>, in which tasks may also stop anywhere. The durable
  scheduler is cut likewise: \<open>cluster_step\<close> interleaves the loads, conditional claims and finishes of any
  number of drivers with callers and writers of other cards, failures and crashes. It assumes that the
  JSON codec reads back what it wrote, that job ids (UUIDs) are fresh and that clocks stay below
  \<open>u64::MAX\<close>; \<open>cl_fires\<close> and \<open>cl_ids\<close> are ghost state that records the claims won and the ids used.

  Parameters stand for code outside the repository: \<open>lower\<close> (Unicode lower case), \<open>canon\<close> and \<open>symlink\<close>
  (the file system), the random jitter, the JSON codec of a stored job, fresh ids and clocks, the
  HTTP date parser, the tie order of a hash map, the text formatting of Rust values, the outcomes of
  file, database and forge calls. For the patch tool a tree maps files to their bytes, \<open>pe_node\<close> says
  which file a path names and \<open>pe_entry\<close> which one its removal removes; other processes are assumed not
  to change the tree while a patch runs.

  Bounds and fuel. The rollup walks the ancestors with fuel 8, more than the depth 6 the path grammar
  allows, and is proved never to run out. A branch walk of the graph validator
  makes at most as many hops as there are nodes, as the code does; Kahn's loop and the schedule loops
  are total functions by a measure. The cron scan is the code's 366 days of minutes.

  Not modelled. The agent's turn loop, its other tools, sandbox and terminals, provider routing with
  floating-point scores, protocol conversion and transport, metrics, terminal rendering, memory and
  embeddings, source analyzers and Kubernetes rendering: effects, generated code or third-party
  libraries around few decisions. The PostgreSQL tiers of the campaign and the config store: SQL
  against a server. In modelled components: the parsing of a hand-edited bundle file, several
  processes over one bundle file (the code's mutex is per process), the process-wide role catalog, the
  revocation of sessions, run observers and the semaphores of the scheduler driver, the poisoning of a
  mutex by a panic.
\<close>

end
